(* ===== verification/Prelude.thy ===== *)
theory Prelude
  imports Main "HOL-Library.Word" "HOL-Library.Sublist"
begin

text \<open>
  Shared vocabulary of the development: the named collections the component theories
  add to, the types every component uses (Go strings are byte strings, hence
  \<open>string\<close>; instants and durations are nanosecond counts, hence \<open>int\<close>), the small
  lemmas on lists, options and sums that several proofs need, and the counted loop that
  models Go's bounded retries.
\<close>

named_theorems go_defs \<open>definitions of the Go library layer that proofs unfold together\<close>
named_theorems store_defs \<open>definitions of the operations of the guest store\<close>
named_theorems inv_intros \<open>preservation lemmas of the component invariants\<close>

type_synonym instant = int    \<comment> \<open>nanoseconds since the Unix epoch\<close>
type_synonym duration = int   \<comment> \<open>nanoseconds\<close>
type_synonym byte = "8 word"

abbreviation second :: duration where
  "second \<equiv> 1000000000"

abbreviation minute :: duration where
  "minute \<equiv> 60 * second"

abbreviation hour :: duration where
  "hour \<equiv> 60 * minute"

section \<open>Sums as results\<close>

definition is_ok :: "'e + 'a \<Rightarrow> bool" where
  "is_ok r = (case r of Inl _ \<Rightarrow> False | Inr _ \<Rightarrow> True)"

lemma is_ok_simps [simp]: "is_ok (Inr x)" "\<not> is_ok (Inl e)"
  by (simp_all add: is_ok_def)

lemma is_ok_iff: "is_ok r \<longleftrightarrow> (\<exists>x. r = Inr x)"
  by (cases r) simp_all

lemma fst_eqE: "fst p = x \<Longrightarrow> (\<And>y. p = (x, y) \<Longrightarrow> thesis) \<Longrightarrow> thesis"
  by (cases p) simp

section \<open>Updating the first match of a list\<close>

text \<open>
  Go code looks a record up by scanning a slice of pointers and then writes through the
  pointer; on a list of values that is: rewrite the first element that matches.
\<close>

fun update_first :: "('a \<Rightarrow> bool) \<Rightarrow> ('a \<Rightarrow> 'a) \<Rightarrow> 'a list \<Rightarrow> 'a list" where
  "update_first p f [] = []"
| "update_first p f (x # xs) = (if p x then f x # xs else x # update_first p f xs)"

lemma length_update_first [simp]: "length (update_first p f xs) = length xs"
  by (induction xs) auto

lemma update_first_no_match: "List.find p xs = None \<Longrightarrow> update_first p f xs = xs"
  by (induction xs) (auto split: if_splits)

lemma map_update_first:
  "(\<And>x. g (f x) = g x) \<Longrightarrow> map g (update_first p f xs) = map g xs"
  by (induction xs) auto

lemma set_update_first_subset: "set (update_first p f xs) \<subseteq> set xs \<union> f ` set xs"
  by (induction xs) auto

lemma in_update_firstE:
  assumes "y \<in> set (update_first p f xs)"
  obtains "y \<in> set xs" | x where "x \<in> set xs" "p x" "y = f x"
  using assms by (induction xs) (auto split: if_splits)

lemma update_first_split:
  assumes "List.find p xs = Some x"
  shows "\<exists>us vs. xs = us @ x # vs \<and> (\<forall>u \<in> set us. \<not> p u) \<and> p x
           \<and> update_first p f xs = us @ f x # vs"
  using assms
proof (induction xs)
  case Nil
  then show ?case by simp
next
  case (Cons a as)
  show ?case
  proof (cases "p a")
    case True
    then have "a = x" using Cons.prems by simp
    with True show ?thesis by (auto intro: exI [of _ "[]"])
  next
    case False
    with Cons obtain us vs where "as = us @ x # vs" "\<forall>u \<in> set us. \<not> p u" "p x"
      "update_first p f as = us @ f x # vs" by auto
    with False have "a # as = (a # us) @ x # vs \<and> (\<forall>u \<in> set (a # us). \<not> p u) \<and> p x
        \<and> update_first p f (a # as) = (a # us) @ f x # vs" by simp
    then show ?thesis by blast
  qed
qed

text \<open>
  Rewriting the first match of \<open>q\<close> with a function that keeps the view \<open>v\<close> and does not
  change what \<open>p\<close> looks at leaves the view of the first match of \<open>p\<close> as it was.
\<close>

lemma find_update_first_view:
  assumes "\<And>x. p (f x) = p x" "\<And>x. v (f x) = v x"
  shows "map_option v (List.find p (update_first q f xs)) = map_option v (List.find p xs)"
  by (induction xs) (auto simp: assms)

lemma find_update_first_key:
  assumes "\<And>x. p (f x) = p x" "distinct (map k xs)"
  shows "List.find p (update_first (\<lambda>x. k x = i) f xs)
           = map_option (\<lambda>x. if k x = i then f x else x) (List.find p xs)"
  using assms(2)
proof (induction xs)
  case (Cons x xs)
  have "List.find p xs = map_option (\<lambda>x. if k x = i then f x else x) (List.find p xs)"
    if "k x = i"
  proof (cases "List.find p xs")
    case (Some y)
    then have "y \<in> set xs" by (induction xs) (auto split: if_splits)
    then have "k y \<in> k ` set xs" by (rule imageI)
    with that Cons.prems have "k y \<noteq> i" by auto
    with Some show ?thesis by simp
  qed simp
  with Cons show ?case by (auto simp: assms)
qed simp

lemma find_SomeD: "List.find p xs = Some x \<Longrightarrow> x \<in> set xs \<and> p x"
  by (induction xs) (auto split: if_splits)

lemma find_append:
  "List.find p (xs @ ys) = (case List.find p xs of None \<Rightarrow> List.find p ys | Some x \<Rightarrow> Some x)"
  by (induction xs) auto

lemma find_None_iff2: "List.find p xs = None \<longleftrightarrow> (\<forall>x \<in> set xs. \<not> p x)"
  by (induction xs) auto

section \<open>Bounded suffixes\<close>

text \<open>The last \<open>n\<close> elements of a list: what a ring buffer of capacity \<open>n\<close> keeps.\<close>

definition last_n :: "nat \<Rightarrow> 'a list \<Rightarrow> 'a list" where
  "last_n n xs = drop (length xs - n) xs"

lemma length_last_n [simp]: "length (last_n n xs) = min n (length xs)"
  by (simp add: last_n_def)

lemma last_n_all [simp]: "length xs \<le> n \<Longrightarrow> last_n n xs = xs"
  by (simp add: last_n_def)

lemma last_n_snoc: "0 < n \<Longrightarrow> last_n n (xs @ [x]) = last_n (n - 1) xs @ [x]"
  by (cases "length xs < n") (auto simp: last_n_def Suc_diff_le)

lemma last_n_last_n: "m \<le> n \<Longrightarrow> last_n m (last_n n xs) = last_n m xs"
  by (cases "length xs \<le> n") (auto simp: last_n_def)

lemma last_n_append_last_n: "last_n k (last_n k xs @ ys) = last_n k (xs @ ys)"
  by (cases "length xs \<le> k") (auto simp: last_n_def add.commute)

lemma set_last_n: "set (last_n n xs) \<subseteq> set xs"
  unfolding last_n_def by (rule set_drop_subset)

lemma last_n_map: "map f (last_n n xs) = last_n n (map f xs)"
  by (simp add: last_n_def drop_map)

lemma take_rev_last_n: "rev (take n (rev xs)) = last_n n xs"
  by (simp add: last_n_def take_rev)

lemma distinct_mapI: "distinct (map f xs) \<Longrightarrow> distinct xs"
  by (simp add: distinct_map)

lemma filter_in_drop: "distinct xs \<Longrightarrow> filter (\<lambda>x. x \<in> set (drop k xs)) xs = drop k xs"
proof -
  assume d: "distinct xs"
  have "set (take k xs) \<inter> set (drop k xs) = {}"
    using d by (metis append_take_drop_id distinct_append)
  then have "filter (\<lambda>x. x \<in> set (drop k xs)) (take k xs) = []"
    by (auto simp: filter_empty_conv)
  then show ?thesis
    by (metis append.left_neutral append_take_drop_id filter_True filter_append)
qed

lemma filter_in_last_n: "distinct xs \<Longrightarrow> filter (\<lambda>x. x \<in> set (last_n k xs)) xs = last_n k xs"
  unfolding last_n_def by (rule filter_in_drop)

section \<open>Words\<close>

unbundle bit_operations_syntax

lemma word_xor_cancel [simp]: "(a XOR b) XOR b = (a :: 'a::len word)"
  by (simp add: xor.assoc)

end
