(* ===== verification/GoLib.thy ===== *)
theory GoLib
  imports Prelude
begin

text \<open>
  The parts of the Go standard library the program computes with, on byte strings:
  \<open>strings\<close> (prefixes, \<open>Cut\<close>, \<open>Split\<close>, \<open>Join\<close>, \<open>TrimSpace\<close>, \<open>TrimRight\<close>,
  \<open>Fields\<close>, case mapping), \<open>strconv\<close> (decimal integers in the 64-bit range),
  \<open>encoding/hex\<close>, \<open>encoding/base64\<close> (raw URL and padded standard alphabets) and
  \<open>net/url.QueryEscape\<close>.  Case mapping covers the ASCII letters, which is what the
  header names, codec names and challenges that reach it are made of; every other
  function here is exact on arbitrary bytes.  Cryptographic primitives and the random
  source are arguments of the definitions that use them.
\<close>

section \<open>Characters\<close>

abbreviation ord :: "char \<Rightarrow> nat" where
  "ord c \<equiv> of_char c"

definition is_digit :: "char \<Rightarrow> bool" where
  "is_digit c \<longleftrightarrow> 48 \<le> ord c \<and> ord c \<le> 57"

definition digit_char :: "nat \<Rightarrow> char" where
  "digit_char d = char_of (48 + d)"

definition digit_val :: "char \<Rightarrow> nat" where
  "digit_val c = ord c - 48"

lemma is_digit_digit_char [simp]: "d < 10 \<Longrightarrow> is_digit (digit_char d)"
  by (simp add: is_digit_def digit_char_def)

lemma digit_val_digit_char [simp]: "d < 10 \<Longrightarrow> digit_val (digit_char d) = d"
  by (simp add: digit_val_def digit_char_def)

lemma digit_char_digit_val [simp]: "is_digit c \<Longrightarrow> digit_char (digit_val c) = c"
  by (simp add: is_digit_def digit_char_def digit_val_def)

definition lower_char :: "char \<Rightarrow> char" where
  "lower_char c = (if 65 \<le> ord c \<and> ord c \<le> 90 then char_of (ord c + 32) else c)"

definition upper_char :: "char \<Rightarrow> char" where
  "upper_char c = (if 97 \<le> ord c \<and> ord c \<le> 122 then char_of (ord c - 32) else c)"

definition to_lower :: "string \<Rightarrow> string" where
  "to_lower s = map lower_char s"

definition to_upper :: "string \<Rightarrow> string" where
  "to_upper s = map upper_char s"

definition equal_fold :: "string \<Rightarrow> string \<Rightarrow> bool" where
  "equal_fold s t \<longleftrightarrow> to_lower s = to_lower t"

lemma lower_char_idem [simp]: "lower_char (lower_char c) = lower_char c"
  by (simp add: lower_char_def)

lemma to_lower_idem [simp]: "to_lower (to_lower s) = to_lower s"
  by (simp add: to_lower_def)

lemma to_lower_Nil [simp]: "to_lower [] = []"
  by (simp add: to_lower_def)

lemma length_to_lower [simp]: "length (to_lower s) = length s"
  by (simp add: to_lower_def)

section \<open>Prefixes and suffixes\<close>

definition trim_prefix :: "string \<Rightarrow> string \<Rightarrow> string" where
  "trim_prefix p s = (if prefix p s then drop (length p) s else s)"

definition trim_suffix :: "string \<Rightarrow> string \<Rightarrow> string" where
  "trim_suffix p s = (if suffix p s then take (length s - length p) s else s)"

definition cut_prefix :: "string \<Rightarrow> string \<Rightarrow> string \<times> bool" where
  "cut_prefix p s = (if prefix p s then (drop (length p) s, True) else (s, False))"

lemma trim_prefix_append [simp]: "trim_prefix p (p @ s) = s"
  by (simp add: trim_prefix_def)

lemma trim_suffix_append [simp]: "trim_suffix p (s @ p) = s"
  by (simp add: trim_suffix_def suffix_def)

lemma cut_prefix_append [simp]: "cut_prefix p (p @ s) = (s, True)"
  by (simp add: cut_prefix_def)

section \<open>Cut, Split and Join\<close>

text \<open>\<open>strings.Cut\<close> at the first occurrence of a one-byte separator.\<close>

fun cut :: "char \<Rightarrow> string \<Rightarrow> string \<times> string \<times> bool" where
  "cut c [] = ([], [], False)"
| "cut c (x # xs) = (if x = c then ([], xs, True)
     else (let (b, a, f) = cut c xs in (x # b, a, f)))"

lemma cut_absent: "c \<notin> set s \<Longrightarrow> cut c s = (s, [], False)"
  by (induction s) auto

lemma cut_at: "c \<notin> set b \<Longrightarrow> cut c (b @ c # a) = (b, a, True)"
  by (induction b) auto

lemma cut_True: "cut c s = (b, a, True) \<Longrightarrow> s = b @ c # a \<and> c \<notin> set b"
  by (induction s arbitrary: b a) (auto split: if_splits prod.splits)

lemma cut_False: "cut c s = (b, a, False) \<Longrightarrow> b = s \<and> a = [] \<and> c \<notin> set s"
  by (induction s arbitrary: b a) (auto split: if_splits prod.splits)

text \<open>\<open>strings.Split\<close> with a one-byte separator, and \<open>strings.Join\<close>.\<close>

fun split_on :: "char \<Rightarrow> string \<Rightarrow> string list" where
  "split_on c [] = [[]]"
| "split_on c (x # xs) = (if x = c then [] # split_on c xs
     else (case split_on c xs of [] \<Rightarrow> [[x]] | p # ps \<Rightarrow> (x # p) # ps))"

fun join :: "string \<Rightarrow> string list \<Rightarrow> string" where
  "join sep [] = []"
| "join sep [p] = p"
| "join sep (p # q # ps) = p @ sep @ join sep (q # ps)"

lemma split_on_nonempty [simp]: "split_on c s \<noteq> []"
  by (induction s) (auto split: list.splits)

lemma join_split_on [simp]: "join [c] (split_on c s) = s"
proof (induction s)
  case (Cons x xs)
  obtain p ps where "split_on c xs = p # ps" by (meson split_on_nonempty list.exhaust)
  with Cons show ?case by (cases ps) auto
qed simp

lemma split_on_no_sep: "p \<in> set (split_on c s) \<Longrightarrow> c \<notin> set p"
  by (induction s arbitrary: p) (auto split: if_splits list.splits)

lemma split_on_absent: "c \<notin> set s \<Longrightarrow> split_on c s = [s]"
  by (induction s) auto

lemma split_on_append: "c \<notin> set s \<Longrightarrow> split_on c (s @ c # t) = s # split_on c t"
  by (induction s) auto

lemma split_on_join:
  "ps \<noteq> [] \<Longrightarrow> \<forall>p \<in> set ps. c \<notin> set p \<Longrightarrow> split_on c (join [c] ps) = ps"
  by (induction "[c]" ps rule: join.induct) (simp_all add: split_on_absent split_on_append)

section \<open>Trimming\<close>

text \<open>
  \<open>strings.TrimSpace\<close> trims the Unicode white space characters; on bytes these are their
  UTF-8 encodings.
\<close>

definition space_encodings :: "string list" where
  "space_encodings =
     [[CHR 0x09], [CHR 0x0A], [CHR 0x0B], [CHR 0x0C], [CHR 0x0D], [CHR 0x20],
      [CHR 0xC2, CHR 0x85], [CHR 0xC2, CHR 0xA0], [CHR 0xE1, CHR 0x9A, CHR 0x80]]
     @ map (\<lambda>n. [CHR 0xE2, CHR 0x80, char_of (0x80 + n)]) [0..<11]
     @ [[CHR 0xE2, CHR 0x80, CHR 0xA8], [CHR 0xE2, CHR 0x80, CHR 0xA9],
        [CHR 0xE2, CHR 0x80, CHR 0xAF], [CHR 0xE2, CHR 0x81, CHR 0x9F],
        [CHR 0xE3, CHR 0x80, CHR 0x80]]"

function trim_left_by :: "string list \<Rightarrow> string \<Rightarrow> string" where
  "trim_left_by ps s = (case List.find (\<lambda>p. p \<noteq> [] \<and> prefix p s) ps of
      None \<Rightarrow> s
    | Some p \<Rightarrow> trim_left_by ps (drop (length p) s))"
  by pat_completeness auto
termination
proof (relation "measure (\<lambda>(ps, s). length s)", goal_cases)
  case (2 ps s p)
  from find_SomeD [OF 2] have "p \<noteq> []" "prefix p s" by auto
  then show ?case by (auto simp: prefix_def)
qed simp

declare trim_left_by.simps [simp del]

definition trim_space :: "string \<Rightarrow> string" where
  "trim_space s = rev (trim_left_by (map rev space_encodings)
                        (rev (trim_left_by space_encodings s)))"

text \<open>\<open>strings.TrimRight\<close> with a cutset.\<close>

definition trim_right_set :: "char set \<Rightarrow> string \<Rightarrow> string" where
  "trim_right_set cs s = rev (dropWhile (\<lambda>c. c \<in> cs) (rev s))"

text \<open>A printable ASCII byte starts and ends no white space encoding.\<close>

definition graphic :: "char \<Rightarrow> bool" where
  "graphic c \<longleftrightarrow> 33 \<le> ord c \<and> ord c \<le> 126"

lemma trim_left_by_id:
  assumes "\<forall>p \<in> set ps. p \<noteq> [] \<longrightarrow> \<not> prefix p s"
  shows "trim_left_by ps s = s"
proof -
  have "List.find (\<lambda>p. p \<noteq> [] \<and> prefix p s) ps = None"
    using assms by (auto simp: find_None_iff2)
  then show ?thesis by (subst trim_left_by.simps) simp
qed

lemma space_encodings_ends:
  "p \<in> set space_encodings \<Longrightarrow> p \<noteq> [] \<and> \<not> graphic (hd p) \<and> \<not> graphic (last p)"
proof -
  have "\<forall>p \<in> set space_encodings. p \<noteq> [] \<and> \<not> graphic (hd p) \<and> \<not> graphic (last p)"
    unfolding space_encodings_def graphic_def by (simp add: upt_rec)
  then show "p \<in> set space_encodings \<Longrightarrow> ?thesis" by blast
qed

lemma trim_space_Nil [simp]: "trim_space [] = []"
proof -
  have "trim_left_by ps [] = []" if "\<forall>p \<in> set ps. p \<noteq> []" for ps
    using that by (intro trim_left_by_id) auto
  then show ?thesis
    using space_encodings_ends by (auto simp: trim_space_def)
qed

lemma trim_space_graphic:
  assumes "s \<noteq> []" "graphic (hd s)" "graphic (last s)"
  shows "trim_space s = s"
proof -
  have l: "trim_left_by space_encodings s = s"
  proof (rule trim_left_by_id, intro ballI impI notI)
    fix p assume p: "p \<in> set space_encodings" "p \<noteq> []" "prefix p s"
    then have "hd p = hd s" by (auto simp: prefix_def)
    with assms(2) show False using space_encodings_ends [OF p(1)] by simp
  qed
  have "trim_left_by (map rev space_encodings) (rev s) = rev s"
  proof (rule trim_left_by_id, intro ballI impI notI)
    fix q assume q: "q \<in> set (map rev space_encodings)" "q \<noteq> []" "prefix q (rev s)"
    then obtain p where p: "p \<in> set space_encodings" "q = rev p" by auto
    from q p have "hd q = last p" "hd q = last s"
      by (auto simp: prefix_def hd_rev) (metis hd_append2 hd_rev rev_is_Nil_conv)
    with p(1) assms(3) show False using space_encodings_ends [OF p(1)] by simp
  qed
  with l show ?thesis by (simp add: trim_space_def)
qed

text \<open>Trimming never drops a printable byte.\<close>

lemma trim_left_by_keeps:
  assumes "\<forall>p \<in> set ps. c \<notin> set p"
  shows "c \<in> set (trim_left_by ps s) \<longleftrightarrow> c \<in> set s"
  using assms
proof (induction ps s rule: trim_left_by.induct)
  case (1 ps s)
  show ?case
  proof (cases "List.find (\<lambda>p. p \<noteq> [] \<and> prefix p s) ps")
    case None
    then show ?thesis by (subst trim_left_by.simps) simp
  next
    case (Some p)
    then obtain r where "s = p @ r" "p \<in> set ps" by (auto dest: find_SomeD simp: prefix_def)
    with 1 Some show ?thesis by (subst trim_left_by.simps) simp
  qed
qed

lemma trim_space_keeps: "graphic c \<Longrightarrow> c \<in> set (trim_space s) \<longleftrightarrow> c \<in> set s"
proof -
  assume g: "graphic c"
  have "\<forall>p \<in> set space_encodings. list_all (\<lambda>x. \<not> graphic x) p"
    unfolding space_encodings_def graphic_def by (simp add: upt_rec)
  with g have "\<forall>p \<in> set space_encodings. c \<notin> set p" by (auto simp: list_all_iff)
  then show ?thesis by (simp add: trim_space_def trim_left_by_keeps)
qed

lemma trim_space_blank: "set s \<subseteq> {CHR 0x0D} \<Longrightarrow> trim_space s = []"
proof -
  assume "set s \<subseteq> {CHR 0x0D}"
  then have "trim_left_by space_encodings s = []"
  proof (induction s)
    case (Cons c s)
    have "trim_left_by space_encodings (CHR 0x0D # s) = trim_left_by space_encodings s"
      by (subst trim_left_by.simps) (simp add: space_encodings_def)
    with Cons show ?case by simp
  next
    case Nil
    show ?case by (rule trim_left_by_id) auto
  qed
  moreover have "trim_left_by (map rev space_encodings) [] = []" by (rule trim_left_by_id) auto
  ultimately show ?thesis by (simp add: trim_space_def)
qed

lemma trim_right_set_id: "s = [] \<or> last s \<notin> cs \<Longrightarrow> trim_right_set cs s = s"
  by (cases s rule: rev_cases) (auto simp: trim_right_set_def)

lemma trim_right_set_append:
  "set t \<subseteq> cs \<Longrightarrow> trim_right_set cs (s @ t) = trim_right_set cs s"
  unfolding trim_right_set_def
  by (simp add: dropWhile_append) (metis dropWhile_eq_Nil_conv set_rev subset_code(1))

lemma trim_right_set_prefix: "\<exists>t. s = trim_right_set cs s @ t \<and> set t \<subseteq> cs"
proof -
  have "rev s = takeWhile (\<lambda>c. c \<in> cs) (rev s) @ dropWhile (\<lambda>c. c \<in> cs) (rev s)" by simp
  then have "s = rev (dropWhile (\<lambda>c. c \<in> cs) (rev s)) @ rev (takeWhile (\<lambda>c. c \<in> cs) (rev s))"
    by (metis rev_append rev_rev_ident)
  moreover have "set (rev (takeWhile (\<lambda>c. c \<in> cs) (rev s))) \<subseteq> cs"
    by (auto dest: set_takeWhileD)
  ultimately show ?thesis unfolding trim_right_set_def by blast
qed

section \<open>Fields\<close>

text \<open>\<open>strings.Fields\<close>: the maximal runs of bytes outside white space.\<close>

definition starts_space :: "string \<Rightarrow> bool" where
  "starts_space s \<longleftrightarrow> List.find (\<lambda>p. p \<noteq> [] \<and> prefix p s) space_encodings \<noteq> None"

fun span_word :: "string \<Rightarrow> string \<times> string" where
  "span_word [] = ([], [])"
| "span_word (x # xs) = (if starts_space (x # xs) then ([], x # xs)
     else (case span_word xs of (w, r) \<Rightarrow> (x # w, r)))"

lemma length_span_word: "span_word s = (w, r) \<Longrightarrow> length r \<le> length s \<and> (s \<noteq> [] \<longrightarrow> \<not> starts_space s \<longrightarrow> length r < length s)"
  by (induction s arbitrary: w r rule: span_word.induct) (auto split: if_splits prod.splits simp: le_Suc_eq)

lemma trim_left_by_shorter: "length (trim_left_by ps s) \<le> length s"
proof (induction ps s rule: trim_left_by.induct)
  case (1 ps s)
  then show ?case by (subst trim_left_by.simps) (auto split: option.split dest: le_trans)
qed

lemma trim_left_by_starts: "trim_left_by space_encodings s = r \<Longrightarrow> \<not> starts_space r"
proof (induction "space_encodings" s arbitrary: r rule: trim_left_by.induct)
  case (1 s)
  then show ?case
    by (subst (asm) (2) trim_left_by.simps) (auto simp: starts_space_def split: option.splits)
qed

lemma word_shrinks:
  "(w, r) = span_word (trim_left_by space_encodings s) \<Longrightarrow> trim_left_by space_encodings s \<noteq> [] \<Longrightarrow> length r < length s"
  using trim_left_by_shorter [of space_encodings s] trim_left_by_starts [of s]
    length_span_word [of "trim_left_by space_encodings s" w r] by auto

function Fields :: "string \<Rightarrow> string list" where
  "Fields s = (let t = trim_left_by space_encodings s in
     if t = [] then [] else (case span_word t of (w, r) \<Rightarrow> w # Fields r))"
  by pat_completeness auto
termination by (relation "measure length") (auto intro: word_shrinks)

declare Fields.simps [simp del]

lemma starts_space_graphic: "graphic c \<Longrightarrow> \<not> starts_space (c # s)"
proof
  assume "graphic c" "starts_space (c # s)"
  then obtain p where "p \<in> set space_encodings" "p \<noteq> []" "prefix p (c # s)"
    by (auto simp: starts_space_def dest: find_SomeD)
  with space_encodings_ends [of p] \<open>graphic c\<close> show False by (cases p) auto
qed

lemma starts_space_space [simp]: "starts_space (CHR '' '' # s)"
  by (auto simp: starts_space_def space_encodings_def find_None_iff2)

lemma span_word_graphic:
  "\<forall>c \<in> set w. graphic c \<Longrightarrow> r = [] \<or> hd r = CHR '' '' \<Longrightarrow> span_word (w @ r) = (w, r)"
proof (induction w)
  case Nil
  then show ?case by (cases r) auto
qed (auto simp: starts_space_graphic)

lemma Fields_word:
  assumes "w \<noteq> []" "\<forall>c \<in> set w. graphic c" "r = [] \<or> hd r = CHR '' ''"
  shows "Fields (w @ r) = w # Fields r"
proof -
  have "trim_left_by space_encodings (w @ r) = w @ r"
  proof (subst trim_left_by.simps)
    have "\<not> starts_space (w @ r)" using assms(1,2) starts_space_graphic by (cases w) auto
    then show "(case List.find (\<lambda>p. p \<noteq> [] \<and> prefix p (w @ r)) space_encodings of
        None \<Rightarrow> w @ r | Some p \<Rightarrow> trim_left_by space_encodings (drop (length p) (w @ r))) = w @ r"
      by (simp add: starts_space_def)
  qed
  with span_word_graphic [OF assms(2,3)] assms(1) show ?thesis
    by (subst Fields.simps) simp
qed

lemma Fields_Nil [simp]: "Fields [] = []"
proof -
  have "trim_left_by space_encodings [] = []" using trim_left_by_shorter [of space_encodings "[]"] by simp
  then show ?thesis by (subst Fields.simps) simp
qed

lemma Fields_space: "Fields (CHR '' '' # s) = Fields s"
proof -
  have "trim_left_by space_encodings (CHR '' '' # s) = trim_left_by space_encodings s"
    by (subst trim_left_by.simps) (simp add: space_encodings_def)
  then show ?thesis by (subst (1 2) Fields.simps) simp
qed

lemma Fields_join:
  "\<forall>w \<in> set ws. w \<noteq> [] \<and> (\<forall>c \<in> set w. graphic c) \<Longrightarrow> Fields (join '' '' ws) = ws"
proof (induction "'' ''" ws rule: join.induct)
  case (2 w)
  then show ?case using Fields_word [of w "[]"] by simp
next
  case (3 p q ps)
  then show ?case using Fields_word [of p "'' '' @ join '' '' (q # ps)"] by (simp add: Fields_space)
qed simp

section \<open>Addresses\<close>

text \<open>\<open>net.SplitHostPort\<close> and \<open>net.JoinHostPort\<close>\<close>

definition split_last :: "char \<Rightarrow> string \<Rightarrow> (string \<times> string) option" where
  "split_last c s = (if c \<in> set s
     then Some (rev (tl (dropWhile (\<lambda>x. x \<noteq> c) (rev s))), rev (takeWhile (\<lambda>x. x \<noteq> c) (rev s)))
     else None)"

definition SplitHostPort :: "string \<Rightarrow> (string \<times> string) option" where
  "SplitHostPort s = (case split_last CHR '':'' s of
      None \<Rightarrow> None
    | Some (pre, port) \<Rightarrow>
        if hd s = CHR ''['' then
          (if CHR '']'' \<in> set s \<and> takeWhile (\<lambda>x. x \<noteq> CHR '']'') s @ '']'' = pre
             \<and> CHR ''['' \<notin> set (tl s) \<and> CHR '']'' \<notin> set port
           then Some (butlast (tl pre), port) else None)
        else if CHR '':'' \<in> set pre \<or> CHR ''['' \<in> set s \<or> CHR '']'' \<in> set s then None
        else Some (pre, port))"

definition JoinHostPort :: "string \<Rightarrow> string \<Rightarrow> string" where
  "JoinHostPort h p = (if CHR '':'' \<in> set h then ''['' @ h @ '']:'' @ p else h @ '':'' @ p)"

section \<open>Instants and truncating arithmetic\<close>

text \<open>\<open>time.Time.Unix\<close> and \<open>time.Unix(ts, 0)\<close>\<close>

definition unix :: "instant \<Rightarrow> int" where
  "unix t = t div second"

definition of_unix :: "int \<Rightarrow> instant" where
  "of_unix ts = ts * second"

lemma unix_of_unix [simp]: "unix (of_unix ts) = ts"
  by (simp add: unix_def of_unix_def)

text \<open>\<open>int64\<close> arithmetic written out: a result is wrapped into the signed 64-bit range.\<close>

definition wrap64 :: "int \<Rightarrow> int" where
  "wrap64 x = (x + 2 ^ 63) mod 2 ^ 64 - 2 ^ 63"

lemma wrap64_id: "- (2 ^ 63) \<le> x \<Longrightarrow> x < 2 ^ 63 \<Longrightarrow> wrap64 x = x"
  by (simp add: wrap64_def)

lemma wrap64_range: "- (2 ^ 63) \<le> wrap64 x \<and> wrap64 x < 2 ^ 63"
  using pos_mod_bound [of "2 ^ 64" "x + 2 ^ 63"] pos_mod_sign [of "2 ^ 64" "x + 2 ^ 63"]
  by (simp add: wrap64_def)

text \<open>\<open>time.Time.Sub\<close> saturates instead of wrapping.\<close>

definition time_sub :: "instant \<Rightarrow> instant \<Rightarrow> duration" where
  "time_sub a b = max (- (2 ^ 63)) (min (2 ^ 63 - 1) (a - b))"

text \<open>\<open>strings.ReplaceAll\<close> with a non-empty pattern\<close>

function replace_all :: "string \<Rightarrow> string \<Rightarrow> string \<Rightarrow> string" where
  "replace_all old new s =
     (case s of [] \<Rightarrow> []
      | c # r \<Rightarrow> if old \<noteq> [] \<and> prefix old s then new @ replace_all old new (drop (length old) s)
               else c # replace_all old new r)"
  by pat_completeness auto
termination by (relation "measure (\<lambda>(_, _, s). length s)") (auto simp: prefix_def)

declare replace_all.simps [simp del]

lemma replace_all_Nil [simp]: "replace_all old new [] = []"
  by (subst replace_all.simps) simp

lemma replace_all_hit: "old \<noteq> [] \<Longrightarrow> replace_all old new (old @ s) = new @ replace_all old new s"
  by (cases old) (simp_all add: replace_all.simps [of "x # xs" for x xs])

lemma replace_all_miss:
  "\<not> prefix old (c # s) \<Longrightarrow> replace_all old new (c # s) = c # replace_all old new s"
  by (subst replace_all.simps) simp

lemma replace_all_absent: "\<not> sublist old s \<Longrightarrow> replace_all old new s = s"
proof (induction s)
  case (Cons c s)
  then have "\<not> prefix old (c # s)" "\<not> sublist old s"
    by (auto simp: sublist_Cons_right)
  with Cons.IH show ?case by (simp add: replace_all_miss)
qed simp

end
