(* ===== verification/GoCodec.thy ===== *)
theory GoCodec
  imports GoLib
begin

text \<open>
  The encodings of the Go standard library the program relies on: decimal integers
  (\<open>strconv.FormatInt\<close>, \<open>ParseInt\<close> in base 10 with 64-bit range, which is also
  \<open>Atoi\<close>), hexadecimal (\<open>encoding/hex\<close>), Base64 (\<open>RawURLEncoding\<close> and the padded
  \<open>StdEncoding\<close>, with the decoder's tolerance for line breaks and for non-zero trailing
  bits) and \<open>url.QueryEscape\<close>, with their round trips.
\<close>

section \<open>Decimal integers\<close>

fun nat_digits :: "nat \<Rightarrow> string" where
  "nat_digits n = (if n < 10 then [digit_char n] else nat_digits (n div 10) @ [digit_char (n mod 10)])"

declare nat_digits.simps [simp del]

definition format_int :: "int \<Rightarrow> string" where
  "format_int i = (if i < 0 then CHR ''-'' # nat_digits (nat (- i)) else nat_digits (nat i))"

definition digits_value :: "string \<Rightarrow> nat" where
  "digits_value s = foldl (\<lambda>v c. 10 * v + digit_val c) 0 s"

definition parse_digits :: "string \<Rightarrow> nat option" where
  "parse_digits s = (if s \<noteq> [] \<and> list_all is_digit s then Some (digits_value s) else None)"

definition int64_range :: "int \<Rightarrow> bool" where
  "int64_range i \<longleftrightarrow> - (2 ^ 63) \<le> i \<and> i < 2 ^ 63"

definition parse_int :: "string \<Rightarrow> int option" where
  "parse_int s = (case s of
      [] \<Rightarrow> None
    | c # r \<Rightarrow>
       (let signed = c = CHR ''-'' \<or> c = CHR ''+''; ds = (if signed then r else s) in
        case parse_digits ds of
          None \<Rightarrow> None
        | Some n \<Rightarrow> (let i = (if c = CHR ''-'' then - int n else int n)
                    in if int64_range i then Some i else None)))"

lemma nat_digits_digits: "list_all is_digit (nat_digits n)"
  by (induction n rule: nat_digits.induct) (subst nat_digits.simps, simp)

lemma nat_digits_nonempty [simp]: "nat_digits n \<noteq> []"
  by (subst nat_digits.simps) simp

lemma digits_value_snoc: "digits_value (s @ [c]) = 10 * digits_value s + digit_val c"
  by (simp add: digits_value_def)

lemma digits_value_nat_digits [simp]: "digits_value (nat_digits n) = n"
proof (induction n rule: nat_digits.induct)
  case (1 n)
  show ?case
  proof (cases "n < 10")
    case True
    then show ?thesis by (subst nat_digits.simps) (simp add: digits_value_def)
  next
    case False
    with 1 show ?thesis
      by (subst nat_digits.simps) (simp add: digits_value_snoc)
  qed
qed

lemma parse_digits_nat_digits [simp]: "parse_digits (nat_digits n) = Some n"
  by (simp add: parse_digits_def nat_digits_digits)

lemma nat_digits_hd: "is_digit (hd (nat_digits n))"
  using nat_digits_digits [of n] by (cases "nat_digits n") auto

lemma parse_int_format_int: "int64_range i \<Longrightarrow> parse_int (format_int i) = Some i"
proof (cases "i < 0")
  case True
  then show "int64_range i \<Longrightarrow> ?thesis"
    by (simp add: parse_int_def format_int_def Let_def)
next
  case False
  obtain c r where cr: "nat_digits (nat i) = c # r" by (meson nat_digits_nonempty list.exhaust)
  then have "is_digit c" using nat_digits_hd [of "nat i"] by simp
  then have "c \<noteq> CHR ''-''" "c \<noteq> CHR ''+''" by (auto simp: is_digit_def)
  then have "parse_int (c # r) = (case parse_digits (c # r) of None \<Rightarrow> None
      | Some n \<Rightarrow> if int64_range (int n) then Some (int n) else None)"
    by (simp add: parse_int_def Let_def split: option.split)
  also have "parse_digits (c # r) = Some (nat i)"
    using parse_digits_nat_digits [of "nat i"] cr by simp
  finally show "int64_range i \<Longrightarrow> ?thesis" using False cr by (simp add: format_int_def)
qed

lemma parse_int_range: "parse_int s = Some i \<Longrightarrow> int64_range i"
  by (auto simp: parse_int_def Let_def split: list.splits option.splits if_splits)

text \<open>A string that parses holds only digits and a sign.\<close>

lemma parse_int_chars:
  "parse_int s = Some i \<Longrightarrow> c \<in> set s \<Longrightarrow> is_digit c \<or> c = CHR ''-'' \<or> c = CHR ''+''"
  by (auto simp: parse_int_def parse_digits_def Let_def list_all_iff
      split: list.splits option.splits if_splits)

lemma format_int_chars: "c \<in> set (format_int i) \<Longrightarrow> is_digit c \<or> c = CHR ''-''"
  using nat_digits_digits by (auto simp: format_int_def list_all_iff split: if_splits)

lemma digit_not_sep [simp]: "\<not> is_digit CHR ''.''" "\<not> is_digit CHR ''|''" "\<not> is_digit CHR '';''"
  "\<not> is_digit CHR '':''" "\<not> is_digit CHR '' ''" "\<not> is_digit CHR ''-''" "\<not> is_digit CHR ''+''"
  by (simp_all add: is_digit_def)

section \<open>Hexadecimal\<close>

definition hex_char :: "nat \<Rightarrow> char" where
  "hex_char d = (if d < 10 then char_of (48 + d) else char_of (87 + d))"

definition hex_encode :: "string \<Rightarrow> string" where
  "hex_encode s = concat (map (\<lambda>c. [hex_char (ord c div 16), hex_char (ord c mod 16)]) s)"

lemma hex_encode_Nil [simp]: "hex_encode [] = []"
  by (simp add: hex_encode_def)

lemma hex_encode_Cons [simp]:
  "hex_encode (c # s) = hex_char (ord c div 16) # hex_char (ord c mod 16) # hex_encode s"
  by (simp add: hex_encode_def)

lemma length_hex_encode [simp]: "length (hex_encode s) = 2 * length s"
  by (induction s) auto

lemma hex_encode_empty [simp]: "hex_encode s = [] \<longleftrightarrow> s = []"
  by (cases s) auto

lemma hex_encode_chars:
  "c \<in> set (hex_encode s) \<Longrightarrow> is_digit c \<or> 97 \<le> ord c \<and> ord c \<le> 102"
proof -
  have small: "ord x div 16 < 16" "ord x mod 16 < 16" for x :: char
    by (simp_all add: less_mult_imp_div_less)
  have "is_digit (hex_char n) \<or> 97 \<le> ord (hex_char n) \<and> ord (hex_char n) \<le> 102" if "n < 16" for n
    using that by (auto simp: hex_char_def is_digit_def)
  note hex = this [OF small(1)] this [OF small(2)]
  show "c \<in> set (hex_encode s) \<Longrightarrow> ?thesis"
    by (induction s) (use hex in auto)
qed

lemma hex_char_inj: "a < 16 \<Longrightarrow> b < 16 \<Longrightarrow> hex_char a = hex_char b \<Longrightarrow> a = b"
  by (auto simp: hex_char_def split: if_splits)

lemma hex_encode_inj: "hex_encode s = hex_encode t \<Longrightarrow> s = t"
proof (induction s arbitrary: t)
  case Nil
  then show ?case by (cases t) auto
next
  case (Cons c s)
  then obtain d u where t: "t = d # u" by (cases t) auto
  have b: "ord c div 16 < 16" "ord d div 16 < 16" by (simp_all add: less_mult_imp_div_less)
  from Cons.prems t have "hex_char (ord c div 16) = hex_char (ord d div 16)"
    "hex_char (ord c mod 16) = hex_char (ord d mod 16)" "hex_encode s = hex_encode u" by auto
  then have "ord c div 16 = ord d div 16" "ord c mod 16 = ord d mod 16" "s = u"
    using hex_char_inj b Cons.IH by auto
  then have "ord c = ord d" by (metis div_mult_mod_eq)
  with \<open>s = u\<close> t show ?case by simp
qed

section \<open>Base64\<close>

definition b64_std :: string where
  "b64_std = ''ABCDEFGHIJKLMNOPQRSTUVWXYZabcdefghijklmnopqrstuvwxyz0123456789+/''"

definition b64_url :: string where
  "b64_url = ''ABCDEFGHIJKLMNOPQRSTUVWXYZabcdefghijklmnopqrstuvwxyz0123456789-_''"

fun b64_encode :: "string \<Rightarrow> string \<Rightarrow> string" where
  "b64_encode a [] = []"
| "b64_encode a [x] = [a ! (ord x div 4), a ! (ord x mod 4 * 16)]"
| "b64_encode a [x, y] =
     [a ! (ord x div 4), a ! (ord x mod 4 * 16 + ord y div 16), a ! (ord y mod 16 * 4)]"
| "b64_encode a (x # y # z # r) =
     a ! (ord x div 4) # a ! (ord x mod 4 * 16 + ord y div 16)
     # a ! (ord y mod 16 * 4 + ord z div 64) # a ! (ord z mod 64) # b64_encode a r"

fun index_of :: "string \<Rightarrow> char \<Rightarrow> nat option" where
  "index_of [] c = None"
| "index_of (x # xs) c = (if x = c then Some 0 else map_option Suc (index_of xs c))"

text \<open>
  One pass of the decoder without padding.  The trailing bits of the last group are not
  checked (Go's default, non-strict mode); a single left-over byte is an error.
\<close>

fun b64_groups :: "nat list \<Rightarrow> string option" where
  "b64_groups [] = Some []"
| "b64_groups [p] = None"
| "b64_groups [p, q] = Some [char_of (p * 4 + q div 16)]"
| "b64_groups [p, q, r] = Some [char_of (p * 4 + q div 16), char_of (q mod 16 * 16 + r div 4)]"
| "b64_groups (p # q # r # s # t) =
     map_option (\<lambda>u. char_of (p * 4 + q div 16) # char_of (q mod 16 * 16 + r div 4)
                     # char_of (r mod 4 * 64 + s) # u) (b64_groups t)"

definition b64_values :: "string \<Rightarrow> string \<Rightarrow> nat list option" where
  "b64_values a s = those (map (index_of a) s)"

definition drop_newlines :: "string \<Rightarrow> string" where
  "drop_newlines s = filter (\<lambda>c. c \<noteq> CHR 0x0A \<and> c \<noteq> CHR 0x0D) s"

text \<open>\<open>base64.RawURLEncoding\<close>\<close>

definition raw_url_encode :: "string \<Rightarrow> string" where
  "raw_url_encode s = b64_encode b64_url s"

definition raw_url_decode :: "string \<Rightarrow> string option" where
  "raw_url_decode s = Option.bind (b64_values b64_url (drop_newlines s)) b64_groups"

text \<open>\<open>base64.StdEncoding\<close>\<close>

definition std_encode :: "string \<Rightarrow> string" where
  "std_encode s = (let e = b64_encode b64_std s in
     e @ replicate ((4 - length e mod 4) mod 4) CHR ''='')"

definition std_decode :: "string \<Rightarrow> string option" where
  "std_decode s = (let t = drop_newlines s in
     if length t mod 4 \<noteq> 0 then None
     else if suffix ''=='' t then Option.bind (b64_values b64_std (take (length t - 2) t)) b64_groups
     else if suffix ''='' t then Option.bind (b64_values b64_std (take (length t - 1) t)) b64_groups
     else Option.bind (b64_values b64_std t) b64_groups)"

fun b64_codes :: "string \<Rightarrow> nat list" where
  "b64_codes [] = []"
| "b64_codes [x] = [ord x div 4, ord x mod 4 * 16]"
| "b64_codes [x, y] = [ord x div 4, ord x mod 4 * 16 + ord y div 16, ord y mod 16 * 4]"
| "b64_codes (x # y # z # r) =
     ord x div 4 # (ord x mod 4 * 16 + ord y div 16)
     # (ord y mod 16 * 4 + ord z div 64) # ord z mod 64 # b64_codes r"

lemma b64_encode_codes: "b64_encode a s = map ((!) a) (b64_codes s)"
  by (induction a s rule: b64_encode.induct) auto

lemma b64_group_bounds:
  "ord x div 4 < 64" "ord x mod 4 * 16 < 64" "ord x mod 4 * 16 + ord y div 16 < 64"
  "ord y mod 16 * 4 < 64" "ord y mod 16 * 4 + ord z div 64 < 64" "ord z mod 64 < 64"
proof -
  have "ord x div 4 < 64" "ord y div 16 < 16" "ord z div 64 < 4"
    by (simp_all add: less_mult_imp_div_less)
  moreover have "ord x mod 4 < 4" "ord y mod 16 < 16" by simp_all
  ultimately show "ord x div 4 < 64" "ord x mod 4 * 16 < 64"
    "ord x mod 4 * 16 + ord y div 16 < 64" "ord y mod 16 * 4 < 64"
    "ord y mod 16 * 4 + ord z div 64 < 64" "ord z mod 64 < 64" by linarith+
qed

lemma b64_codes_less: "list_all (\<lambda>n. n < 64) (b64_codes s)"
  by (induction s rule: b64_codes.induct) (simp_all add: b64_group_bounds)

lemma b64_byte_1: "(ord x div 4) * 4 + (ord x mod 4 * 16 + ord y div 16) div 16 = ord x"
proof -
  have "ord y div 16 < 16" by (simp add: less_mult_imp_div_less)
  then have "(ord x mod 4 * 16 + ord y div 16) div 16 = ord x mod 4" by simp
  then show ?thesis by simp
qed

lemma b64_byte_2: "(ord x mod 4 * 16 + ord y div 16) mod 16 * 16 + (ord y mod 16 * 4 + ord z div 64) div 4 = ord y"
proof -
  have "ord y div 16 < 16" "ord z div 64 < 4" by (simp_all add: less_mult_imp_div_less)
  then have "(ord x mod 4 * 16 + ord y div 16) mod 16 = ord y div 16"
    "(ord y mod 16 * 4 + ord z div 64) div 4 = ord y mod 16" by simp_all
  then show ?thesis by simp
qed

lemma b64_byte_3: "(ord y mod 16 * 4 + ord z div 64) mod 4 * 64 + ord z mod 64 = ord z"
proof -
  have "ord z div 64 < 4" by (simp add: less_mult_imp_div_less)
  then have "(ord y mod 16 * 4 + ord z div 64) mod 4 = ord z div 64" by simp
  then show ?thesis by simp
qed

lemma b64_byte_1': "(ord x div 4) * 4 + (ord x mod 4 * 16) div 16 = ord x"
  by simp

lemma b64_byte_2': "(ord x mod 4 * 16 + ord y div 16) mod 16 * 16 + (ord y mod 16 * 4) div 4 = ord y"
proof -
  have "ord y div 16 < 16" by (simp add: less_mult_imp_div_less)
  then have "(ord x mod 4 * 16 + ord y div 16) mod 16 = ord y div 16" by simp
  then show ?thesis by simp
qed

lemmas b64_bytes = b64_byte_1 b64_byte_2 b64_byte_3 b64_byte_1' b64_byte_2'

lemma b64_groups_codes [simp]: "b64_groups (b64_codes s) = Some s"
proof (induction s rule: b64_codes.induct)
  case (4 x y z r)
  then show ?case by (simp only: b64_codes.simps b64_groups.simps b64_bytes option.map char_of_char)
qed (simp_all only: b64_codes.simps b64_groups.simps b64_bytes char_of_char)

lemma index_of_nth: "distinct a \<Longrightarrow> n < length a \<Longrightarrow> index_of a (a ! n) = Some n"
proof (induction a arbitrary: n)
  case (Cons x xs)
  then show ?case by (cases n) (auto simp: nth_mem)
qed simp

lemma b64_values_map:
  assumes "distinct a" "length a = 64" "list_all (\<lambda>n. n < 64) ns"
  shows "b64_values a (map ((!) a) ns) = Some ns"
  using assms(3) by (induction ns) (auto simp: b64_values_def index_of_nth assms)

lemma b64_alphabets [simp]:
  "distinct b64_url" "length b64_url = 64" "distinct b64_std" "length b64_std = 64"
  by (simp_all add: b64_url_def b64_std_def)

definition url_safe :: "char \<Rightarrow> bool" where
  "url_safe c \<longleftrightarrow> is_digit c \<or> 65 \<le> ord c \<and> ord c \<le> 90 \<or> 97 \<le> ord c \<and> ord c \<le> 122
     \<or> c = CHR ''-'' \<or> c = CHR ''_'' \<or> c = CHR ''.'' \<or> c = CHR ''~''"

lemma b64_url_safe: "list_all url_safe b64_url"
  by (simp add: b64_url_def url_safe_def is_digit_def)

lemma raw_url_encode_safe: "list_all url_safe (raw_url_encode s)"
  using b64_codes_less [of s] b64_url_safe
  by (auto simp: raw_url_encode_def b64_encode_codes list_all_iff)

lemma url_safe_not_newline: "url_safe c \<Longrightarrow> c \<noteq> CHR 0x0A \<and> c \<noteq> CHR 0x0D"
  by (auto simp: url_safe_def is_digit_def)

lemma raw_url_decode_encode [simp]: "raw_url_decode (raw_url_encode s) = Some s"
proof -
  have "drop_newlines (raw_url_encode s) = raw_url_encode s"
    using raw_url_encode_safe [of s] url_safe_not_newline
    by (auto simp: drop_newlines_def list_all_iff filter_id_conv)
  moreover have "b64_values b64_url (raw_url_encode s) = Some (b64_codes s)"
    unfolding raw_url_encode_def b64_encode_codes
    by (rule b64_values_map) (simp_all add: b64_codes_less)
  ultimately show ?thesis by (simp add: raw_url_decode_def)
qed

lemma b64_std_plain: "list_all (\<lambda>c. c \<noteq> CHR ''='' \<and> c \<noteq> CHR 0x0A \<and> c \<noteq> CHR 0x0D) b64_std"
  by (simp add: b64_std_def)

lemma length_b64_codes: "length (b64_codes s) mod 4 \<noteq> 1"
  by (induction s rule: b64_codes.induct) auto

lemma pad4: "(n + (4 - n mod 4) mod 4) mod 4 = (0 :: nat)"
proof -
  have "n mod 4 < 4" by simp
  then consider "n mod 4 = 0" | "n mod 4 = 1" | "n mod 4 = 2" | "n mod 4 = 3" by linarith
  then have "(n mod 4 + (4 - n mod 4) mod 4) mod 4 = 0" by cases simp_all
  then show ?thesis by (simp add: mod_add_left_eq)
qed

lemma std_decode_encode [simp]: "std_decode (std_encode s) = Some s"
proof -
  let ?e = "b64_encode b64_std s"
  let ?k = "(4 - length ?e mod 4) mod 4"
  have plain: "c \<noteq> CHR ''='' \<and> c \<noteq> CHR 0x0A \<and> c \<noteq> CHR 0x0D" if "c \<in> set ?e" for c
  proof -
    from that obtain n where "c = b64_std ! n" "n < 64"
      using b64_codes_less [of s] by (auto simp: b64_encode_codes list_all_iff)
    then show ?thesis using b64_std_plain by (auto simp: list_all_length)
  qed
  have vals: "Option.bind (b64_values b64_std ?e) b64_groups = Some s"
    by (simp add: b64_encode_codes b64_values_map b64_codes_less)
  have drop: "drop_newlines (std_encode s) = ?e @ replicate ?k CHR ''=''"
    using plain by (auto simp: std_encode_def Let_def drop_newlines_def filter_id_conv)
  have len: "length ?e mod 4 \<noteq> 1" using length_b64_codes [of s] by (simp add: b64_encode_codes)
  then have "length ?e mod 4 = 0 \<or> length ?e mod 4 = 2 \<or> length ?e mod 4 = 3" by presburger
  then have k: "?k \<in> {0, 1, 2}" "(length ?e + ?k) mod 4 = 0" using pad4 [of "length ?e"] by auto
  have "CHR ''='' \<notin> set ?e" using plain by blast
  then have noeq: "\<not> suffix ''='' ?e" "\<not> suffix ''=='' ?e" "\<not> suffix ''=='' (?e @ ''='')"
    by (auto simp: suffix_def append_eq_append_conv2 Cons_eq_append_conv)
  consider "?k = 0" | "?k = 1" | "?k = 2" using k(1) by auto
  then show ?thesis
  proof cases
    case 1
    then show ?thesis using drop k noeq vals by (simp add: std_decode_def Let_def)
  next
    case 2
    then show ?thesis using drop k noeq(3) vals by (simp add: std_decode_def Let_def suffix_def)
  next
    case 3
    then show ?thesis using drop k vals by (simp add: std_decode_def Let_def suffix_def numeral_2_eq_2)
  qed
qed

section \<open>Query escaping\<close>

definition upper_hex_char :: "nat \<Rightarrow> char" where
  "upper_hex_char d = (if d < 10 then char_of (48 + d) else char_of (55 + d))"

definition query_escape :: "string \<Rightarrow> string" where
  "query_escape s = concat (map (\<lambda>c. if url_safe c then [c]
      else if c = CHR '' '' then [CHR ''+'']
      else [CHR ''%'', upper_hex_char (ord c div 16), upper_hex_char (ord c mod 16)]) s)"

lemma query_escape_safe: "list_all url_safe s \<Longrightarrow> query_escape s = s"
  by (induction s) (auto simp: query_escape_def)

end
