(* ===== verification/GuestStore.thy ===== *)
theory GuestStore
  imports GoCodec
begin

text \<open>
  \<open>gueststore.go\<close>: the persistent guest records.  The in-memory slice is \<open>guests\<close>, the
  JSON file is \<open>disk\<close> (its decoded content, \<open>None\<close> while it does not exist); every
  operation is one atomic step because it runs under the store's mutex.  What the
  environment decides is an argument: the clock readings, the bytes of the random source
  (\<open>None\<close> when \<open>rand.Read\<close> fails), whether writing and renaming the file succeeds, and
  the digest function \<open>h\<close> (SHA-256).  The file also states the contract the HTTP layers
  rely on, as the locale \<open>guest_access\<close>, and interprets it on these operations.
\<close>

section \<open>Data\<close>

definition zero_time :: instant where
  "zero_time = - 62135596800 * second"   \<comment> \<open>Go's \<open>time.Time{}\<close>, 1 January of year 1\<close>

definition enrollCodeTTL :: duration where
  "enrollCodeTTL = 10 * minute"

datatype guest_error = ErrGuestNotFound | ErrEnrollInvalid | ErrEnrollExpired | ErrRandom | ErrSave

record guest =
  ID :: string
  Label :: string
  Created :: instant
  LastSeen :: instant
  Enrolled :: bool
  Revoked :: bool
  Demo :: bool

record guestRecord = guest +
  TokenHash :: string
  CodeHash :: string
  CodeExpiry :: instant

record guest_store =
  guests :: "guestRecord list"
  disk :: "guestRecord list option"

abbreviation public_view :: "guestRecord \<Rightarrow> guest" where
  "public_view r \<equiv> guest.truncate r"

section \<open>Secrets\<close>

definition hashSecret :: "(string \<Rightarrow> string) \<Rightarrow> string \<Rightarrow> string" where
  "hashSecret h secret = hex_encode (h secret)"

definition hashEqual :: "(string \<Rightarrow> string) \<Rightarrow> string \<Rightarrow> string \<Rightarrow> bool" where
  "hashEqual h storedHash secret \<longleftrightarrow> storedHash = hashSecret h secret"

definition byte_bits :: "char \<Rightarrow> bool list" where
  "byte_bits c = map (\<lambda>i. bit (ord c) i) [7, 6, 5, 4, 3, 2, 1, 0]"

fun chunks5 :: "bool list \<Rightarrow> bool list list" where
  "chunks5 (a # b # c # d # e # r) = [a, b, c, d, e] # chunks5 r"
| "chunks5 [] = []"
| "chunks5 bs = [bs @ replicate (5 - length bs) False]"

definition bits_value :: "bool list \<Rightarrow> nat" where
  "bits_value bs = foldl (\<lambda>v b. 2 * v + of_bool b) 0 bs"

definition base32_encode :: "string \<Rightarrow> string" where
  "base32_encode s = map (\<lambda>bs. ''ABCDEFGHIJKLMNOPQRSTUVWXYZ234567'' ! bits_value bs)
     (chunks5 (concat (map byte_bits s)))"

definition enroll_code_of :: "string \<Rightarrow> string" where
  "enroll_code_of bs = take 10 (base32_encode bs)"

section \<open>Operations\<close>

datatype file_read = FileMissing | FileError | FileBad | FileOk "guestRecord list"

fun OpenGuestStore :: "file_read \<Rightarrow> guest_store option" where
  "OpenGuestStore FileMissing = Some \<lparr>guests = [], disk = None\<rparr>"
| "OpenGuestStore FileError = None"
| "OpenGuestStore FileBad = None"
| "OpenGuestStore (FileOk rs) = Some \<lparr>guests = rs, disk = Some rs\<rparr>"

definition save :: "bool \<Rightarrow> guest_store \<Rightarrow> bool \<times> guest_store" where
  "save ok s = (if ok then (True, s\<lparr>disk := Some (guests s)\<rparr>) else (False, s))"

definition findRec :: "(guestRecord \<Rightarrow> bool) \<Rightarrow> guest_store \<Rightarrow> guestRecord option" where
  "findRec match s = List.find match (guests s)"

definition Create ::
  "(string \<Rightarrow> string) \<Rightarrow> instant \<Rightarrow> string option \<Rightarrow> string option \<Rightarrow> bool \<Rightarrow> string
     \<Rightarrow> guest_store \<Rightarrow> (guest_error + guest \<times> string) \<times> guest_store" where
  "Create h now rid rcode ok label s =
    (case rid of None \<Rightarrow> (Inl ErrRandom, s)
     | Some i \<Rightarrow> (case rcode of None \<Rightarrow> (Inl ErrRandom, s)
     | Some bs \<Rightarrow>
        let code = enroll_code_of bs;
            r = \<lparr>ID = hex_encode i, Label = label, Created = now, LastSeen = zero_time,
                 Enrolled = False, Revoked = False, Demo = False,
                 TokenHash = [], CodeHash = hashSecret h code, CodeExpiry = now + enrollCodeTTL\<rparr>;
            (saved, s') = save ok (s\<lparr>guests := guests s @ [r]\<rparr>)
        in if saved then (Inr (public_view r, code), s')
           else (Inl ErrSave, s'\<lparr>guests := butlast (guests s')\<rparr>)))"

definition Listing :: "guest_store \<Rightarrow> guest list" where
  "Listing s = map public_view (guests s)"

definition Revoke :: "bool \<Rightarrow> string \<Rightarrow> guest_store \<Rightarrow> guest_error option \<times> guest_store" where
  "Revoke ok i s =
    (case findRec (\<lambda>r. ID r = i) s of
       None \<Rightarrow> (Some ErrGuestNotFound, s)
     | Some _ \<Rightarrow>
        let s1 = s\<lparr>guests := update_first (\<lambda>r. ID r = i) (\<lambda>r. r\<lparr>Revoked := True\<rparr>) (guests s)\<rparr>;
            (saved, s2) = save ok s1
        in (if saved then None else Some ErrSave, s2))"

definition code_matches :: "(string \<Rightarrow> string) \<Rightarrow> string \<Rightarrow> guestRecord \<Rightarrow> bool" where
  "code_matches h code r \<longleftrightarrow> CodeHash r \<noteq> [] \<and> hashEqual h (CodeHash r) code"

definition token_matches :: "(string \<Rightarrow> string) \<Rightarrow> string \<Rightarrow> guestRecord \<Rightarrow> bool" where
  "token_matches h token r \<longleftrightarrow> TokenHash r \<noteq> [] \<and> hashEqual h (TokenHash r) token"

definition enrolled_record :: "(string \<Rightarrow> string) \<Rightarrow> string \<Rightarrow> instant \<Rightarrow> guestRecord \<Rightarrow> guestRecord" where
  "enrolled_record h token now r =
     r\<lparr>TokenHash := hashSecret h token, CodeHash := [], CodeExpiry := zero_time,
       Enrolled := True, LastSeen := now\<rparr>"

definition Enroll ::
  "(string \<Rightarrow> string) \<Rightarrow> instant \<Rightarrow> instant \<Rightarrow> string option \<Rightarrow> bool \<Rightarrow> string
     \<Rightarrow> guest_store \<Rightarrow> (guest_error + string \<times> guest) \<times> guest_store" where
  "Enroll h now1 now2 rtok ok code s =
    (case findRec (code_matches h code) s of
       None \<Rightarrow> (Inl ErrEnrollInvalid, s)
     | Some r \<Rightarrow>
        if Revoked r then (Inl ErrEnrollInvalid, s)
        else if now1 > CodeExpiry r then (Inl ErrEnrollExpired, s)
        else (case rtok of None \<Rightarrow> (Inl ErrRandom, s)
         | Some bs \<Rightarrow>
            let token = raw_url_encode bs;
                s1 = s\<lparr>guests := update_first (code_matches h code)
                                  (enrolled_record h token now2) (guests s)\<rparr>;
                (saved, s2) = save ok s1
            in (if saved then Inr (token, public_view (enrolled_record h token now2 r))
                else Inl ErrSave, s2)))"

definition EnrollDemo ::
  "(string \<Rightarrow> string) \<Rightarrow> instant \<Rightarrow> string option \<Rightarrow> string option \<Rightarrow> bool \<Rightarrow> string
     \<Rightarrow> guest_store \<Rightarrow> (guest_error + string \<times> guest) \<times> guest_store" where
  "EnrollDemo h now rid rtok ok label s =
    (case rid of None \<Rightarrow> (Inl ErrRandom, s)
     | Some i \<Rightarrow> (case rtok of None \<Rightarrow> (Inl ErrRandom, s)
     | Some bs \<Rightarrow>
        let token = raw_url_encode bs;
            r = \<lparr>ID = hex_encode i, Label = label, Created = now, LastSeen = now,
                 Enrolled = True, Revoked = False, Demo = True,
                 TokenHash = hashSecret h token, CodeHash = [], CodeExpiry = zero_time\<rparr>;
            (saved, s') = save ok (s\<lparr>guests := guests s @ [r]\<rparr>)
        in if saved then (Inr (token, public_view r), s')
           else (Inl ErrSave, s'\<lparr>guests := butlast (guests s')\<rparr>)))"

definition Authenticate ::
  "(string \<Rightarrow> string) \<Rightarrow> instant \<Rightarrow> bool \<Rightarrow> string \<Rightarrow> guest_store \<Rightarrow> guest option \<times> guest_store" where
  "Authenticate h now ok token s =
    (case findRec (token_matches h token) s of
       None \<Rightarrow> (None, s)
     | Some r \<Rightarrow>
        if Revoked r then (None, s)
        else (let s1 = s\<lparr>guests := update_first (token_matches h token)
                                     (\<lambda>r. r\<lparr>LastSeen := now\<rparr>) (guests s)\<rparr>
              in (Some (public_view (r\<lparr>LastSeen := now\<rparr>)), snd (save ok s1))))"

lemmas guest_ops = Create_def Revoke_def Enroll_def EnrollDemo_def Authenticate_def
  save_def findRec_def

section \<open>Who may enter\<close>

text \<open>
  The abstract state of the store: which bearer tokens are honoured, and for whom.  A
  token is honoured when the first record with its hash is not revoked.
\<close>

type_synonym holder = "string \<times> string \<times> bool"   \<comment> \<open>id, label, demo\<close>

definition holder_of :: "guest \<Rightarrow> holder" where
  "holder_of g = (ID g, Label g, Demo g)"

definition granted :: "(string \<Rightarrow> string) \<Rightarrow> guestRecord list \<Rightarrow> string \<Rightarrow> holder option" where
  "granted h rs token = (case List.find (token_matches h token) rs of
      None \<Rightarrow> None
    | Some r \<Rightarrow> if Revoked r then None else Some (ID r, Label r, Demo r))"

definition access :: "(string \<Rightarrow> string) \<Rightarrow> guest_store \<Rightarrow> string \<Rightarrow> holder option" where
  "access h s token = granted h (guests s) token"

text \<open>SHA-256 digests are 32 bytes long; all the store needs is that they are not empty.\<close>

definition digest_ok :: "(string \<Rightarrow> string) \<Rightarrow> bool" where
  "digest_ok h \<longleftrightarrow> (\<forall>x. h x \<noteq> [])"

lemma hashSecret_nonempty: "digest_ok h \<Longrightarrow> hashSecret h x \<noteq> []"
  by (simp add: digest_ok_def hashSecret_def)

section \<open>Well-formed stores\<close>

definition wf_record :: "guestRecord \<Rightarrow> bool" where
  "wf_record r \<longleftrightarrow> (Enrolled r \<longleftrightarrow> TokenHash r \<noteq> []) \<and> (CodeHash r \<noteq> [] \<longleftrightarrow> \<not> Enrolled r)
     \<and> (Demo r \<longrightarrow> Enrolled r)"

definition wf_list :: "guestRecord list \<Rightarrow> bool" where
  "wf_list rs \<longleftrightarrow> list_all wf_record rs \<and> distinct (map ID rs)
     \<and> distinct (filter (\<lambda>x. x \<noteq> []) (map TokenHash rs))
     \<and> distinct (filter (\<lambda>x. x \<noteq> []) (map CodeHash rs))"

definition wf_store :: "guest_store \<Rightarrow> bool" where
  "wf_store s \<longleftrightarrow> wf_list (guests s) \<and> (\<forall>rs. disk s = Some rs \<longrightarrow> wf_list rs)"

lemma public_view_sel [simp]:
  "ID (public_view r) = ID r" "Label (public_view r) = Label r" "Demo (public_view r) = Demo r"
  "Enrolled (public_view r) = Enrolled r" "Revoked (public_view r) = Revoked r"
  "LastSeen (public_view r) = LastSeen r" "Created (public_view r) = Created r"
  by (simp_all add: guest.truncate_def)

lemma holder_of_view [simp]: "holder_of (public_view r) = (ID r, Label r, Demo r)"
  by (simp add: holder_of_def)

lemma token_matches_simps [simp]:
  "token_matches h t (r\<lparr>LastSeen := x\<rparr>) = token_matches h t r"
  "token_matches h t (r\<lparr>Revoked := b\<rparr>) = token_matches h t r"
  by (simp_all add: token_matches_def)

lemma code_matches_simps [simp]:
  "code_matches h t (r\<lparr>LastSeen := x\<rparr>) = code_matches h t r"
  "code_matches h t (r\<lparr>Revoked := b\<rparr>) = code_matches h t r"
  "\<not> code_matches h t (enrolled_record h tok now r)"
  by (simp_all add: code_matches_def enrolled_record_def)

lemma wf_record_simps [simp]:
  "wf_record (r\<lparr>LastSeen := x\<rparr>) = wf_record r"
  "wf_record (r\<lparr>Revoked := b\<rparr>) = wf_record r"
  by (simp_all add: wf_record_def)

lemma wf_record_enrolled: "digest_ok h \<Longrightarrow> wf_record (enrolled_record h tok now r)"
  by (simp add: wf_record_def enrolled_record_def hashSecret_nonempty)

lemma granted_find:
  "granted h rs t = Option.bind (map_option (\<lambda>r. (Revoked r, ID r, Label r, Demo r))
      (List.find (token_matches h t) rs)) (\<lambda>(b, v). if b then None else Some v)"
  by (simp add: granted_def split: option.split)

lemma granted_append_no_match:
  "\<not> token_matches h t r \<Longrightarrow> granted h (rs @ [r]) t = granted h rs t"
  by (induction rs) (simp_all add: granted_def)

lemma granted_append_match:
  assumes "token_matches h t r" "\<forall>q \<in> set rs. \<not> token_matches h t q"
  shows "granted h (rs @ [r]) t = (if Revoked r then None else Some (ID r, Label r, Demo r))"
proof -
  have "List.find (token_matches h t) (rs @ [r]) = Some r"
    using assms by (induction rs) auto
  then show ?thesis by (simp add: granted_def)
qed

section \<open>The operations on the abstract state\<close>

lemma access_Authenticate [simp]:
  "access h (snd (Authenticate h now ok tok s)) t = access h s t"
proof -
  have "granted h (update_first (token_matches h tok) (\<lambda>r. r\<lparr>LastSeen := now\<rparr>) rs) t = granted h rs t"
    for rs
    by (simp add: granted_find find_update_first_view)
  then show ?thesis
    by (simp add: Authenticate_def findRec_def access_def save_def Let_def split: option.split)
qed

lemma Authenticate_access:
  "map_option holder_of (fst (Authenticate h now ok tok s)) = access h s tok"
  by (simp add: Authenticate_def findRec_def access_def granted_def Let_def split: option.split)

lemma Authenticate_None: "fst (Authenticate h now ok tok s) = None \<longleftrightarrow> access h s tok = None"
  by (metis Authenticate_access option.map_disc_iff)

lemma granted_revoke:
  assumes "distinct (map ID rs)"
  shows "granted h (update_first (\<lambda>r. ID r = i) (\<lambda>r. r\<lparr>Revoked := True\<rparr>) rs) t
    = (case granted h rs t of Some (j, v) \<Rightarrow> if j = i then None else Some (j, v) | None \<Rightarrow> None)"
  unfolding granted_def
  by (subst find_update_first_key [where k = ID, OF _ assms]) (simp_all split: option.split)

lemma access_Revoke:
  assumes "wf_store s"
  shows "access h (snd (Revoke ok i s)) t
    = (case access h s t of Some (j, v) \<Rightarrow> if j = i then None else Some (j, v) | None \<Rightarrow> None)"
proof (cases "findRec (\<lambda>r. ID r = i) s")
  case None
  then have "\<forall>r \<in> set (guests s). ID r \<noteq> i" by (simp add: findRec_def find_None_iff2)
  then have "\<not> (\<exists>v. access h s t = Some (i, v))"
    by (auto simp: access_def granted_def dest: find_SomeD split: option.splits if_splits)
  with None show ?thesis by (auto simp: Revoke_def split: option.splits)
next
  case (Some r)
  with assms show ?thesis
    by (simp add: Revoke_def Let_def save_def access_def granted_revoke wf_store_def wf_list_def
        split: prod.splits)
qed

lemma access_Create [simp]: "access h (snd (Create h now rid rc ok lab s)) t = access h s t"
  by (simp add: Create_def Let_def save_def access_def granted_append_no_match token_matches_def
      split: option.split prod.split)

lemma granted_enroll:
  assumes pend: "List.find (code_matches h code) rs = Some r" and wf: "\<forall>r \<in> set rs. wf_record r"
    and h: "digest_ok h" and rv: "\<not> Revoked r"
    and fresh: "\<forall>q \<in> set rs. TokenHash q \<noteq> hashSecret h tok"
  shows "granted h (update_first (code_matches h code) (enrolled_record h tok now) rs) t
    = (if hashSecret h t = hashSecret h tok then Some (ID r, Label r, Demo r) else granted h rs t)"
proof -
  from update_first_split [OF pend] obtain us vs where
    split: "rs = us @ r # vs"
      "update_first (code_matches h code) (enrolled_record h tok now) rs
         = us @ enrolled_record h tok now r # vs" by blast
  from split(1) pend wf have "wf_record r" "code_matches h code r" by (auto dest: find_SomeD)
  then have notok: "\<not> token_matches h t r"
    by (auto simp: wf_record_def token_matches_def code_matches_def)
  have m: "token_matches h t (enrolled_record h tok now r) \<longleftrightarrow> hashSecret h t = hashSecret h tok"
    by (auto simp: token_matches_def enrolled_record_def hashEqual_def hashSecret_nonempty h)
  show ?thesis
  proof (cases "hashSecret h t = hashSecret h tok")
    case True
    with fresh split(1) have "List.find (token_matches h t) us = None"
      by (auto simp: find_None_iff2 token_matches_def hashEqual_def)
    with True m rv show ?thesis
      unfolding split(2) by (simp add: granted_def find_append enrolled_record_def)
  next
    case False
    with m notok show ?thesis
      unfolding split(2) by (auto simp: granted_def find_append split(1) split: option.split)
  qed
qed

lemma access_Enroll:
  assumes pend: "List.find (code_matches h code) (guests s) = Some r" and wf: "wf_store s" and h: "digest_ok h"
    and fresh: "\<forall>q \<in> set (guests s). TokenHash q \<noteq> hashSecret h (raw_url_encode bs)"
    and live: "\<not> Revoked r" "now1 \<le> CodeExpiry r"
  shows "access h (snd (Enroll h now1 now2 (Some bs) ok code s)) t
    = (if hashSecret h t = hashSecret h (raw_url_encode bs)
       then Some (ID r, Label r, Demo r) else access h s t)"
proof -
  have "\<forall>r \<in> set (guests s). wf_record r" using wf by (simp add: wf_store_def wf_list_def list_all_iff)
  from granted_enroll [OF pend this h live(1) fresh, of now2 t] show ?thesis
    using live by (simp add: Enroll_def findRec_def pend Let_def save_def access_def split: prod.split)
qed

lemma access_Enroll_error:
  "fst (Enroll h n1 n2 rtok ok code s) = Inl e \<Longrightarrow> e \<noteq> ErrSave
     \<Longrightarrow> snd (Enroll h n1 n2 rtok ok code s) = s"
  by (auto simp: Enroll_def Let_def split: option.splits if_splits prod.splits)

lemma access_EnrollDemo:
  assumes h: "digest_ok h" and ok: "EnrollDemo h now rid rtok sv lab s = (Inr (tok, g), s')"
    and fresh: "\<forall>q \<in> set (guests s). TokenHash q \<noteq> hashSecret h tok"
  shows "access h s' t = (if hashSecret h t = hashSecret h tok then Some (holder_of g) else access h s t)"
proof -
  from ok obtain i bs where e: "rid = Some i" "rtok = Some bs" "tok = raw_url_encode bs" sv
    by (auto simp: EnrollDemo_def Let_def save_def split: option.splits if_splits)
  let ?r = "\<lparr>ID = hex_encode i, Label = lab, Created = now, LastSeen = now,
                 Enrolled = True, Revoked = False, Demo = True,
                 TokenHash = hashSecret h tok, CodeHash = [], CodeExpiry = zero_time\<rparr>"
  have s': "guests s' = guests s @ [?r]" "g = public_view ?r"
    using ok e by (auto simp: EnrollDemo_def Let_def save_def)
  have m: "token_matches h t ?r \<longleftrightarrow> hashSecret h t = hashSecret h tok"
    by (auto simp: token_matches_def hashEqual_def hashSecret_nonempty h)
  show ?thesis
  proof (cases "hashSecret h t = hashSecret h tok")
    case True
    with fresh have "\<forall>q \<in> set (guests s). \<not> token_matches h t q"
      by (auto simp: token_matches_def hashEqual_def)
    from granted_append_match [OF _ this, of ?r] True m show ?thesis
      by (simp add: access_def s')
  next
    case False
    with m granted_append_no_match show ?thesis by (simp add: access_def s')
  qed
qed

section \<open>Runs of the store\<close>

text \<open>
  One event per operation with everything its environment decides, and the restart of
  the process, which reads the records back from the file.
\<close>

datatype guest_op =
    OpCreate instant "string option" "string option" bool string
  | OpRevoke bool string
  | OpEnroll instant instant "string option" bool string
  | OpEnrollDemo instant "string option" "string option" bool string
  | OpAuthenticate instant bool string
  | OpRestart

definition restart :: "guest_store \<Rightarrow> guest_store" where
  "restart s = (case disk s of
      None \<Rightarrow> the (OpenGuestStore FileMissing)
    | Some rs \<Rightarrow> the (OpenGuestStore (FileOk rs)))"

fun guest_step :: "(string \<Rightarrow> string) \<Rightarrow> guest_op \<Rightarrow> guest_store \<Rightarrow> guest_store" where
  "guest_step h (OpCreate now rid rc ok lab) s = snd (Create h now rid rc ok lab s)"
| "guest_step h (OpRevoke ok i) s = snd (Revoke ok i s)"
| "guest_step h (OpEnroll n1 n2 rt ok code) s = snd (Enroll h n1 n2 rt ok code s)"
| "guest_step h (OpEnrollDemo now rid rt ok lab) s = snd (EnrollDemo h now rid rt ok lab s)"
| "guest_step h (OpAuthenticate now ok tok) s = snd (Authenticate h now ok tok s)"
| "guest_step h OpRestart s = restart s"

fun guest_run :: "(string \<Rightarrow> string) \<Rightarrow> guest_op list \<Rightarrow> guest_store \<Rightarrow> guest_store" where
  "guest_run h [] s = s"
| "guest_run h (e # es) s = guest_run h es (guest_step h e s)"

text \<open>The hashes of the tokens and of the one-time codes an event can bring into being.\<close>

fun minted_tokens :: "(string \<Rightarrow> string) \<Rightarrow> guest_op \<Rightarrow> string set" where
  "minted_tokens h (OpEnroll _ _ (Some bs) _ _) = {hashSecret h (raw_url_encode bs)}"
| "minted_tokens h (OpEnrollDemo _ _ (Some bs) _ _) = {hashSecret h (raw_url_encode bs)}"
| "minted_tokens h _ = {}"

fun minted_codes :: "(string \<Rightarrow> string) \<Rightarrow> guest_op \<Rightarrow> string set" where
  "minted_codes h (OpCreate _ _ (Some bs) _ _) = {hashSecret h (enroll_code_of bs)}"
| "minted_codes h _ = {}"

text \<open>The record a \<open>Create\<close> or an \<open>EnrollDemo\<close> adds.\<close>

fun new_records :: "(string \<Rightarrow> string) \<Rightarrow> guest_op \<Rightarrow> guestRecord set" where
  "new_records h (OpCreate now (Some i) (Some bs) _ lab) =
     {\<lparr>ID = hex_encode i, Label = lab, Created = now, LastSeen = zero_time,
       Enrolled = False, Revoked = False, Demo = False, TokenHash = [],
       CodeHash = hashSecret h (enroll_code_of bs), CodeExpiry = now + enrollCodeTTL\<rparr>}"
| "new_records h (OpEnrollDemo now (Some i) (Some bs) _ lab) =
     {\<lparr>ID = hex_encode i, Label = lab, Created = now, LastSeen = now,
       Enrolled = True, Revoked = False, Demo = True,
       TokenHash = hashSecret h (raw_url_encode bs), CodeHash = [], CodeExpiry = zero_time\<rparr>}"
| "new_records h _ = {}"

text \<open>A property of record lists that memory and file share.\<close>

definition everywhere :: "(guestRecord list \<Rightarrow> bool) \<Rightarrow> guest_store \<Rightarrow> bool" where
  "everywhere P s \<longleftrightarrow> P (guests s) \<and> (\<forall>rs. disk s = Some rs \<longrightarrow> P rs)"

lemma everywhere_save:
  "everywhere P s \<Longrightarrow> P rs \<Longrightarrow> everywhere P (snd (save ok (s\<lparr>guests := rs\<rparr>)))"
  by (simp add: everywhere_def save_def)

text \<open>
  A property that survives an operation's rewriting of the list survives the operation,
  whether or not the file could be written.
\<close>

lemma everywhere_step:
  assumes P: "everywhere P s" and nil: "P []"
    and add: "\<And>r. P (guests s) \<Longrightarrow> r \<in> new_records h e \<Longrightarrow> P (guests s @ [r])"
    and revoke: "\<And>i. P (guests s) \<Longrightarrow> P (update_first (\<lambda>r. ID r = i) (\<lambda>r. r\<lparr>Revoked := True\<rparr>) (guests s))"
    and touch: "\<And>t x. P (guests s)
       \<Longrightarrow> P (update_first (token_matches h t) (\<lambda>r. r\<lparr>LastSeen := x\<rparr>) (guests s))"
    and enrl: "\<And>c t x. P (guests s) \<Longrightarrow> hashSecret h t \<in> minted_tokens h e
       \<Longrightarrow> P (update_first (code_matches h c) (enrolled_record h t x) (guests s))"
  shows "everywhere P (guest_step h e s)"
proof (cases e)
  case (OpCreate now rid rc ok lab)
  show ?thesis
  proof (cases "rid = None \<or> rc = None \<or> \<not> ok")
    case True
    with OpCreate P show ?thesis
      by (auto simp: Create_def Let_def save_def everywhere_def split: option.split)
  next
    case False
    then obtain i bs where "rid = Some i" "rc = Some bs" ok by auto
    with OpCreate P add show ?thesis
      by (auto simp: Create_def Let_def save_def everywhere_def)
  qed
next
  case (OpRevoke ok i)
  with P revoke show ?thesis
    by (auto simp: Revoke_def Let_def save_def everywhere_def split: option.split)
next
  case (OpEnroll n1 n2 rt ok code)
  with P enrl show ?thesis
    by (auto simp: Enroll_def Let_def save_def everywhere_def split: option.split)
next
  case (OpEnrollDemo now rid rt ok lab)
  show ?thesis
  proof (cases "rid = None \<or> rt = None \<or> \<not> ok")
    case True
    with OpEnrollDemo P show ?thesis
      by (auto simp: EnrollDemo_def Let_def save_def everywhere_def split: option.split)
  next
    case False
    then obtain i bs where "rid = Some i" "rt = Some bs" ok by auto
    with OpEnrollDemo P add show ?thesis
      by (auto simp: EnrollDemo_def Let_def save_def everywhere_def)
  qed
next
  case (OpAuthenticate now ok tok)
  with P touch show ?thesis
    by (auto simp: Authenticate_def Let_def save_def everywhere_def split: option.split)
next
  case OpRestart
  with P nil show ?thesis by (auto simp: restart_def everywhere_def split: option.split)
qed

lemma everywhere_run:
  assumes "everywhere P s" and "\<And>e s. e \<in> set es \<Longrightarrow> everywhere P s \<Longrightarrow> everywhere P (guest_step h e s)"
  shows "everywhere P (guest_run h es s)"
  using assms by (induction es arbitrary: s) auto

section \<open>Revocation\<close>

text \<open>
  A token is limited to a set of holders when each record is sane and the token stands for
  nobody else; limited to the empty set, it is shut out.
\<close>

definition limited ::
  "holder set \<Rightarrow> (string \<Rightarrow> string) \<Rightarrow> string \<Rightarrow> guestRecord list \<Rightarrow> bool" where
  "limited V h tok rs \<longleftrightarrow> list_all wf_record rs \<and> set_option (granted h rs tok) \<subseteq> V"

abbreviation shut_out :: "(string \<Rightarrow> string) \<Rightarrow> string \<Rightarrow> guestRecord list \<Rightarrow> bool" where
  "shut_out \<equiv> limited {}"

lemma wf_record_new: "digest_ok h \<Longrightarrow> r \<in> new_records h e \<Longrightarrow> wf_record r"
  by (induction h e rule: new_records.induct) (auto simp: wf_record_def hashSecret_nonempty)

lemma list_all_update_first:
  "list_all P xs \<Longrightarrow> (\<And>x. x \<in> set xs \<Longrightarrow> P x \<Longrightarrow> P (f x)) \<Longrightarrow> list_all P (update_first q f xs)"
  by (induction xs) auto

lemma limited_revoke:
  assumes "limited V h tok rs"
  shows "limited V h tok (update_first (\<lambda>r. ID r = i) (\<lambda>r. r\<lparr>Revoked := True\<rparr>) rs)"
proof -
  have "set_option (granted h (update_first p (\<lambda>r. r\<lparr>Revoked := True\<rparr>) rs) tok)
      \<subseteq> set_option (granted h rs tok)"
    for p :: "guestRecord \<Rightarrow> bool" and rs
    by (induction rs) (auto simp: granted_def split: if_splits)
  moreover have "list_all wf_record (update_first (\<lambda>r. ID r = i) (\<lambda>r. r\<lparr>Revoked := True\<rparr>) rs)"
    using assms by (auto simp: limited_def intro: list_all_update_first)
  ultimately show ?thesis using assms unfolding limited_def by blast
qed

lemma limited_touch:
  "limited V h tok rs
     \<Longrightarrow> limited V h tok (update_first (token_matches h t) (\<lambda>r. r\<lparr>LastSeen := x\<rparr>) rs)"
  by (auto simp: limited_def granted_find find_update_first_view intro: list_all_update_first)

lemma limited_enroll:
  assumes "limited V h tok rs" "digest_ok h" "hashSecret h t \<noteq> hashSecret h tok"
  shows "limited V h tok (update_first (code_matches h c) (enrolled_record h t x) rs)"
proof -
  have keep: "granted h (update_first (code_matches h c) (enrolled_record h t x) rs) tok = granted h rs tok"
    if "list_all wf_record rs" for rs
    using that assms(3)
  proof (induction rs)
    case (Cons r rs)
    have "\<not> token_matches h tok r" if "code_matches h c r"
      using that Cons.prems(1) by (auto simp: wf_record_def token_matches_def code_matches_def)
    moreover have "\<not> token_matches h tok (enrolled_record h t x r)"
      using assms(3) by (simp add: token_matches_def enrolled_record_def hashEqual_def)
    ultimately show ?case using Cons by (auto simp: granted_def)
  qed (simp add: granted_def)
  with assms show ?thesis
    by (auto simp: limited_def wf_record_enrolled intro: list_all_update_first)
qed

lemma limited_add:
  assumes "limited V h tok rs" "digest_ok h" "r \<in> new_records h e" "hashSecret h tok \<notin> minted_tokens h e"
  shows "limited V h tok (rs @ [r])"
proof -
  have "\<not> token_matches h tok r"
    using assms(3,4)
    by (induction h e rule: new_records.induct) (auto simp: token_matches_def hashEqual_def)
  with assms show ?thesis
    by (auto simp: limited_def granted_append_no_match wf_record_new)
qed

lemma limited_run:
  assumes "everywhere (limited V h tok) s" "digest_ok h"
    "\<forall>e \<in> set es. hashSecret h tok \<notin> minted_tokens h e"
  shows "everywhere (limited V h tok) (guest_run h es s)"
proof (rule everywhere_run [OF assms(1)])
  fix e s assume e: "e \<in> set es" and s: "everywhere (limited V h tok) s"
  show "everywhere (limited V h tok) (guest_step h e s)"
  proof (rule everywhere_step [OF s])
    show "limited V h tok []" by (simp add: limited_def granted_def)
  next
    fix r assume "limited V h tok (guests s)" "r \<in> new_records h e"
    with e assms show "limited V h tok (guests s @ [r])" by (blast intro: limited_add)
  next
    fix c t x assume "limited V h tok (guests s)" "hashSecret h t \<in> minted_tokens h e"
    with e assms show "limited V h tok (update_first (code_matches h c) (enrolled_record h t x) (guests s))"
      by (metis limited_enroll)
  qed (simp_all add: limited_revoke limited_touch)
qed

section \<open>One-time codes\<close>

definition spent :: "(string \<Rightarrow> string) \<Rightarrow> string \<Rightarrow> guestRecord list \<Rightarrow> bool" where
  "spent h code rs \<longleftrightarrow> (\<forall>r \<in> set rs. \<not> code_matches h code r)"

lemma spent_Nil [simp]: "spent h code []"
  by (simp add: spent_def)

lemma spent_update_first:
  "spent h code rs \<Longrightarrow> (\<And>r. code_matches h code (f r) \<Longrightarrow> code_matches h code r)
     \<Longrightarrow> spent h code (update_first q f rs)"
  unfolding spent_def by (blast elim: in_update_firstE)

lemma spent_run:
  assumes "everywhere (spent h code) s" "\<forall>e \<in> set es. hashSecret h code \<notin> minted_codes h e"
  shows "everywhere (spent h code) (guest_run h es s)"
proof (rule everywhere_run [OF assms(1)])
  fix e s assume e: "e \<in> set es" and s: "everywhere (spent h code) s"
  show "everywhere (spent h code) (guest_step h e s)"
  proof (rule everywhere_step [OF s])
    fix r assume "spent h code (guests s)" and r: "r \<in> new_records h e"
    moreover have "\<not> code_matches h code r"
      using r bspec [OF assms(2) e]
      by (induction h e rule: new_records.induct) (auto simp: code_matches_def hashEqual_def)
    ultimately show "spent h code (guests s @ [r])" by (auto simp: spent_def)
  qed (simp, (rule spent_update_first, assumption, simp)+)
qed

lemma Enroll_SomeE:
  assumes "Enroll h n1 n2 rt ok code s = (Inr (tok, g), s')"
  obtains r bs where "List.find (code_matches h code) (guests s) = Some r" "\<not> Revoked r"
    "n1 \<le> CodeExpiry r" "rt = Some bs" "tok = raw_url_encode bs" ok
    "g = public_view (enrolled_record h tok n2 r)"
    "guests s' = update_first (code_matches h code) (enrolled_record h tok n2) (guests s)"
    "disk s' = Some (guests s')"
proof -
  obtain r where r: "List.find (code_matches h code) (guests s) = Some r" "\<not> Revoked r" "n1 \<le> CodeExpiry r"
    using assms by (cases "List.find (code_matches h code) (guests s)")
      (simp_all add: Enroll_def findRec_def not_less split: if_splits)
  moreover obtain bs where "rt = Some bs"
    using assms r by (cases rt) (simp_all add: Enroll_def findRec_def)
  moreover have ok
    using assms calculation by (cases ok) (simp_all add: Enroll_def findRec_def save_def Let_def)
  ultimately show ?thesis
    using assms by (intro that [of r bs]) (auto simp: Enroll_def findRec_def save_def Let_def)
qed

lemma distinct_filter_split:
  assumes "distinct (filter q (map k (us @ r # vs)))" "q (k r)" "x \<in> set us \<union> set vs"
  shows "k x \<noteq> k r"
proof
  assume "k x = k r"
  with assms(2,3) have "k r \<in> set (filter q (map k us)) \<union> set (filter q (map k vs))"
    by (auto intro: rev_image_eqI)
  with assms(1,2) show False by auto
qed

lemma spent_after_Enroll:
  assumes "wf_list rs" "List.find (code_matches h code) rs = Some r"
  shows "spent h code (update_first (code_matches h code) (enrolled_record h tok now) rs)"
proof -
  from update_first_split [OF assms(2)] obtain us vs where
    split: "rs = us @ r # vs" "code_matches h code r"
      "update_first (code_matches h code) (enrolled_record h tok now) rs
         = us @ enrolled_record h tok now r # vs" by blast
  have "\<not> code_matches h code x" if "x \<in> set us \<union> set vs" for x
  proof -
    have "CodeHash x \<noteq> CodeHash r"
      using assms(1) split(2) that
      by (intro distinct_filter_split [where q = "\<lambda>x. x \<noteq> []" and us = us and vs = vs])
        (auto simp: split(1) wf_list_def code_matches_def)
    with split(2) show ?thesis by (auto simp: code_matches_def hashEqual_def)
  qed
  then show ?thesis by (auto simp: spent_def split(3))
qed

lemma Enroll_spent:
  assumes "spent h code (guests s)"
  shows "fst (Enroll h n1 n2 rt ok code s) = Inl ErrEnrollInvalid"
proof -
  have "List.find (code_matches h code) (guests s) = None"
    using assms by (simp add: spent_def find_None_iff2)
  then show ?thesis by (simp add: Enroll_def findRec_def)
qed

section \<open>Preservation of well-formedness\<close>

text \<open>
  The randomness hypothesis: what an operation draws does not repeat an identifier or a
  digest already in memory.
\<close>

definition fresh_op :: "(string \<Rightarrow> string) \<Rightarrow> guest_op \<Rightarrow> guestRecord list \<Rightarrow> bool" where
  "fresh_op h e rs \<longleftrightarrow>
     (\<forall>r \<in> new_records h e. ID r \<notin> ID ` set rs \<and> CodeHash r \<notin> CodeHash ` set rs - {[]}
        \<and> TokenHash r \<notin> TokenHash ` set rs - {[]})
     \<and> (\<forall>t \<in> minted_tokens h e. t \<notin> TokenHash ` set rs)"

lemma distinct_filter_map_same:
  "(\<And>x. k (f x) = k x) \<Longrightarrow> map k (update_first q f rs) = map k rs"
  by (rule map_update_first)

lemma wf_list_same_keys:
  assumes "wf_list rs" "\<And>x. ID (f x) = ID x" "\<And>x. TokenHash (f x) = TokenHash x"
    "\<And>x. CodeHash (f x) = CodeHash x" "\<And>x. wf_record (f x) = wf_record x"
  shows "wf_list (update_first q f rs)"
  using assms by (auto simp: wf_list_def map_update_first intro: list_all_update_first)

lemma wf_list_add:
  assumes "wf_list rs" "digest_ok h" "fresh_op h e rs" "r \<in> new_records h e"
  shows "wf_list (rs @ [r])"
  using assms wf_record_new [OF assms(2,4)] by (auto simp: wf_list_def fresh_op_def)

lemma wf_list_enroll:
  assumes wf: "wf_list rs" and h: "digest_ok h" and fresh: "hashSecret h t \<notin> TokenHash ` set rs"
  shows "wf_list (update_first (code_matches h c) (enrolled_record h t x) rs)"
proof (cases "List.find (code_matches h c) rs")
  case None
  with wf show ?thesis by (simp add: update_first_no_match)
next
  case (Some r)
  from update_first_split [OF Some] obtain us vs where
    split: "rs = us @ r # vs" "code_matches h c r"
      "update_first (code_matches h c) (enrolled_record h t x) rs = us @ enrolled_record h t x r # vs"
    by blast
  let ?r = "enrolled_record h t x r"
  have sel: "ID ?r = ID r" "TokenHash ?r = hashSecret h t" "CodeHash ?r = []"
    by (simp_all add: enrolled_record_def)
  have rec: "wf_record r" and nocode: "CodeHash r \<noteq> []"
    using wf split(1,2) by (simp_all add: wf_list_def code_matches_def)
  then have notok: "TokenHash r = []" by (auto simp: wf_record_def)
  have "list_all wf_record (us @ ?r # vs)"
    using wf split(1) wf_record_enrolled [OF h] by (simp add: wf_list_def)
  moreover have "distinct (map ID (us @ ?r # vs))"
    using wf split(1) sel(1) by (simp add: wf_list_def)
  moreover have "distinct (filter (\<lambda>x. x \<noteq> []) (map TokenHash (us @ ?r # vs)))"
    using wf split(1) sel(2) notok fresh hashSecret_nonempty [OF h, of t]
    by (simp add: wf_list_def) (simp add: split(1) image_iff)
  moreover have "distinct (filter (\<lambda>x. x \<noteq> []) (map CodeHash (us @ ?r # vs)))"
    using wf split(1) sel(3) nocode by (simp add: wf_list_def)
  ultimately show ?thesis unfolding split(3) by (simp only: wf_list_def)
qed

lemma wf_store_everywhere: "wf_store s \<longleftrightarrow> everywhere wf_list s"
  by (simp add: wf_store_def everywhere_def)

lemma wf_list_Nil [simp]: "wf_list []"
  by (simp add: wf_list_def)

lemma wf_store_step:
  assumes "wf_store s" "digest_ok h" "fresh_op h e (guests s)"
  shows "wf_store (guest_step h e s)"
  unfolding wf_store_everywhere
proof (rule everywhere_step)
  show "everywhere wf_list s" using assms(1) by (simp add: wf_store_everywhere)
  show "wf_list (update_first (code_matches h c) (enrolled_record h t x) (guests s))"
    if "wf_list (guests s)" "hashSecret h t \<in> minted_tokens h e" for c t x
    using that assms by (auto simp: fresh_op_def intro: wf_list_enroll)
  show "wf_list (guests s @ [r])" if "wf_list (guests s)" "r \<in> new_records h e" for r
    using that assms by (blast intro: wf_list_add)
qed (simp_all add: wf_list_same_keys)

lemma wf_store_Authenticate: "wf_store s \<Longrightarrow> wf_store (snd (Authenticate h now ok t s))"
  by (auto simp: Authenticate_def findRec_def Let_def save_def wf_store_def wf_list_same_keys
      split: option.split)

lemma wf_store_Revoke: "wf_store s \<Longrightarrow> wf_store (snd (Revoke ok i s))"
  by (auto simp: Revoke_def findRec_def Let_def save_def wf_store_def wf_list_same_keys
      split: option.split)

section \<open>The contract the HTTP layers rely on\<close>

text \<open>
  What \<open>GuestAPI\<close> and \<open>StreamAPI\<close> use of the store: \<open>access\<close> is the abstract state (who a
  bearer token stands for), \<open>authenticate\<close> reads it and \<open>revoke\<close> shrinks it.
\<close>

locale guest_access =
  fixes wf :: "'s \<Rightarrow> bool"
    and acc :: "'s \<Rightarrow> string \<Rightarrow> holder option"
    and authenticate :: "instant \<Rightarrow> bool \<Rightarrow> string \<Rightarrow> 's \<Rightarrow> guest option \<times> 's"
    and revoke :: "bool \<Rightarrow> string \<Rightarrow> 's \<Rightarrow> guest_error option \<times> 's"
  assumes authenticate_reads: "map_option holder_of (fst (authenticate now ok t s)) = acc s t"
    and authenticate_keeps: "acc (snd (authenticate now ok t s)) u = acc s u"
    and authenticate_wf: "wf s \<Longrightarrow> wf (snd (authenticate now ok t s))"
    and revoke_shrinks: "wf s \<Longrightarrow> acc (snd (revoke ok i s)) t
      = (case acc s t of Some (j, v) \<Rightarrow> if j = i then None else Some (j, v) | None \<Rightarrow> None)"
    and revoke_wf: "wf s \<Longrightarrow> wf (snd (revoke ok i s))"
begin

lemma authenticate_None: "fst (authenticate now ok t s) = None \<longleftrightarrow> acc s t = None"
  by (metis authenticate_reads option.map_disc_iff)

lemma authenticate_Some:
  "fst (authenticate now ok t s) = Some g \<Longrightarrow> acc s t = Some (ID g, Label g, Demo g)"
  using authenticate_reads [of now ok t s] by (simp add: holder_of_def)

lemma repeatable:
  assumes "fst (authenticate now ok t s) = Some g"
  shows "\<exists>g'. fst (authenticate now' ok' t (snd (authenticate now ok u s))) = Some g'
     \<and> holder_of g' = holder_of g"
proof -
  have "map_option holder_of (fst (authenticate now' ok' t (snd (authenticate now ok u s))))
      = Some (holder_of g)"
    by (simp add: authenticate_reads authenticate_keeps) (metis assms authenticate_reads option.simps(9))
  then show ?thesis by auto
qed

lemma self_revoke_denies:
  assumes "wf s" "fst (authenticate now ok t s) = Some g"
  shows "acc (snd (revoke ok' (ID g) (snd (authenticate now ok t s)))) t = None"
  using authenticate_Some [OF assms(2)]
  by (simp add: revoke_shrinks authenticate_wf authenticate_keeps assms)

lemma revoke_spares_others:
  "wf s \<Longrightarrow> acc s t = Some (j, v) \<Longrightarrow> j \<noteq> i \<Longrightarrow> acc (snd (revoke ok i s)) t = Some (j, v)"
  by (simp add: revoke_shrinks)

lemma revoke_grants_nothing: "wf s \<Longrightarrow> acc s t = None \<Longrightarrow> acc (snd (revoke ok i s)) t = None"
  by (simp add: revoke_shrinks)

end

interpretation gs: guest_access wf_store "access h" "Authenticate h" Revoke for h
  by unfold_locales
    (simp_all add: Authenticate_access wf_store_Authenticate access_Revoke wf_store_Revoke)

section \<open>Properties\<close>

text \<open>
  C4: Once a guest is revoked and the revocation is saved, the guest's token is refused for ever:
  after any later sequence of store operations and restarts, provided none of them mints a token of
  the same hash.
\<close>

theorem revocation_permanent:
  assumes "wf_store s" "digest_ok h" "access h s tok = Some (i, l, d)"
    and "Revoke ok i s = (None, s1)"
    and "\<forall>e \<in> set es. hashSecret h tok \<notin> minted_tokens h e"
  shows "fst (Authenticate h now sv tok (guest_run h es s1)) = None"
proof -
  have "access h s1 tok = None"
    using gs.revoke_shrinks [OF assms(1), of h ok i tok] assms(3,4) by simp
  moreover have "wf_store s1" using gs.revoke_wf [OF assms(1), of ok i] assms(4) by simp
  moreover have "disk s1 = Some (guests s1)"
    using assms(4) by (auto simp: Revoke_def save_def Let_def split: option.splits if_splits)
  ultimately have "everywhere (shut_out h tok) s1"
    by (simp add: everywhere_def limited_def access_def wf_store_def wf_list_def)
  from limited_run [OF this assms(2,5)] show ?thesis
    by (simp add: gs.authenticate_None access_def everywhere_def limited_def)
qed

text \<open>
  C7: An enrolment code that was consumed answers ErrEnrollInvalid ever after, through any later
  operations and restarts that do not mint the same code again.
\<close>

theorem enroll_code_single_use:
  assumes "wf_store s" "Enroll h n1 n2 rt ok code s = (Inr (tok, g), s1)"
    and "\<forall>e \<in> set es. hashSecret h code \<notin> minted_codes h e"
  shows "fst (Enroll h n3 n4 rt' ok' code (guest_run h es s1)) = Inl ErrEnrollInvalid"
proof -
  from assms(2) obtain r where "List.find (code_matches h code) (guests s) = Some r"
    "guests s1 = update_first (code_matches h code) (enrolled_record h tok n2) (guests s)"
    "disk s1 = Some (guests s1)" by (rule Enroll_SomeE)
  with assms(1) have "everywhere (spent h code) s1"
    by (simp add: everywhere_def wf_store_def spent_after_Enroll)
  from spent_run [OF this assms(3)] show ?thesis
    by (intro Enroll_spent) (simp add: everywhere_def)
qed

lemma enroll_grants_exactly_one_token:
  assumes "wf_store s" "digest_ok h" "Enroll h n1 n2 rt ok code s = (Inr (tok, g), s1)"
    and "\<forall>q \<in> set (guests s). TokenHash q \<noteq> hashSecret h tok"
  shows "access h s1 t = (if hashSecret h t = hashSecret h tok then Some (holder_of g) else access h s t)
    \<and> fst (Authenticate h now sv tok s1) \<noteq> None \<and> Enrolled g \<and> disk s1 = Some (guests s1)"
proof -
  from assms(3) obtain r bs where e: "List.find (code_matches h code) (guests s) = Some r" "\<not> Revoked r"
    "n1 \<le> CodeExpiry r" "rt = Some bs" "tok = raw_url_encode bs"
    "g = public_view (enrolled_record h tok n2 r)" "disk s1 = Some (guests s1)"
    by (rule Enroll_SomeE)
  have "access h s1 t = (if hashSecret h t = hashSecret h tok then Some (holder_of g) else access h s t)"
    for t
    using access_Enroll [OF e(1) assms(1,2) _ e(2,3), of bs n2 ok t] assms(3,4) e(4-6)
    by (simp add: enrolled_record_def)
  with e show ?thesis by (simp add: gs.authenticate_None enrolled_record_def)
qed


section \<open>Witnesses\<close>

definition demo_hash :: "string \<Rightarrow> string" where
  "demo_hash s = CHR ''#'' # s"

definition ann :: guestRecord where
  "ann = \<lparr>ID = ''01'', Label = ''Ann'', Created = 0, LastSeen = 0, Enrolled = True, Revoked = False,
     Demo = False, TokenHash = hashSecret demo_hash ''tok-ann'', CodeHash = [], CodeExpiry = zero_time\<rparr>"

definition bob :: guestRecord where
  "bob = \<lparr>ID = ''02'', Label = ''Bob'', Created = 0, LastSeen = zero_time, Enrolled = False,
     Revoked = False, Demo = False, TokenHash = [], CodeHash = hashSecret demo_hash ''CODEBOB'',
     CodeExpiry = enrollCodeTTL\<rparr>"

definition two_guests :: guest_store where
  "two_guests = \<lparr>guests = [ann, bob], disk = Some [ann, bob]\<rparr>"

lemma demo_hash_ok: "digest_ok demo_hash"
  by (simp add: digest_ok_def demo_hash_def)

lemma hashSecret_demo [simp]: "hashSecret demo_hash a = hashSecret demo_hash b \<longleftrightarrow> a = b"
  by (auto simp: hashSecret_def demo_hash_def dest: hex_encode_inj)

lemma hashSecret_demo_nonempty [simp]: "hashSecret demo_hash a \<noteq> []" "[] \<noteq> hashSecret demo_hash a"
  using hashSecret_nonempty [OF demo_hash_ok, of a] by auto

lemma two_guests_wf: "wf_store two_guests"
  by (simp add: wf_store_def wf_list_def two_guests_def wf_record_def ann_def bob_def)

lemma two_guests_sel [simp]:
  "guests two_guests = [ann, bob]" "disk two_guests = Some [ann, bob]"
  by (simp_all add: two_guests_def)

theorem revocation_permanent_witness:
  "fst (Authenticate demo_hash 5 True ''tok-ann''
     (guest_run demo_hash [OpRestart, OpAuthenticate 1 True ''tok-ann'']
        (snd (Revoke True ''01'' two_guests)))) = None"
proof (rule revocation_permanent [OF two_guests_wf demo_hash_ok])
  show "access demo_hash two_guests ''tok-ann'' = Some (''01'', ''Ann'', False)"
    by (simp add: access_def granted_def token_matches_def hashEqual_def ann_def)
  show "Revoke True ''01'' two_guests = (None, snd (Revoke True ''01'' two_guests))"
    by (simp add: Revoke_def findRec_def save_def ann_def)
qed simp

lemma enroll_bob:
  "Enroll demo_hash 1 2 (Some ''seed'') True ''CODEBOB'' two_guests
    = (Inr (raw_url_encode ''seed'', public_view (enrolled_record demo_hash (raw_url_encode ''seed'') 2 bob)),
       snd (Enroll demo_hash 1 2 (Some ''seed'') True ''CODEBOB'' two_guests))"
  by (simp add: Enroll_def findRec_def code_matches_def hashEqual_def save_def ann_def bob_def
      enrollCodeTTL_def Let_def)

theorem enroll_code_single_use_witness:
  "fst (Enroll demo_hash 3 4 (Some ''more'') True ''CODEBOB''
     (guest_run demo_hash [OpRestart]
       (snd (Enroll demo_hash 1 2 (Some ''seed'') True ''CODEBOB'' two_guests)))) = Inl ErrEnrollInvalid"
  by (rule enroll_code_single_use [OF two_guests_wf enroll_bob]) simp

lemma enroll_grants_exactly_one_token_witness:
  "access demo_hash (snd (Enroll demo_hash 1 2 (Some ''seed'') True ''CODEBOB'' two_guests)) ''tok-ann''
     = Some (''01'', ''Ann'', False)"
proof -
  have tok: "raw_url_encode ''seed'' = ''c2VlZA''"
    by (simp add: raw_url_encode_def b64_url_def)
  then have fresh: "\<forall>q \<in> set (guests two_guests). TokenHash q \<noteq> hashSecret demo_hash (raw_url_encode ''seed'')"
    by (simp add: ann_def bob_def)
  have "access demo_hash two_guests ''tok-ann'' = Some (''01'', ''Ann'', False)"
    by (simp add: access_def granted_def token_matches_def hashEqual_def ann_def)
  then show ?thesis
    using enroll_grants_exactly_one_token
      [OF two_guests_wf demo_hash_ok enroll_bob fresh, of "''tok-ann''", THEN conjunct1]
    by (simp add: tok)
qed


end
