(* ===== verification/AuditStore.thy ===== *)
theory AuditStore
  imports GoLib "HOL-Library.Product_Lexorder"
begin

text \<open>
  \<open>auditstore.go\<close>: the audit log.  The SQLite table is its list of rows in insertion
  order with the next \<open>AUTOINCREMENT\<close> id; a \<open>None\<close> store is Go's nil receiver, on which
  every method is a no-op.  Each statement of the source is the list operation its SQL
  text describes; whether the database executes it is an argument.
\<close>

definition auditRetention :: duration where
  "auditRetention = 60 * 24 * hour"

definition auditDefaultList :: int where
  "auditDefaultList = 200"

record auditEvent =
  Time :: instant
  GuestID :: string
  GuestLabel :: string
  Action :: string
  Outcome :: string
  SourceIP :: string
  SourceDevice :: string

record auditFilter =
  f_guest :: string
  f_action :: string
  f_limit :: int

record audit_row =
  row_id :: nat
  row_ts :: int
  row_event :: auditEvent   \<comment> \<open>the text columns; the time column is \<open>row_ts\<close>\<close>

record audit_db =
  rows :: "audit_row list"
  next_id :: nat

type_synonym audit_store = "audit_db option"

definition Log :: "bool \<Rightarrow> auditEvent \<Rightarrow> audit_store \<Rightarrow> bool \<times> audit_store" where
  "Log ok e s = (case s of
      None \<Rightarrow> (True, None)
    | Some db \<Rightarrow>
        if ok then (True, Some \<lparr>rows = rows db @ [\<lparr>row_id = next_id db, row_ts = unix (Time e), row_event = e\<rparr>],
                              next_id = Suc (next_id db)\<rparr>)
        else (False, Some db))"

definition row_matches :: "auditFilter \<Rightarrow> audit_row \<Rightarrow> bool" where
  "row_matches f r \<longleftrightarrow> (f_guest f = [] \<or> GuestID (row_event r) = f_guest f)
     \<and> (f_action f = [] \<or> Action (row_event r) = f_action f)"

definition row_key :: "audit_row \<Rightarrow> int \<times> nat" where
  "row_key r = (row_ts r, row_id r)"

definition scan_row :: "audit_row \<Rightarrow> auditEvent" where
  "scan_row r = (row_event r)\<lparr>Time := of_unix (row_ts r)\<rparr>"

definition list_limit :: "auditFilter \<Rightarrow> int" where
  "list_limit f = (if f_limit f \<le> 0 \<or> f_limit f > auditDefaultList then auditDefaultList else f_limit f)"

definition selected_rows :: "auditFilter \<Rightarrow> audit_db \<Rightarrow> audit_row list" where
  "selected_rows f db =
     take (nat (list_limit f)) (rev (sort_key row_key (filter (row_matches f) (rows db))))"

definition AuditList :: "bool \<Rightarrow> auditFilter \<Rightarrow> audit_store \<Rightarrow> auditEvent list option" where
  "AuditList ok f s = (case s of
      None \<Rightarrow> Some []
    | Some db \<Rightarrow> if ok then Some (map scan_row (selected_rows f db)) else None)"

definition Prune :: "bool \<Rightarrow> instant \<Rightarrow> audit_store \<Rightarrow> int option \<times> audit_store" where
  "Prune ok before s = (case s of
      None \<Rightarrow> (Some 0, None)
    | Some db \<Rightarrow>
        if ok then (let kept = filter (\<lambda>r. \<not> row_ts r < unix before) (rows db)
                    in (Some (int (length (rows db) - length kept)), Some (db\<lparr>rows := kept\<rparr>)))
        else (None, Some db))"

text \<open>\<open>OpenAuditStore\<close> after the schema is in place: prune, and give up when that fails.\<close>

definition OpenAuditStore :: "string \<Rightarrow> bool \<Rightarrow> bool \<Rightarrow> instant \<Rightarrow> audit_db \<Rightarrow> audit_store" where
  "OpenAuditStore path opened pruned now db =
    (if path = [] then None
     else if \<not> opened then None
     else (case Prune pruned (now - auditRetention) (Some db) of
        (None, _) \<Rightarrow> None
      | (Some _, s) \<Rightarrow> s))"

section \<open>Well-formed tables\<close>

text \<open>Row ids are the insertion counter: increasing along the list and below the next one.\<close>

definition wf_audit :: "audit_db \<Rightarrow> bool" where
  "wf_audit db \<longleftrightarrow> sorted_wrt (<) (map row_id (rows db)) \<and> (\<forall>r \<in> set (rows db). row_id r < next_id db)"

lemma wf_audit_Log: "wf_audit db \<Longrightarrow> Log ok e (Some db) = (b, Some db') \<Longrightarrow> wf_audit db'"
  by (auto simp: Log_def wf_audit_def sorted_wrt_append less_Suc_eq split: if_splits)

lemma sorted_wrt_map_filter: "sorted_wrt R (map k xs) \<Longrightarrow> sorted_wrt R (map k (filter p xs))"
  by (induction xs) auto

lemma wf_audit_Prune: "wf_audit db \<Longrightarrow> Prune ok t (Some db) = (n, Some db') \<Longrightarrow> wf_audit db'"
  by (auto simp: Prune_def wf_audit_def Let_def sorted_wrt_map_filter split: if_splits)

lemma selected_rows_matching: "r \<in> set (selected_rows f db) \<Longrightarrow> r \<in> set (rows db) \<and> row_matches f r"
  by (auto simp: selected_rows_def dest: in_set_takeD)

lemma list_limit_bounds: "0 < list_limit f \<and> list_limit f \<le> 200"
  by (auto simp: list_limit_def auditDefaultList_def)

lemma sorted_selected_rows: "sorted (rev (map row_key (selected_rows f db)))"
proof -
  have "sorted (map row_key (sort_key row_key xs))" for xs by simp
  then have "sorted (rev (map row_key (rev (sort_key row_key xs))))" for xs by (simp add: rev_map)
  then show ?thesis unfolding selected_rows_def
    by (metis rev_map sorted_wrt_rev sorted_wrt_take take_map)
qed

text \<open>What the \<open>LIMIT\<close> leaves out is no newer than what it keeps.\<close>

lemma selected_rows_newest:
  assumes "r \<in> set (rows db)" "row_matches f r" "r \<notin> set (selected_rows f db)" "q \<in> set (selected_rows f db)"
  shows "row_key r \<le> row_key q"
proof -
  let ?xs = "rev (sort_key row_key (filter (row_matches f) (rows db)))" and ?n = "nat (list_limit f)"
  have "r \<in> set ?xs" using assms(1,2) by simp
  then have r: "r \<in> set (drop ?n ?xs)" using assms(3) unfolding selected_rows_def
    by (metis UnE append_take_drop_id set_append)
  have "sorted_wrt (\<lambda>a b. row_key b \<le> row_key a) ?xs"
    by (simp add: sorted_wrt_rev) (metis sorted_sort_key sorted_wrt_map)
  then have "sorted_wrt (\<lambda>a b. row_key b \<le> row_key a) (take ?n ?xs @ drop ?n ?xs)" by simp
  with r assms(4) show ?thesis
    unfolding selected_rows_def sorted_wrt_append by blast
qed

lemma length_selected_rows:
  "length (selected_rows f db) = min (nat (list_limit f)) (length (filter (row_matches f) (rows db)))"
  by (simp add: selected_rows_def)

section \<open>Properties\<close>

lemma audit_list_newest_first:
  assumes "AuditList True f (Some db) = Some evs"
  shows "evs = map scan_row (selected_rows f db)
    \<and> sorted (rev (map row_key (selected_rows f db)))
    \<and> length evs \<le> 200
    \<and> (\<forall>r \<in> set (rows db). row_matches f r \<longrightarrow>
         r \<in> set (selected_rows f db) \<or> (\<forall>q \<in> set (selected_rows f db). row_key r \<le> row_key q))
    \<and> length (selected_rows f db) = min (nat (list_limit f)) (length (filter (row_matches f) (rows db)))"
proof -
  have "nat (list_limit f) \<le> 200" using list_limit_bounds [of f] by linarith
  then show ?thesis
    using assms sorted_selected_rows selected_rows_newest length_selected_rows
    by (auto simp: AuditList_def)
qed

lemma audit_prune_window:
  assumes "Prune True before (Some db) = (Some n, Some db')"
  shows "(\<forall>r. r \<in> set (rows db') \<longleftrightarrow> r \<in> set (rows db) \<and> unix before \<le> row_ts r)
    \<and> n = int (length (filter (\<lambda>r. row_ts r < unix before) (rows db)))
    \<and> (wf_audit db \<longrightarrow> wf_audit db')"
proof -
  have "length (filter (\<lambda>r. \<not> row_ts r < unix before) (rows db))
      + length (filter (\<lambda>r. row_ts r < unix before) (rows db)) = length (rows db)"
    by (simp add: sum_length_filter_compl add.commute)
  with assms wf_audit_Prune [OF _ assms] show ?thesis
    by (auto simp: Prune_def Let_def)
qed

definition sample_event :: auditEvent where
  "sample_event = \<lparr>Time = 5 * second, GuestID = ''01'', GuestLabel = ''Ann'', Action = ''gate'',
     Outcome = ''success'', SourceIP = ''10.0.0.1'', SourceDevice = ''app''\<rparr>"

definition sample_db :: audit_db where
  "sample_db = \<lparr>rows = [\<lparr>row_id = 1, row_ts = 5, row_event = sample_event\<rparr>,
     \<lparr>row_id = 2, row_ts = 9, row_event = sample_event\<rparr>], next_id = 3\<rparr>"

lemma audit_list_newest_first_witness:
  "selected_rows \<lparr>f_guest = [], f_action = [], f_limit = 1\<rparr> sample_db
     = [\<lparr>row_id = 2, row_ts = 9, row_event = sample_event\<rparr>]
   \<and> length (map scan_row (selected_rows \<lparr>f_guest = [], f_action = [], f_limit = 1\<rparr> sample_db)) \<le> 200"
proof
  show "selected_rows \<lparr>f_guest = [], f_action = [], f_limit = 1\<rparr> sample_db
     = [\<lparr>row_id = 2, row_ts = 9, row_event = sample_event\<rparr>]"
    by (simp add: selected_rows_def sample_db_def row_matches_def list_limit_def auditDefaultList_def row_key_def)
  show "length (map scan_row (selected_rows \<lparr>f_guest = [], f_action = [], f_limit = 1\<rparr> sample_db)) \<le> 200"
    using audit_list_newest_first [of "\<lparr>f_guest = [], f_action = [], f_limit = 1\<rparr>" sample_db]
    by (simp add: AuditList_def)
qed

lemma audit_prune_window_witness:
  "wf_audit (the (snd (Prune True (7 * second) (Some sample_db))))"
proof -
  have "Prune True (7 * second) (Some sample_db)
      = (Some 1, Some (sample_db\<lparr>rows := [\<lparr>row_id = 2, row_ts = 9, row_event = sample_event\<rparr>]\<rparr>))"
    by (simp add: Prune_def sample_db_def unix_def Let_def)
  moreover have "wf_audit sample_db" by (simp add: wf_audit_def sample_db_def)
  ultimately show ?thesis using audit_prune_window [of "7 * second" sample_db] by simp
qed

end
