(* ===== verification/GuestApi.thy ===== *)
theory GuestApi
  imports GuestStore AuditStore
begin

text \<open>
  \<open>guestapi.go\<close>, \<open>guestsource.go\<close>, \<open>guestadmin.go\<close> and \<open>guestwiring.go\<close>: the HTTP handlers
  over the guest store and the audit log.  A request is the record of the parts the code
  reads (an absent header is the empty string, as \<open>Header.Get\<close> returns it; the JSON body is
  its decoded field, \<open>None\<close> when decoding fails); a handler returns the response and the
  new store, log and door world.  The door actions are functions on an arbitrary world.
\<close>

section \<open>Requests and responses\<close>

record http_request =
  Method :: string
  Path :: string
  Authorization :: string
  XForwardedFor :: string
  RemoteAddr :: string
  UserAgent :: string
  Query :: "string \<Rightarrow> string"      \<comment> \<open>\<open>url.Values.Get\<close>: empty when absent\<close>
  JsonField :: "string option"

record guestView =
  v_id :: string
  v_label :: string
  v_created :: instant
  v_lastSeen :: instant
  v_enrolled :: bool
  v_revoked :: bool

datatype api_body =
    NoBody
  | Text string
  | EnrollBody (b_token: string) (b_label: string) (b_created: int) (b_demo: bool)
  | InviteBody (b_id: string) (b_invlabel: string) (b_code: string) (b_url: string) (b_qr: string)
  | GuestsBody "guestView list"
  | AuditBody "auditEvent list"
  | SessionBody (b_surl: string) (b_expires: int)

record http_response =
  Status :: nat
  Payload :: api_body

abbreviation respond :: "nat \<Rightarrow> api_body \<Rightarrow> http_response" where
  "respond c b \<equiv> \<lparr>Status = c, Payload = b\<rparr>"

text \<open>What the environment decides during one request.\<close>

record api_env =
  e_now :: instant          \<comment> \<open>clock at the store operation\<close>
  e_now2 :: instant         \<comment> \<open>its second reading\<close>
  e_saved :: bool           \<comment> \<open>the store's save succeeds\<close>
  e_revsaved :: bool        \<comment> \<open>the save of a following \<open>Revoke\<close>\<close>
  e_rand1 :: "string option"
  e_rand2 :: "string option"
  e_audit_now :: instant
  e_audit_ok :: bool
  e_qr :: "string option"   \<comment> \<open>the PNG of the QR library\<close>

record ('w) api_state =
  store :: guest_store
  audit :: audit_store
  world :: 'w

section \<open>Where a request came from\<close>

definition maxDeviceLen :: nat where
  "maxDeviceLen = 120"

definition clientSource :: "http_request \<Rightarrow> string \<times> string" where
  "clientSource r =
    (let ip = (if XForwardedFor r \<noteq> [] then trim_space (fst (cut CHR '','' (XForwardedFor r))) else []);
         ip = (if ip = [] then (case SplitHostPort (RemoteAddr r) of
                 None \<Rightarrow> RemoteAddr r | Some (host, _) \<Rightarrow> host) else ip);
         device = trim_space (UserAgent r)
     in (ip, if length device > maxDeviceLen then take maxDeviceLen device else device))"

section \<open>The guest handlers\<close>

definition event :: "string \<Rightarrow> string \<Rightarrow> string \<Rightarrow> string \<Rightarrow> auditEvent" where
  "event action outcome i l = \<lparr>Time = zero_time, GuestID = i, GuestLabel = l, Action = action,
     Outcome = outcome, SourceIP = [], SourceDevice = []\<rparr>"

definition stamp :: "api_env \<Rightarrow> http_request \<Rightarrow> auditEvent \<Rightarrow> auditEvent" where
  "stamp env r e = (let (ip, dev) = clientSource r
     in e\<lparr>Time := e_audit_now env, SourceIP := ip, SourceDevice := dev\<rparr>)"

definition record_event :: "api_env \<Rightarrow> http_request \<Rightarrow> auditEvent \<Rightarrow> 'w api_state \<Rightarrow> 'w api_state" where
  "record_event env r e st = st\<lparr>audit := snd (Log (e_audit_ok env) (stamp env r e) (audit st))\<rparr>"

definition bearer :: "http_request \<Rightarrow> string \<times> bool" where
  "bearer r = cut_prefix ''Bearer '' (Authorization r)"

definition requireToken ::
  "(string \<Rightarrow> string) \<Rightarrow> string \<Rightarrow> ('w \<Rightarrow> bool \<times> 'w) \<Rightarrow> api_env \<Rightarrow> http_request
     \<Rightarrow> 'w api_state \<Rightarrow> http_response \<times> 'w api_state" where
  "requireToken h action open_door env r st =
    (let (token, hasBearer) = bearer r;
         (who, store') = Authenticate h (e_now env) (e_saved env) token (store st);
         st = st\<lparr>store := store'\<rparr>
     in case (hasBearer, who) of
          (True, Some g) \<Rightarrow>
            if Demo g then
              (respond 403 (Text ''demo pass cannot open doors''),
               record_event env r (event action ''denied'' (ID g) (Label g)) st)
            else (let (ok, w) = open_door (world st); st = st\<lparr>world := w\<rparr>
              in if \<not> ok then
                   (respond 502 (Text ''action failed''),
                    record_event env r (event action ''failed'' (ID g) (Label g)) st)
                 else (respond 204 NoBody,
                    record_event env r (event action ''success'' (ID g) (Label g)) st))
        | _ \<Rightarrow> (respond 401 (Text ''unauthorized''),
                record_event env r (event action ''denied'' [] ''unknown'') st))"

definition forget ::
  "(string \<Rightarrow> string) \<Rightarrow> api_env \<Rightarrow> http_request \<Rightarrow> 'w api_state \<Rightarrow> http_response \<times> 'w api_state" where
  "forget h env r st =
    (let (token, hasBearer) = bearer r;
         (who, store') = Authenticate h (e_now env) (e_saved env) token (store st);
         st = st\<lparr>store := store'\<rparr>
     in case (hasBearer, who) of
          (True, Some g) \<Rightarrow>
            (case Revoke (e_revsaved env) (ID g) (store st) of
               (Some _, s) \<Rightarrow> (respond 500 (Text ''internal error''),
                 record_event env r (event ''forget'' ''failed'' (ID g) (Label g)) (st\<lparr>store := s\<rparr>))
             | (None, s) \<Rightarrow> (respond 204 NoBody,
                 record_event env r (event ''forget'' ''success'' (ID g) (Label g)) (st\<lparr>store := s\<rparr>)))
        | _ \<Rightarrow> (respond 401 (Text ''unauthorized''),
                record_event env r (event ''forget'' ''denied'' [] ''unknown'') st))"

fun enroll_error_text :: "guest_error \<Rightarrow> string" where
  "enroll_error_text ErrEnrollInvalid = ''invalid enroll code''"
| "enroll_error_text ErrEnrollExpired = ''enroll code expired''"
| "enroll_error_text _ = ''internal error''"

definition demoGuestLabel :: string where
  "demoGuestLabel = ''App Review (demo)''"

definition enroll ::
  "(string \<Rightarrow> string) \<Rightarrow> string \<Rightarrow> api_env \<Rightarrow> http_request \<Rightarrow> 'w api_state
     \<Rightarrow> http_response \<times> 'w api_state" where
  "enroll h DemoCode env r st =
    (case JsonField r of
       None \<Rightarrow> (respond 400 (Text ''bad request''), st)
     | Some code \<Rightarrow>
        (let isDemo = (DemoCode \<noteq> [] \<and> code = DemoCode);
            (res, s) = (if isDemo
               then EnrollDemo h (e_now env) (e_rand1 env) (e_rand2 env) (e_saved env) demoGuestLabel (store st)
               else Enroll h (e_now env) (e_now2 env) (e_rand1 env) (e_saved env) code (store st));
            st = st\<lparr>store := s\<rparr>
        in case res of
             Inl e \<Rightarrow>
               (if e = ErrEnrollInvalid \<or> e = ErrEnrollExpired then
                 (respond 400 (Text (enroll_error_text e)),
                  record_event env r (event ''enroll'' ''denied'' [] []) st)
               else (respond 500 (Text ''internal error''), st))
           | Inr (token, g) \<Rightarrow>
               (respond 200 (EnrollBody token (Label g) (unix (Created g)) (Demo g)),
                record_event env r (event ''enroll'' ''success'' (ID g) (Label g)) st)))"

section \<open>The owner's handlers\<close>

definition view_of :: "guest \<Rightarrow> guestView" where
  "view_of g = \<lparr>v_id = ID g, v_label = Label g, v_created = Created g, v_lastSeen = LastSeen g,
     v_enrolled = Enrolled g, v_revoked = Revoked g\<rparr>"

definition inviteURL :: "string \<Rightarrow> string \<Rightarrow> string" where
  "inviteURL enrollURL code = enrollURL @ ''?code='' @ query_escape code"

definition qrDataURI :: "string option \<Rightarrow> string option" where
  "qrDataURI png = map_option (\<lambda>p. ''data:image/png;base64,'' @ std_encode p) png"

definition admin_create ::
  "(string \<Rightarrow> string) \<Rightarrow> (string \<Rightarrow> string option) \<Rightarrow> string \<Rightarrow> api_env \<Rightarrow> http_request
     \<Rightarrow> 'w api_state \<Rightarrow> http_response \<times> 'w api_state" where
  "admin_create h qr funnelBase env r st =
    (case JsonField r of
       None \<Rightarrow> (respond 400 (Text ''bad request''), st)
     | Some label \<Rightarrow>
        (case Create h (e_now env) (e_rand1 env) (e_rand2 env) (e_saved env) label (store st) of
           (Inl _, s) \<Rightarrow> (respond 500 (Text ''internal error''), st\<lparr>store := s\<rparr>)
         | (Inr (g, code), s) \<Rightarrow>
             let enrollURL = funnelBase @ ''/guest/enroll''
             in (case qrDataURI (qr (inviteURL enrollURL code)) of
                   None \<Rightarrow> (respond 500 (Text ''internal error''), st\<lparr>store := s\<rparr>)
                 | Some uri \<Rightarrow> (respond 200 (InviteBody (ID g) (Label g) code enrollURL uri),
                                st\<lparr>store := s\<rparr>))))"

definition admin_list :: "'w api_state \<Rightarrow> http_response \<times> 'w api_state" where
  "admin_list st = (respond 200 (GuestsBody (map view_of (Listing (store st)))), st)"

definition admin_revoke ::
  "api_env \<Rightarrow> string \<Rightarrow> 'w api_state \<Rightarrow> http_response \<times> 'w api_state" where
  "admin_revoke env i st =
    (case Revoke (e_saved env) i (store st) of
       (Some ErrGuestNotFound, s) \<Rightarrow> (respond 404 (Text ''guest not found''), st\<lparr>store := s\<rparr>)
     | (Some _, s) \<Rightarrow> (respond 500 (Text ''internal error''), st\<lparr>store := s\<rparr>)
     | (None, s) \<Rightarrow> (respond 204 NoBody, st\<lparr>store := s\<rparr>))"

definition listAudit :: "api_env \<Rightarrow> http_request \<Rightarrow> 'w api_state \<Rightarrow> http_response \<times> 'w api_state" where
  "listAudit env r st =
    (let limit = (case parse_int (Query r ''limit'') of None \<Rightarrow> 0 | Some n \<Rightarrow> n);
         flt = \<lparr>f_guest = Query r ''guest'', f_action = Query r ''action'', f_limit = limit\<rparr>
     in case AuditList (e_audit_ok env) flt (audit st) of
          None \<Rightarrow> (respond 500 (Text ''internal error''), st)
        | Some evs \<Rightarrow> (respond 200 (AuditBody evs), st))"


section \<open>Routing\<close>

text \<open>
  \<open>path.Clean\<close> on a rooted path and \<open>http.ServeMux\<close>: a path that is not in canonical form
  is redirected, an exact pattern is looked up, and a known path with another method is 405.
\<close>

fun clean_segs :: "string list \<Rightarrow> string list \<Rightarrow> string list" where
  "clean_segs acc [] = rev acc"
| "clean_segs acc (x # xs) =
     (if x = [] \<or> x = ''.'' then clean_segs acc xs
      else if x = ''..'' then clean_segs (drop 1 acc) xs
      else clean_segs (x # acc) xs)"

definition cleanPath :: "string \<Rightarrow> string" where
  "cleanPath p = (if p = [] then ''/'' else
     (let p = (if hd p \<noteq> CHR ''/'' then CHR ''/'' # p else p);
          np = CHR ''/'' # join ''/'' (clean_segs [] (split_on CHR ''/'' p))
      in if last p = CHR ''/'' \<and> np \<noteq> ''/'' then np @ ''/'' else np))"

definition canonical :: "http_request \<Rightarrow> bool" where
  "canonical r \<longleftrightarrow> Method r = ''CONNECT'' \<or> cleanPath (Path r) = Path r"

definition redirect_to :: "string \<Rightarrow> http_response" where
  "redirect_to p = respond 307 (Text p)"

datatype guest_route = REnroll | RGate | ROutdoor | RForget

definition guest_route_of :: "string \<Rightarrow> guest_route option" where
  "guest_route_of = map_of [(''/guest/enroll'', REnroll), (''/guest/gate/open'', RGate),
     (''/guest/outdoor/open'', ROutdoor), (''/guest/forget'', RForget)]"

definition guest_routes ::
  "(string \<Rightarrow> string) \<Rightarrow> string \<Rightarrow> ('w \<Rightarrow> bool \<times> 'w) \<Rightarrow> ('w \<Rightarrow> bool \<times> 'w) \<Rightarrow> api_env \<Rightarrow> http_request
     \<Rightarrow> 'w api_state \<Rightarrow> http_response \<times> 'w api_state" where
  "guest_routes h DemoCode openGate openOutdoor env r st =
    (if \<not> canonical r then (redirect_to (cleanPath (Path r)), st)
     else case guest_route_of (Path r) of
       None \<Rightarrow> (respond 404 (Text ''404 page not found''), st)
     | Some rt \<Rightarrow>
         if Method r \<noteq> ''POST'' then (respond 405 (Text ''Method Not Allowed''), st)
         else (case rt of
             REnroll \<Rightarrow> enroll h DemoCode env r st
           | RGate \<Rightarrow> requireToken h ''gate'' openGate env r st
           | ROutdoor \<Rightarrow> requireToken h ''outdoor'' openOutdoor env r st
           | RForget \<Rightarrow> forget h env r st))"

text \<open>\<open>buildSurfaces\<close>: the LAN surface is the base handler, only the tailnet one has \<open>/admin/\<close>.\<close>

definition buildSurfaces ::
  "(http_request \<Rightarrow> 'a) \<Rightarrow> (http_request \<Rightarrow> 'a) \<Rightarrow> (string \<Rightarrow> 'a)
     \<Rightarrow> (http_request \<Rightarrow> 'a) \<times> (http_request \<Rightarrow> 'a)" where
  "buildSurfaces base admin redirect =
    (base, \<lambda>r. if \<not> canonical r then redirect (cleanPath (Path r))
            else if prefix ''/admin/'' (Path r) then admin r
            else if Path r = ''/admin'' then redirect ''/admin/''
            else base r)"

text \<open>\<open>buildGuestFunnel\<close>: the guest routes, and the camera routes when streaming is configured.\<close>

definition buildGuestFunnel ::
  "(http_request \<Rightarrow> 'a) \<Rightarrow> (http_request \<Rightarrow> 'a) option \<Rightarrow> (string \<Rightarrow> 'a) \<Rightarrow> http_request \<Rightarrow> 'a" where
  "buildGuestFunnel guest stream redirect r =
    (if \<not> canonical r then redirect (cleanPath (Path r))
     else case stream of
       None \<Rightarrow> guest r
     | Some cam \<Rightarrow> if prefix ''/guest/cam/'' (Path r) then cam r
                  else if Path r = ''/guest/cam'' then redirect ''/guest/cam/''
                  else guest r)"

section \<open>The handlers against the contract of the store\<close>

text \<open>What a handler does to everything except the log: response, store and world.\<close>

definition effect :: "http_response \<times> 'w api_state \<Rightarrow> http_response \<times> guest_store \<times> 'w" where
  "effect x = (fst x, store (snd x), world (snd x))"

lemma record_event_sel [simp]:
  "store (record_event env r e st) = store st" "world (record_event env r e st) = world st"
  by (simp_all add: record_event_def)

definition live_bearer :: "(string \<Rightarrow> string) \<Rightarrow> guest_store \<Rightarrow> http_request \<Rightarrow> holder option" where
  "live_bearer h s r = (case bearer r of (t, b) \<Rightarrow> if b then access h s t else None)"

lemma bearer_of: "Authorization r = ''Bearer '' @ tok \<Longrightarrow> bearer r = (tok, True)"
  by (simp only: bearer_def cut_prefix_append)

lemma live_bearer_of: "Authorization r = ''Bearer '' @ tok \<Longrightarrow> live_bearer h s r = access h s tok"
  by (simp only: live_bearer_def bearer_of prod.case if_True)

lemma live_bearer_iff:
  "live_bearer h s r = Some v \<longleftrightarrow> (\<exists>t. Authorization r = ''Bearer '' @ t \<and> access h s t = Some v)"
  by (auto simp: live_bearer_def bearer_def cut_prefix_def prefix_def)

lemma requireToken_cases:
  "live_bearer h (store st) r = None \<Longrightarrow>
     effect (requireToken h act open_door env r st)
       = (respond 401 (Text ''unauthorized''),
          snd (Authenticate h (e_now env) (e_saved env) (fst (bearer r)) (store st)), world st)"
  "live_bearer h (store st) r = Some (i, l, True) \<Longrightarrow>
     effect (requireToken h act open_door env r st)
       = (respond 403 (Text ''demo pass cannot open doors''),
          snd (Authenticate h (e_now env) (e_saved env) (fst (bearer r)) (store st)), world st)"
  "live_bearer h (store st) r = Some (i, l, False) \<Longrightarrow>
     effect (requireToken h act open_door env r st)
       = ((if fst (open_door (world st)) then respond 204 NoBody else respond 502 (Text ''action failed'')),
          snd (Authenticate h (e_now env) (e_saved env) (fst (bearer r)) (store st)),
          snd (open_door (world st)))"
proof -
  obtain t b where tb: "bearer r = (t, b)" by fastforce
  obtain who s where auth: "Authenticate h (e_now env) (e_saved env) t (store st) = (who, s)" by fastforce
  have reads: "map_option holder_of who = access h (store st) t"
    using gs.authenticate_reads [of h "e_now env" "e_saved env" t "store st"] by (simp add: auth)
  note defs = requireToken_def live_bearer_def tb auth effect_def Let_def
  show "effect (requireToken h act open_door env r st)
       = (respond 401 (Text ''unauthorized''),
          snd (Authenticate h (e_now env) (e_saved env) (fst (bearer r)) (store st)), world st)"
    if "live_bearer h (store st) r = None"
    using that reads by (cases who; cases b) (simp_all add: defs)
  show "effect (requireToken h act open_door env r st)
       = (respond 403 (Text ''demo pass cannot open doors''),
          snd (Authenticate h (e_now env) (e_saved env) (fst (bearer r)) (store st)), world st)"
    if "live_bearer h (store st) r = Some (i, l, True)"
    using that reads by (cases who; cases b) (auto simp: defs holder_of_def)
  show "effect (requireToken h act open_door env r st)
       = ((if fst (open_door (world st)) then respond 204 NoBody else respond 502 (Text ''action failed'')),
          snd (Authenticate h (e_now env) (e_saved env) (fst (bearer r)) (store st)),
          snd (open_door (world st)))"
    if "live_bearer h (store st) r = Some (i, l, False)"
    using that reads by (cases who; cases b) (auto simp: defs holder_of_def split: prod.split)
qed

lemma forget_cases:
  "live_bearer h (store st) r = None \<Longrightarrow>
     effect (forget h env r st) = (respond 401 (Text ''unauthorized''),
       snd (Authenticate h (e_now env) (e_saved env) (fst (bearer r)) (store st)), world st)"
  "live_bearer h (store st) r = Some (i, l, d) \<Longrightarrow>
     effect (forget h env r st) =
       (case Revoke (e_revsaved env) i
              (snd (Authenticate h (e_now env) (e_saved env) (fst (bearer r)) (store st))) of
          (None, s) \<Rightarrow> (respond 204 NoBody, s, world st)
        | (Some _, s) \<Rightarrow> (respond 500 (Text ''internal error''), s, world st))"
proof -
  obtain t b where tb: "bearer r = (t, b)" by fastforce
  obtain who s where auth: "Authenticate h (e_now env) (e_saved env) t (store st) = (who, s)" by fastforce
  have reads: "map_option holder_of who = access h (store st) t"
    using gs.authenticate_reads [of h "e_now env" "e_saved env" t "store st"] by (simp add: auth)
  note defs = forget_def live_bearer_def tb auth effect_def Let_def
  show "effect (forget h env r st) = (respond 401 (Text ''unauthorized''),
       snd (Authenticate h (e_now env) (e_saved env) (fst (bearer r)) (store st)), world st)"
    if "live_bearer h (store st) r = None"
    using that reads by (cases who; cases b) (simp_all add: defs)
  show "effect (forget h env r st) =
       (case Revoke (e_revsaved env) i
              (snd (Authenticate h (e_now env) (e_saved env) (fst (bearer r)) (store st))) of
          (None, s) \<Rightarrow> (respond 204 NoBody, s, world st)
        | (Some _, s) \<Rightarrow> (respond 500 (Text ''internal error''), s, world st))"
    if "live_bearer h (store st) r = Some (i, l, d)"
    using that reads by (cases who; cases b) (auto simp: defs holder_of_def split: prod.split option.split)
qed


lemma requireToken_access:
  assumes "requireToken h act open_door env r st = (resp, st')"
  shows "access h (store st') t = access h (store st) t"
proof -
  have e: "effect (requireToken h act open_door env r st) = (resp, store st', world st')"
    by (simp add: assms effect_def)
  have "store st' = snd (Authenticate h (e_now env) (e_saved env) (fst (bearer r)) (store st))"
  proof (cases "live_bearer h (store st) r")
    case None
    with e show ?thesis by (simp add: requireToken_cases)
  next
    case (Some v)
    obtain i l d where v: "v = (i, l, d)" by (cases v)
    with Some e show ?thesis
      by (cases d) (simp_all add: requireToken_cases)
  qed
  then show ?thesis by (simp add: gs.authenticate_keeps)
qed

lemma enroll_world: "enroll h dc env r st = (resp, st') \<Longrightarrow> world st' = world st"
  by (auto simp: enroll_def Let_def record_event_def split: option.splits prod.splits sum.splits if_splits)

lemma forget_world: "forget h env r st = (resp, st') \<Longrightarrow> world st' = world st"
  by (auto simp: forget_def Let_def record_event_def split: option.splits prod.splits if_splits bool.splits)

section \<open>Properties\<close>

text \<open>The door a request is entitled to move.\<close>

definition entitled_door ::
  "(string \<Rightarrow> string) \<Rightarrow> ('w \<Rightarrow> bool \<times> 'w) \<Rightarrow> ('w \<Rightarrow> bool \<times> 'w) \<Rightarrow> http_request \<Rightarrow> guest_store
     \<Rightarrow> ('w \<Rightarrow> bool \<times> 'w) option" where
  "entitled_door h openGate openOutdoor r s =
    (if canonical r \<and> Method r = ''POST'' then
       (case live_bearer h s r of
          Some (i, l, False) \<Rightarrow>
            if Path r = ''/guest/gate/open'' then Some openGate
            else if Path r = ''/guest/outdoor/open'' then Some openOutdoor else None
        | _ \<Rightarrow> None)
     else None)"

lemma door_moves:
  assumes "guest_routes h DemoCode openGate openOutdoor env r st = (resp, st')"
  shows "case entitled_door h openGate openOutdoor r (store st) of
      None \<Rightarrow> world st' = world st
    | Some door \<Rightarrow> world st' = snd (door (world st))
        \<and> Status resp = (if fst (door (world st)) then 204 else 502)"
proof -
  have door: "case (case live_bearer h (store st) r of Some (i, l, False) \<Rightarrow> Some door | _ \<Rightarrow> None) of
      None \<Rightarrow> world st' = world st
    | Some door \<Rightarrow> world st' = snd (door (world st))
        \<and> Status resp = (if fst (door (world st)) then 204 else 502)"
    if "requireToken h act door env r st = (resp, st')" for act door
  proof -
    have e: "effect (requireToken h act door env r st) = (resp, store st', world st')"
      by (simp add: that effect_def)
    show ?thesis
    proof (cases "live_bearer h (store st) r")
      case None
      with e show ?thesis by (simp add: requireToken_cases)
    next
      case (Some v)
      obtain i l d where v: "v = (i, l, d)" by (cases v)
      with Some e show ?thesis by (cases d) (auto simp: requireToken_cases split: if_splits)
    qed
  qed
  show ?thesis
  proof (cases "canonical r \<and> Method r = ''POST'' \<and> guest_route_of (Path r) \<noteq> None")
    case False
    then have "entitled_door h openGate openOutdoor r (store st) = None"
      by (auto simp: entitled_door_def guest_route_of_def split: option.split bool.split)
    moreover have "world st' = world st"
      using assms False by (auto simp: guest_routes_def split: if_splits option.splits)
    ultimately show ?thesis by simp
  next
    case True
    then consider "Path r = ''/guest/enroll''" | "Path r = ''/guest/gate/open''"
      | "Path r = ''/guest/outdoor/open''" | "Path r = ''/guest/forget''"
      by (auto simp: guest_route_of_def split: if_splits)
    then show ?thesis
    proof cases
      case 1
      with True assms have "world st' = world st"
        by (auto simp: guest_routes_def guest_route_of_def dest: enroll_world)
      with 1 show ?thesis by (simp add: entitled_door_def split: option.split bool.split)
    next
      case 2
      with True assms door [of "''gate''" openGate] show ?thesis
        by (simp add: guest_routes_def guest_route_of_def entitled_door_def)
    next
      case 3
      with True assms door [of "''outdoor''" openOutdoor] show ?thesis
        by (simp add: guest_routes_def guest_route_of_def entitled_door_def)
    next
      case 4
      with True assms have "world st' = world st"
        by (auto simp: guest_routes_def guest_route_of_def dest: forget_world)
      with 4 show ?thesis by (simp add: entitled_door_def split: option.split bool.split)
    qed
  qed
qed

text \<open>Two environments and logs that differ only in what concerns the audit.\<close>

definition same_but_audit :: "api_env \<Rightarrow> api_env \<Rightarrow> bool" where
  "same_but_audit e1 e2 \<longleftrightarrow> e2\<lparr>e_audit_now := e_audit_now e1, e_audit_ok := e_audit_ok e1\<rparr> = e1"

lemma same_but_audit_sel:
  "same_but_audit e1 e2 \<Longrightarrow> e_now e1 = e_now e2 \<and> e_now2 e1 = e_now2 e2 \<and> e_saved e1 = e_saved e2
     \<and> e_revsaved e1 = e_revsaved e2 \<and> e_rand1 e1 = e_rand1 e2 \<and> e_rand2 e1 = e_rand2 e2"
  by (cases e1; cases e2) (simp add: same_but_audit_def)

lemma effect_requireToken_audit:
  assumes "same_but_audit e1 e2" "store st1 = store st2" "world st1 = world st2"
  shows "effect (requireToken h act door e1 r st1) = effect (requireToken h act door e2 r st2)"
proof (cases "live_bearer h (store st1) r")
  case None
  then show ?thesis using assms same_but_audit_sel [OF assms(1)] by (simp add: requireToken_cases)
next
  case (Some v)
  obtain i l d where v: "v = (i, l, d)" by (cases v)
  with Some show ?thesis using assms same_but_audit_sel [OF assms(1)]
    by (cases d) (simp_all add: requireToken_cases)
qed

lemma effect_forget_audit:
  assumes "same_but_audit e1 e2" "store st1 = store st2" "world st1 = world st2"
  shows "effect (forget h e1 r st1) = effect (forget h e2 r st2)"
proof (cases "live_bearer h (store st1) r")
  case None
  then show ?thesis using assms same_but_audit_sel [OF assms(1)] by (simp add: forget_cases)
next
  case (Some v)
  obtain i l d where v: "v = (i, l, d)" by (cases v)
  with Some show ?thesis using assms same_but_audit_sel [OF assms(1)]
    by (simp add: forget_cases split: option.split prod.split)
qed

lemma effect_enroll_audit:
  assumes "same_but_audit e1 e2" "store st1 = store st2" "world st1 = world st2"
  shows "effect (enroll h dc e1 r st1) = effect (enroll h dc e2 r st2)"
  using same_but_audit_sel [OF assms(1)] assms(2,3)
  by (simp add: enroll_def effect_def Let_def split: option.split sum.split prod.split)

text \<open>
  C15: Auditing is best effort: two runs of a guest request that differ only in the audit store and
  in whether its writes succeed give the same reply, the same guest store and the same effect on the
  doors.
\<close>

theorem audit_never_changes_outcome:
  assumes "same_but_audit e1 e2" "store st1 = store st2" "world st1 = world st2"
  shows "effect (guest_routes h DemoCode openGate openOutdoor e1 r st1)
       = effect (guest_routes h DemoCode openGate openOutdoor e2 r st2)"
  using effect_requireToken_audit [OF assms] effect_forget_audit [OF assms] effect_enroll_audit [OF assms] assms
  by (cases "guest_route_of (Path r)")
    (auto simp: guest_routes_def effect_def split: guest_route.split)

lemma forget_locks_out_caller:
  assumes "wf_store (store st)" "Authorization r = ''Bearer '' @ tok"
    and "forget h env r st = (resp, st')"
  shows "(Status resp = 401 \<longleftrightarrow> access h (store st) tok = None)
    \<and> access h (store st') tok = None
    \<and> (Status resp = 204 \<longrightarrow> disk (store st') = Some (guests (store st')))
    \<and> (\<forall>t j v i u. access h (store st) t = Some (j, v) \<longrightarrow> access h (store st) tok = Some (i, u) \<longrightarrow> j \<noteq> i
         \<longrightarrow> access h (store st') t = Some (j, v))"
proof -
  have lb: "live_bearer h (store st) r = access h (store st) tok" and b: "fst (bearer r) = tok"
    by (simp_all only: live_bearer_of [OF assms(2)] bearer_of [OF assms(2)] fst_conv)
  let ?s = "snd (Authenticate h (e_now env) (e_saved env) tok (store st))"
  have e: "effect (forget h env r st) = (resp, store st', world st')"
    by (simp add: assms(3) effect_def)
  show ?thesis
  proof (cases "access h (store st) tok")
    case None
    with e lb b have "resp = respond 401 (Text ''unauthorized'')" "store st' = ?s"
      by (simp_all add: forget_cases)
    with None show ?thesis by (simp add: gs.authenticate_keeps)
  next
    case (Some v)
    obtain i l d where v: "v = (i, l, d)" by (cases v)
    obtain eo s2 where rv: "Revoke (e_revsaved env) i ?s = (eo, s2)" by fastforce
    have wf: "wf_store ?s" using assms(1) by (rule gs.authenticate_wf)
    from Some v lb e b rv have r: "Status resp = (if eo = None then 204 else 500)" "store st' = s2"
      by (auto simp: forget_cases split: option.splits)
    have acc: "access h s2 t = (case access h (store st) t of
        Some (j, v) \<Rightarrow> if j = i then None else Some (j, v) | None \<Rightarrow> None)" for t
      using gs.revoke_shrinks [OF wf, of h "e_revsaved env" i t] rv by (simp add: gs.authenticate_keeps)
    have "eo = None \<Longrightarrow> disk s2 = Some (guests s2)"
      using rv by (auto simp: Revoke_def save_def Let_def split: option.splits if_splits)
    with r acc Some v show ?thesis by (auto split: if_splits)
  qed
qed

lemma EnrollDemo_Some:
  assumes "EnrollDemo h now rid rtok sv lab s = (Inr (tok, g), s')" "wf_store s" "digest_ok h"
  shows "Demo g \<and> disk s' = Some (guests s') \<and> list_all wf_record (guests s')"
proof -
  obtain i bs where e: "rid = Some i" "rtok = Some bs" sv
    using assms(1) by (auto simp: EnrollDemo_def Let_def save_def split: option.splits if_splits)
  with assms show ?thesis
    by (auto simp: EnrollDemo_def Let_def save_def wf_store_def wf_list_def
      wf_record_def hashSecret_nonempty)
qed

lemma enroll_demo_ok:
  assumes "DemoCode \<noteq> []" "JsonField r = Some DemoCode"
    and "enroll h DemoCode env r st = (respond 200 (EnrollBody tok l c d), st')"
  obtains g s where "EnrollDemo h (e_now env) (e_rand1 env) (e_rand2 env) (e_saved env)
      demoGuestLabel (store st) = (Inr (tok, g), s)" "store st' = s" "d = Demo g"
proof -
  obtain res s where ed: "EnrollDemo h (e_now env) (e_rand1 env) (e_rand2 env) (e_saved env)
      demoGuestLabel (store st) = (res, s)" by fastforce
  show ?thesis
  proof (cases res)
    case (Inl e)
    have "fst (enroll h DemoCode env r st) \<noteq> respond 200 (EnrollBody tok l c d)"
      by (simp add: enroll_def assms(1,2) ed Inl Let_def)
    with assms(3) show ?thesis by simp
  next
    case (Inr p)
    obtain t g where p: "p = (t, g)" by (cases p)
    have "enroll h DemoCode env r st = (respond 200 (EnrollBody t (Label g) (unix (Created g)) (Demo g)),
        record_event env r (event ''enroll'' ''success'' (ID g) (Label g)) (st\<lparr>store := s\<rparr>))"
      by (simp add: enroll_def assms(1,2) ed Inr p)
    with assms(3) have "t = tok" "d = Demo g" "store st' = s" by auto
    with ed Inr p that show ?thesis by simp
  qed
qed


text \<open>
  C1: The public guest routes change the physical world in exactly one case: a canonical POST to a
  door route carrying the bearer token of an enrolled, unrevoked, non-demo guest; then the door is
  driven once and the reply is 204 when it opened and 502 when it failed. Every other request leaves
  the world as it was.
\<close>

theorem door_moves_only_for_live_guest:
  assumes "guest_routes h DemoCode openGate openOutdoor env r st = (resp, st')"
  shows "case entitled_door h openGate openOutdoor r (store st) of
      None \<Rightarrow> world st' = world st
    | Some door \<Rightarrow> world st' = snd (door (world st))
        \<and> Status resp = (if fst (door (world st)) then 204 else 502)"
  by (rule door_moves [OF assms])

section \<open>Witnesses\<close>

definition sample_env :: api_env where
  "sample_env = \<lparr>e_now = 5, e_now2 = 6, e_saved = True, e_revsaved = True, e_rand1 = Some ''id'',
     e_rand2 = Some ''seed'', e_audit_now = 7, e_audit_ok = False, e_qr = None\<rparr>"

definition ask :: "string \<Rightarrow> string \<Rightarrow> string option \<Rightarrow> http_request" where
  "ask path auth json = \<lparr>Method = ''POST'', Path = path, Authorization = auth, XForwardedFor = [],
     RemoteAddr = ''10.0.0.7:4711'', UserAgent = ''app'', Query = (\<lambda>_. []), JsonField = json\<rparr>"

definition doors :: "nat \<Rightarrow> bool \<times> nat" where
  "doors n = (True, Suc n)"

definition sample_state :: "nat api_state" where
  "sample_state = \<lparr>store = two_guests, audit = None, world = 0\<rparr>"

lemma ask_sel [simp]:
  "Method (ask p a j) = ''POST''" "Path (ask p a j) = p" "Authorization (ask p a j) = a"
  "JsonField (ask p a j) = j"
  by (simp_all add: ask_def)

lemma sample_state_sel [simp]:
  "store sample_state = two_guests" "audit sample_state = None" "world sample_state = 0"
  by (simp_all add: sample_state_def)

lemma ann_has_access: "access demo_hash two_guests ''tok-ann'' = Some (''01'', ''Ann'', False)"
  by (simp add: access_def granted_def token_matches_def hashEqual_def ann_def)

lemma gate_path_clean: "cleanPath ''/guest/gate/open'' = ''/guest/gate/open''"
  by code_simp

theorem door_moves_only_for_live_guest_witness:
  "world (snd (guest_routes demo_hash [] doors doors sample_env
     (ask ''/guest/gate/open'' (''Bearer '' @ ''tok-ann'') None) sample_state)) = 1"
proof -
  let ?r = "ask ''/guest/gate/open'' (''Bearer '' @ ''tok-ann'') None"
  obtain resp st' where run: "guest_routes demo_hash [] doors doors sample_env ?r sample_state = (resp, st')"
    by fastforce
  have "live_bearer demo_hash two_guests ?r = Some (''01'', ''Ann'', False)"
    by (rule trans [OF live_bearer_of ann_has_access]) (simp only: ask_sel)
  moreover have "canonical ?r" by (simp add: canonical_def gate_path_clean)
  ultimately have "entitled_door demo_hash doors doors ?r (store sample_state) = Some doors"
    by (simp only: entitled_door_def sample_state_sel ask_sel) simp
  with door_moves_only_for_live_guest [OF run] have "world st' = 1"
    by (simp only: option.case sample_state_sel) (simp add: doors_def)
  then show ?thesis by (simp only: run snd_conv)
qed

theorem audit_never_changes_outcome_witness:
  "effect (guest_routes demo_hash [] doors doors sample_env (ask ''/guest/forget'' [] None) sample_state)
     = effect (guest_routes demo_hash [] doors doors (sample_env\<lparr>e_audit_ok := True\<rparr>)
         (ask ''/guest/forget'' [] None) (sample_state\<lparr>audit := Some sample_db\<rparr>))"
  by (rule audit_never_changes_outcome)
    (simp_all add: same_but_audit_def sample_env_def sample_state_def)

lemma forget_locks_out_caller_witness:
  "access demo_hash (store (snd (forget demo_hash sample_env
     (ask ''/guest/forget'' (''Bearer '' @ ''tok-ann'') None) sample_state))) ''tok-ann'' = None"
proof -
  let ?r = "ask ''/guest/forget'' (''Bearer '' @ ''tok-ann'') None"
  obtain resp st' where run: "forget demo_hash sample_env ?r sample_state = (resp, st')"
    by fastforce
  have "wf_store (store sample_state)" by (simp add: two_guests_wf)
  moreover have "Authorization ?r = ''Bearer '' @ ''tok-ann''" by (simp only: ask_sel)
  ultimately have "access demo_hash (store st') ''tok-ann'' = None"
    using forget_locks_out_caller [OF _ _ run] by blast
  then show ?thesis by (simp only: run snd_conv)
qed


end
