(* ===== verification/StreamSign.thy ===== *)
theory StreamSign
  imports GoCodec
begin

text \<open>
  \<open>streamsign.go\<close>: the expiring stream token \<open><expUnix>.<base64url HMAC(camera|expUnix)>\<close>.
  HMAC-SHA256 is the argument \<open>hmac\<close> (key, message).
\<close>

definition streamMAC ::
  "(string \<Rightarrow> string \<Rightarrow> string) \<Rightarrow> string \<Rightarrow> string \<Rightarrow> string \<Rightarrow> string" where
  "streamMAC hmac secret camera expUnix = hmac secret (camera @ ''|'' @ expUnix)"

definition signStream ::
  "(string \<Rightarrow> string \<Rightarrow> string) \<Rightarrow> string \<Rightarrow> string \<Rightarrow> instant \<Rightarrow> string" where
  "signStream hmac secret camera exp =
    (let expUnix = format_int (unix exp)
     in expUnix @ ''.'' @ raw_url_encode (streamMAC hmac secret camera expUnix))"

definition verifyStream ::
  "(string \<Rightarrow> string \<Rightarrow> string) \<Rightarrow> string \<Rightarrow> string \<Rightarrow> string \<Rightarrow> instant \<Rightarrow> bool" where
  "verifyStream hmac secret camera token now =
    (case cut CHR ''.'' token of (expUnix, sig, found) \<Rightarrow>
       (case parse_int expUnix of
          None \<Rightarrow> False
        | Some exp \<Rightarrow>
            (case raw_url_decode sig of
               None \<Rightarrow> False
             | Some gotMAC \<Rightarrow>
                 found \<and> gotMAC = streamMAC hmac secret camera expUnix \<and> unix now \<le> exp)))"

lemma verify_signStream:
  assumes "int64_range (unix exp)"
  shows "verifyStream hmac secret camera (signStream hmac secret camera' exp) now \<longleftrightarrow>
    streamMAC hmac secret camera' (format_int (unix exp)) = streamMAC hmac secret camera (format_int (unix exp))
      \<and> unix now \<le> unix exp"
proof -
  have "CHR ''.'' \<notin> set (format_int (unix exp))"
    using format_int_chars [of "CHR ''.''" "unix exp"] by (auto simp: is_digit_def)
  then have "cut CHR ''.'' (signStream hmac secret camera' exp)
     = (format_int (unix exp), raw_url_encode (streamMAC hmac secret camera' (format_int (unix exp))), True)"
    by (simp add: signStream_def Let_def cut_at)
  with assms show ?thesis
    by (auto simp: verifyStream_def parse_int_format_int raw_url_decode_encode)
qed

text \<open>Two signed messages agree only on the same camera and expiry text.\<close>

lemma mac_message_inj:
  assumes "camera @ ''|'' @ e = camera' @ ''|'' @ e'" "CHR ''|'' \<notin> set e" "CHR ''|'' \<notin> set e'"
  shows "camera = camera' \<and> e = e'"
proof -
  have "rev e @ CHR ''|'' # rev camera = rev e' @ CHR ''|'' # rev camera'"
    using arg_cong [OF assms(1), of rev] by simp
  then have "cut CHR ''|'' (rev e @ CHR ''|'' # rev camera) = cut CHR ''|'' (rev e' @ CHR ''|'' # rev camera')"
    by (rule arg_cong)
  then have "rev e = rev e' \<and> rev camera = rev camera'"
    using assms(2,3) by (simp add: cut_at)
  then show ?thesis by simp
qed

text \<open>Everything a token is made of survives URL query escaping.\<close>

lemma signStream_safe: "\<forall>c \<in> set (signStream hmac secret camera exp). url_safe c"
proof -
  have "url_safe c" if "c \<in> set (format_int (unix exp))" for c
    using format_int_chars [OF that] by (auto simp: url_safe_def is_digit_def)
  moreover have "url_safe c" if "c \<in> set (raw_url_encode s)" for c s
    using raw_url_encode_safe [of s] that by (simp add: list_all_iff)
  moreover have "url_safe CHR ''.''" by (simp add: url_safe_def)
  ultimately show ?thesis by (auto simp: signStream_def Let_def)
qed

section \<open>Properties\<close>

text \<open>
  C16: A stream token verifies for exactly the camera it was signed for and up to the expiry it
  carries, when the MAC of that message pair does not collide.
\<close>

theorem stream_token_bound_to_camera_and_expiry:
  assumes "int64_range (unix exp)"
    and "hmac secret (camera @ ''|'' @ format_int (unix exp)) = hmac secret (camera' @ ''|'' @ format_int (unix exp))
      \<longrightarrow> camera @ ''|'' @ format_int (unix exp) = camera' @ ''|'' @ format_int (unix exp)"
  shows "verifyStream hmac secret camera (signStream hmac secret camera' exp) now
     \<longleftrightarrow> camera = camera' \<and> unix now \<le> unix exp"
proof -
  have "streamMAC hmac secret camera' (format_int (unix exp)) = streamMAC hmac secret camera (format_int (unix exp))
      \<longleftrightarrow> camera = camera'"
    using assms(2) by (auto simp: streamMAC_def)
  then show ?thesis by (simp add: verify_signStream [OF assms(1)])
qed

lemma stream_token_needs_a_mac_under_the_secret:
  assumes "verifyStream hmac secret camera token now"
  shows "\<exists>expUnix sig exp. token = expUnix @ ''.'' @ sig \<and> parse_int expUnix = Some exp \<and> unix now \<le> exp
    \<and> raw_url_decode sig = Some (hmac secret (camera @ ''|'' @ expUnix))
    \<and> (\<forall>camera' expUnix'. CHR ''|'' \<notin> set expUnix' \<and> camera' @ ''|'' @ expUnix' = camera @ ''|'' @ expUnix
         \<longrightarrow> camera' = camera \<and> expUnix' = expUnix)"
proof -
  obtain e sig found where c: "cut CHR ''.'' token = (e, sig, found)" by (cases "cut CHR ''.'' token")
  from assms c obtain exp where e: "parse_int e = Some exp" "found" "unix now \<le> exp"
    "raw_url_decode sig = Some (streamMAC hmac secret camera e)"
    by (auto simp: verifyStream_def split: option.splits)
  have "CHR ''|'' \<notin> set e"
    using parse_int_chars [OF e(1), of "CHR ''|''"] by (auto simp: is_digit_def)
  then have "camera' = camera \<and> e' = e"
    if "CHR ''|'' \<notin> set e'" "camera' @ ''|'' @ e' = camera @ ''|'' @ e" for camera' e'
    using mac_message_inj [OF that(2,1)] by blast
  moreover have "token = e @ ''.'' @ sig" using cut_True [of "CHR ''.''" token e sig] c e(2) by simp
  moreover have "raw_url_decode sig = Some (hmac secret (camera @ ''|'' @ e))"
    using e(4) by (simp only: streamMAC_def)
  ultimately show ?thesis using e(1,3) by blast
qed

section \<open>Witnesses\<close>

definition toy_mac :: "string \<Rightarrow> string \<Rightarrow> string" where
  "toy_mac k m = k @ m"

theorem stream_token_bound_to_camera_and_expiry_witness:
  "verifyStream toy_mac ''k'' ''yard'' (signStream toy_mac ''k'' ''yard'' (100 * second)) (60 * second)
   \<and> \<not> verifyStream toy_mac ''k'' ''yard'' (signStream toy_mac ''k'' ''door'' (100 * second)) (60 * second)
   \<and> \<not> verifyStream toy_mac ''k'' ''yard'' (signStream toy_mac ''k'' ''yard'' (100 * second)) (101 * second)"
proof -
  have r: "int64_range (unix (100 * second))" by (simp add: int64_range_def unix_def)
  have "verifyStream toy_mac ''k'' ''yard'' (signStream toy_mac ''k'' camera' (100 * second)) now
     \<longleftrightarrow> ''yard'' = camera' \<and> unix now \<le> unix (100 * second)" for camera' now
    by (rule stream_token_bound_to_camera_and_expiry [OF r]) (simp add: toy_mac_def)
  then show ?thesis by (simp add: unix_def)
qed

lemma stream_token_needs_a_mac_under_the_secret_witness:
  "\<exists>expUnix sig exp. signStream toy_mac ''k'' ''yard'' (100 * second) = expUnix @ ''.'' @ sig
     \<and> parse_int expUnix = Some exp \<and> unix (60 * second) \<le> exp"
proof -
  have r: "int64_range (unix (100 * second))" by (simp add: int64_range_def unix_def)
  have "verifyStream toy_mac ''k'' ''yard'' (signStream toy_mac ''k'' ''yard'' (100 * second)) (60 * second)"
    by (simp only: verify_signStream [OF r]) (simp add: unix_def)
  from stream_token_needs_a_mac_under_the_secret [OF this] show ?thesis by blast
qed

end
