(* ===== verification/StreamHub.thy ===== *)
theory StreamHub
  imports GoLib "HOL-Library.Signed_Division"
begin

text \<open>
  \<open>streamhub.go\<close>: one upstream pull per camera, shared by its viewers.  Each operation under
  the hub's mutex is a function on the hub; the interleaving of requests, timers, their
  callbacks and pull goroutines is the step relation \<open>hub_step\<close>.  Ghost fields list what Go
  keeps elsewhere: the release closures not yet called (\<open>held\<close>), the armed timers, the
  callbacks that have fired and wait for the mutex, the live pull goroutines and the
  cancelled contexts.  Run, timer and closure identities are drawn from \<open>fresh\<close>.
\<close>

section \<open>The hub\<close>

record streamCam =
  viewers :: int
  idleTimer :: "nat option"
  run :: "nat option"

record streamHub =
  cams :: "string \<rightharpoonup> streamCam"
  closed :: bool
  held :: "(nat \<times> string) list"
  armed :: "(nat \<times> string) set"
  fired :: "string list"
  pulls :: "(nat \<times> string) set"
  cancelled :: "nat set"
  fresh :: nat

definition NewStreamHub :: "string set \<Rightarrow> streamHub" where
  "NewStreamHub sources = \<lparr>
     cams = (\<lambda>n. if n \<in> sources then Some \<lparr>viewers = 0, idleTimer = None, run = None\<rparr> else None),
     closed = False, held = [], armed = {}, fired = [], pulls = {}, cancelled = {}, fresh = 0\<rparr>"

definition put_cam :: "string \<Rightarrow> streamCam \<Rightarrow> streamHub \<Rightarrow> streamHub" where
  "put_cam name cam h = h\<lparr>cams := (cams h)(name \<mapsto> cam)\<rparr>"

definition stop_timer :: "string \<Rightarrow> streamCam \<Rightarrow> streamHub \<Rightarrow> streamHub" where
  "stop_timer name cam h = (case idleTimer cam of
      None \<Rightarrow> h | Some t \<Rightarrow> h\<lparr>armed := armed h - {(t, name)}\<rparr>)"

definition startLocked :: "string \<Rightarrow> streamCam \<Rightarrow> streamHub \<Rightarrow> streamHub" where
  "startLocked name cam h =
     put_cam name (cam\<lparr>run := Some (fresh h)\<rparr>)
       (h\<lparr>pulls := insert (fresh h, name) (pulls h), fresh := Suc (fresh h)\<rparr>)"

definition acquire :: "string \<Rightarrow> streamHub \<Rightarrow> (nat \<times> string) option \<times> streamHub" where
  "acquire name h = (case cams h name of
      None \<Rightarrow> (None, h)
    | Some cam \<Rightarrow>
        if closed h then (None, h)
        else (let h1 = stop_timer name cam h;
                  cam1 = cam\<lparr>viewers := viewers cam + 1, idleTimer := None\<rparr>;
                  h2 = (if run cam = None then startLocked name cam1 h1 else put_cam name cam1 h1);
                  handle = (fresh h2, name)
              in (Some handle, h2\<lparr>held := handle # held h2, fresh := Suc (fresh h2)\<rparr>)))"

definition release :: "string \<Rightarrow> streamHub \<Rightarrow> streamHub" where
  "release name h = (case cams h name of
      None \<Rightarrow> h
    | Some cam \<Rightarrow>
        let cam1 = cam\<lparr>viewers := viewers cam - 1\<rparr>
        in if viewers cam1 > 0 \<or> closed h then put_cam name cam1 h
           else put_cam name (cam1\<lparr>idleTimer := Some (fresh h)\<rparr>)
                  (h\<lparr>armed := insert (fresh h, name) (armed h), fresh := Suc (fresh h)\<rparr>))"

text \<open>The closure \<open>acquire\<close> returns: \<open>sync.Once\<close> around \<open>release\<close>.\<close>

definition release_once :: "nat \<times> string \<Rightarrow> streamHub \<Rightarrow> streamHub" where
  "release_once handle h =
    (if handle \<in> set (held h) then release (snd handle) (h\<lparr>held := remove1 handle (held h)\<rparr>) else h)"

definition idle_callback :: "string \<Rightarrow> streamHub \<Rightarrow> streamHub" where
  "idle_callback name h = (case cams h name of
      None \<Rightarrow> h
    | Some cam \<Rightarrow> (case run cam of
        None \<Rightarrow> h
      | Some r \<Rightarrow> if viewers cam = 0
          then put_cam name (cam\<lparr>run := None\<rparr>) (h\<lparr>cancelled := insert r (cancelled h)\<rparr>) else h))"

definition Close :: "streamHub \<Rightarrow> streamHub" where
  "Close h = h\<lparr>closed := True,
     armed := {p \<in> armed h. \<not> (\<exists>cam. cams h (snd p) = Some cam \<and> idleTimer cam = Some (fst p))},
     cancelled := cancelled h \<union> {r. \<exists>n cam. cams h n = Some cam \<and> run cam = Some r},
     cams := (\<lambda>n. map_option (\<lambda>cam. cam\<lparr>run := None\<rparr>) (cams h n))\<rparr>"

text \<open>\<open>Handler\<close>: the pull is started and its idle timer armed before any request is served.\<close>

definition Handler :: "string \<Rightarrow> streamHub \<Rightarrow> bool \<times> streamHub" where
  "Handler name h = (case acquire name h of
      (None, h') \<Rightarrow> (False, h')
    | (Some handle, h') \<Rightarrow> (True, release_once handle h'))"

section \<open>Interleavings\<close>

inductive hub_step :: "streamHub \<Rightarrow> streamHub \<Rightarrow> bool" where
  Acquire: "hub_step h (snd (acquire name h))"
| Release: "hub_step h (release_once handle h)"
| Fire: "(t, name) \<in> armed h
    \<Longrightarrow> hub_step h (h\<lparr>armed := armed h - {(t, name)}, fired := name # fired h\<rparr>)"
| Callback: "name \<in> set (fired h)
    \<Longrightarrow> hub_step h (idle_callback name (h\<lparr>fired := remove1 name (fired h)\<rparr>))"
| Exit: "(r, name) \<in> pulls h \<Longrightarrow> r \<in> cancelled h \<Longrightarrow> hub_step h (h\<lparr>pulls := pulls h - {(r, name)}\<rparr>)"
| Shut: "hub_step h (Close h)"

inductive hub_reach :: "string set \<Rightarrow> streamHub \<Rightarrow> bool" for sources where
  Start: "hub_reach sources (NewStreamHub sources)"
| Step: "hub_reach sources h \<Longrightarrow> hub_step h h' \<Longrightarrow> hub_reach sources h'"

section \<open>The invariant\<close>

definition holders :: "string \<Rightarrow> streamHub \<Rightarrow> nat" where
  "holders name h = length (filter (\<lambda>p. snd p = name) (held h))"

definition live_pulls :: "string \<Rightarrow> streamHub \<Rightarrow> nat set" where
  "live_pulls name h = {r. (r, name) \<in> pulls h \<and> r \<notin> cancelled h}"

text \<open>
  What one camera looks like: its viewer count is the number of closures not yet called,
  the live pulls are exactly its run, a viewed camera of an open hub has one and no timer,
  and an unviewed one has a stop pending.
\<close>

definition timers :: "string \<Rightarrow> streamHub \<Rightarrow> nat set" where
  "timers name h = {t. (t, name) \<in> armed h}"

definition cam_sane :: "nat \<Rightarrow> nat set \<Rightarrow> nat set \<Rightarrow> bool \<Rightarrow> bool \<Rightarrow> streamCam \<Rightarrow> bool" where
  "cam_sane users live tms waiting cl cam \<longleftrightarrow> viewers cam = int users
     \<and> live = set_option (run cam)
     \<and> (if cl then run cam = None
        else if viewers cam > 0 then run cam \<noteq> None \<and> idleTimer cam = None
        else run cam = None \<or> tms \<noteq> {} \<or> waiting)
     \<and> tms \<subseteq> set_option (idleTimer cam)"

definition cam_ok :: "streamHub \<Rightarrow> string \<Rightarrow> streamCam \<Rightarrow> bool" where
  "cam_ok h name cam \<longleftrightarrow>
     cam_sane (holders name h) (live_pulls name h) (timers name h) (name \<in> set (fired h)) (closed h) cam"

definition hub_ok :: "streamHub \<Rightarrow> bool" where
  "hub_ok h \<longleftrightarrow> (\<forall>name. case cams h name of
        None \<Rightarrow> holders name h = 0 \<and> live_pulls name h = {} \<and> timers name h = {}
      | Some cam \<Rightarrow> cam_ok h name cam)
     \<and> (\<forall>r name. (r, name) \<in> pulls h \<longrightarrow> r < fresh h) \<and> (\<forall>r \<in> cancelled h. r < fresh h)
     \<and> (\<forall>r n m. (r, n) \<in> pulls h \<longrightarrow> (r, m) \<in> pulls h \<longrightarrow> n = m)"

lemma hub_ok_cam: "hub_ok h \<Longrightarrow> cams h name = Some cam \<Longrightarrow> cam_ok h name cam"
  unfolding hub_ok_def by (metis option.simps(5))

lemma hub_ok_ids:
  assumes "hub_ok h"
  shows "(r, name) \<in> pulls h \<Longrightarrow> r < fresh h" "r \<in> cancelled h \<Longrightarrow> r < fresh h"
    "(r, n) \<in> pulls h \<Longrightarrow> (r, m) \<in> pulls h \<Longrightarrow> n = m"
  using assms unfolding hub_ok_def by blast+

lemma NewStreamHub_ok: "hub_ok (NewStreamHub sources)"
  by (auto simp: hub_ok_def NewStreamHub_def cam_ok_def cam_sane_def holders_def live_pulls_def timers_def)

lemma put_cam_sel [simp]:
  "cams (put_cam n c h) = (cams h)(n \<mapsto> c)" "closed (put_cam n c h) = closed h"
  "held (put_cam n c h) = held h" "armed (put_cam n c h) = armed h" "fired (put_cam n c h) = fired h"
  "pulls (put_cam n c h) = pulls h" "cancelled (put_cam n c h) = cancelled h"
  "fresh (put_cam n c h) = fresh h"
  by (simp_all add: put_cam_def)

lemma stop_timer_sel [simp]:
  "cams (stop_timer n c h) = cams h" "closed (stop_timer n c h) = closed h"
  "held (stop_timer n c h) = held h" "fired (stop_timer n c h) = fired h"
  "pulls (stop_timer n c h) = pulls h" "cancelled (stop_timer n c h) = cancelled h"
  "fresh (stop_timer n c h) = fresh h"
  "armed (stop_timer n c h) = armed h - {p. snd p = n \<and> Some (fst p) = idleTimer c}"
  by (auto simp: stop_timer_def split: option.split)

text \<open>
  An operation on one camera: what it leaves alone elsewhere, and what it must establish
  for its own camera.
\<close>

lemma hub_ok_local:
  assumes ok: "hub_ok h" and cams': "cams h' = (cams h)(name \<mapsto> cam')" and cl: "closed h' = closed h"
    and other: "\<And>n. n \<noteq> name \<Longrightarrow> holders n h' = holders n h \<and> live_pulls n h' = live_pulls n h
        \<and> timers n h' = timers n h \<and> (n \<in> set (fired h') \<longleftrightarrow> n \<in> set (fired h))"
    and own: "cam_ok h' name cam'"
    and ids: "\<And>r n. (r, n) \<in> pulls h' \<Longrightarrow> r < fresh h'" "\<And>r. r \<in> cancelled h' \<Longrightarrow> r < fresh h'"
      "\<And>r n m. (r, n) \<in> pulls h' \<Longrightarrow> (r, m) \<in> pulls h' \<Longrightarrow> n = m"
  shows "hub_ok h'"
proof -
  have "case cams h' n of
        None \<Rightarrow> holders n h' = 0 \<and> live_pulls n h' = {} \<and> timers n h' = {}
      | Some cam \<Rightarrow> cam_ok h' n cam" for n
  proof (cases "n = name")
    case True
    then show ?thesis by (simp add: cams' own)
  next
    case False
    have "case cams h n of
        None \<Rightarrow> holders n h = 0 \<and> live_pulls n h = {} \<and> timers n h = {}
      | Some cam \<Rightarrow> cam_ok h n cam" using ok by (simp add: hub_ok_def)
    with False other [OF False] show ?thesis
      by (cases "cams h n") (simp_all add: cams' cam_ok_def cl)
  qed
  with ids show ?thesis unfolding hub_ok_def by blast
qed

lemma acquire_ok:
  assumes ok: "hub_ok h"
  shows "hub_ok (snd (acquire name h))"
proof (cases "cams h name")
  case None
  with ok show ?thesis by (simp add: acquire_def)
next
  case (Some cam)
  note own = hub_ok_cam [OF ok Some]
  note ids = hub_ok_ids [OF ok]
  show ?thesis
  proof (cases "closed h")
    case True
    with ok Some show ?thesis by (simp add: acquire_def)
  next
    case False
    show ?thesis
    proof (cases "run cam")
      case None
      let ?cam = "cam\<lparr>viewers := viewers cam + 1, idleTimer := None, run := Some (fresh h)\<rparr>"
      have "cams (snd (acquire name h)) = (cams h)(name \<mapsto> ?cam)"
        using Some False None by (simp add: acquire_def Let_def startLocked_def)
      then show ?thesis
        by (rule hub_ok_local [OF ok])
          (use Some False None own ids in \<open>auto simp: acquire_def Let_def startLocked_def cam_ok_def
             cam_sane_def holders_def live_pulls_def timers_def less_Suc_eq\<close>)
    next
      case (Some r)
      let ?cam = "cam\<lparr>viewers := viewers cam + 1, idleTimer := None\<rparr>"
      have "cams (snd (acquire name h)) = (cams h)(name \<mapsto> ?cam)"
        using \<open>cams h name = Some cam\<close> False Some by (simp add: acquire_def Let_def)
      then show ?thesis
        by (rule hub_ok_local [OF ok])
          (use \<open>cams h name = Some cam\<close> False Some own ids in \<open>auto simp: acquire_def Let_def cam_ok_def
             cam_sane_def holders_def live_pulls_def timers_def less_Suc_eq\<close>)
    qed
  qed
qed

lemma holders_remove1:
  "(k, m) \<in> set (held h) \<Longrightarrow>
     length (filter (\<lambda>p. snd p = n) (remove1 (k, m) (held h))) = holders n h - (if n = m then 1 else 0)"
  by (auto simp: holders_def filter_remove1 length_remove1 remove1_idem)

lemma holders_pos: "(k, n) \<in> set (held h) \<Longrightarrow> 0 < holders n h"
  unfolding holders_def by (rule length_pos_if_in_set [of "(k, n)"]) simp

lemma release_once_ok:
  assumes ok: "hub_ok h"
  shows "hub_ok (release_once handle h)"
proof (cases "handle \<in> set (held h)")
  case False
  with ok show ?thesis by (simp add: release_once_def)
next
  case True
  obtain k name where handle: "handle = (k, name)" by (cases handle)
  have mem: "(k, name) \<in> set (held h)" using True handle by simp
  have pos: "0 < holders name h" using mem by (rule holders_pos)
  then obtain cam where cam: "cams h name = Some cam"
    using ok unfolding hub_ok_def by (metis less_irrefl not_None_eq option.simps(4))
  note own = hub_ok_cam [OF ok cam]
  note ids = hub_ok_ids [OF ok]
  note held = holders_remove1 [OF mem]
  let ?h = "h\<lparr>held := remove1 (k, name) (held h)\<rparr>"
  have eq: "release_once (k, name) h = release name ?h" using mem by (simp add: release_once_def)
  have "hub_ok (release_once (k, name) h)"
  proof (cases "viewers cam - 1 > 0 \<or> closed h")
    case t: True
    let ?cam = "cam\<lparr>viewers := viewers cam - 1\<rparr>"
    have "cams (release_once (k, name) h) = (cams h)(name \<mapsto> ?cam)"
      using cam t unfolding eq by (simp add: release_def Let_def)
    then show ?thesis
      by (rule hub_ok_local [OF ok])
        (use cam t own ids held pos in \<open>auto simp: eq release_def Let_def cam_ok_def cam_sane_def
           live_pulls_def timers_def holders_def [of _ "put_cam _ _ _"] of_nat_diff split: if_splits\<close>)
  next
    case f: False
    let ?cam = "cam\<lparr>viewers := viewers cam - 1, idleTimer := Some (fresh h)\<rparr>"
    have "cams (release_once (k, name) h) = (cams h)(name \<mapsto> ?cam)"
      using cam f unfolding eq by (simp add: release_def Let_def)
    then show ?thesis
      by (rule hub_ok_local [OF ok])
        (use cam f own ids held pos in \<open>auto simp: eq release_def Let_def cam_ok_def cam_sane_def
           live_pulls_def timers_def holders_def [of _ "put_cam _ _ _"] of_nat_diff less_Suc_eq split: if_splits\<close>)
  qed
  then show ?thesis by (simp only: handle)
qed

lemma hub_ok_same_view:
  assumes ok: "hub_ok h" and c: "cams h' = cams h" "closed h' = closed h" "fresh h' = fresh h"
    and f: "\<And>n. cams h n \<noteq> None \<Longrightarrow> n \<in> set (fired h') \<longleftrightarrow> n \<in> set (fired h)"
    and v: "\<And>n. holders n h' = holders n h \<and> live_pulls n h' = live_pulls n h \<and> timers n h' = timers n h"
    and p: "pulls h' \<subseteq> pulls h" "cancelled h' = cancelled h"
  shows "hub_ok h'"
proof -
  have "case cams h' n of
        None \<Rightarrow> holders n h' = 0 \<and> live_pulls n h' = {} \<and> timers n h' = {}
      | Some cam \<Rightarrow> cam_ok h' n cam" for n
  proof -
    have "case cams h n of
        None \<Rightarrow> holders n h = 0 \<and> live_pulls n h = {} \<and> timers n h = {}
      | Some cam \<Rightarrow> cam_ok h n cam" using ok by (simp add: hub_ok_def)
    with v [of n] f [of n] show ?thesis by (cases "cams h n") (simp_all add: c cam_ok_def)
  qed
  moreover have "r < fresh h'" if "(r, n) \<in> pulls h'" for r n
    using that p c(3) hub_ok_ids(1) [OF ok] by auto
  moreover have "n = m" if "(r, n) \<in> pulls h'" "(r, m) \<in> pulls h'" for r n m
    using that p hub_ok_ids(3) [OF ok] by blast
  ultimately show ?thesis using p c(3) hub_ok_ids(2) [OF ok] unfolding hub_ok_def by auto
qed

lemma in_set_remove1_other: "n \<noteq> x \<Longrightarrow> n \<in> set (remove1 x xs) \<longleftrightarrow> n \<in> set xs"
  by (induction xs) auto

lemma idle_callback_ok:
  assumes ok: "hub_ok h" and f: "name \<in> set (fired h)"
  shows "hub_ok (idle_callback name (h\<lparr>fired := remove1 name (fired h)\<rparr>))"
proof (cases "cams h name")
  case None
  have keep: "n \<in> set (remove1 name (fired h)) \<longleftrightarrow> n \<in> set (fired h)" if "cams h n = Some y" for n y
    using that None by (intro in_set_remove1_other) auto
  have "hub_ok (h\<lparr>fired := remove1 name (fired h)\<rparr>)"
    by (rule hub_ok_same_view [OF ok])
      (use None in \<open>auto simp: holders_def live_pulls_def timers_def keep\<close>)
  with None show ?thesis by (simp add: idle_callback_def)
next
  case (Some cam)
  note own = hub_ok_cam [OF ok Some]
  note ids = hub_ok_ids [OF ok]
  have low: "r < fresh h" if "run cam = Some r" for r
  proof -
    have "r \<in> live_pulls name h" using own that by (simp add: cam_ok_def cam_sane_def)
    with ids(1) show ?thesis by (auto simp: live_pulls_def)
  qed
  have uniq: "(r, n) \<notin> pulls h" if "run cam = Some r" "n \<noteq> name" for r n
  proof -
    have "r \<in> live_pulls name h" using own that(1) by (simp add: cam_ok_def cam_sane_def)
    with ids(3) [of r name n] that(2) show ?thesis by (auto simp: live_pulls_def)
  qed
  let ?cam = "if viewers cam = 0 then cam\<lparr>run := None\<rparr> else cam"
  let ?h = "idle_callback name (h\<lparr>fired := remove1 name (fired h)\<rparr>)"
  have "cams ?h = (cams h)(name \<mapsto> ?cam)"
    using Some by (cases "run cam") (auto simp: idle_callback_def fun_upd_idem)
  then show ?thesis
  proof (rule hub_ok_local [OF ok])
    show "closed ?h = closed h" using Some by (simp add: idle_callback_def split: option.split)
    show "holders n ?h = holders n h \<and> live_pulls n ?h = live_pulls n h
        \<and> timers n ?h = timers n h \<and> (n \<in> set (fired ?h) \<longleftrightarrow> n \<in> set (fired h))" if "n \<noteq> name" for n
      using that Some own ids uniq
      by (auto simp: idle_callback_def holders_def live_pulls_def timers_def cam_ok_def cam_sane_def
          in_set_remove1_other split: option.split)
    show "cam_ok ?h name ?cam"
      using Some own
      by (cases "run cam") (auto simp: idle_callback_def holders_def live_pulls_def timers_def
          cam_ok_def cam_sane_def split: if_splits)
    show "r < fresh ?h" if "(r, n) \<in> pulls ?h" for r n
      using that Some ids by (auto simp: idle_callback_def split: option.splits if_splits)
    show "r < fresh ?h" if "r \<in> cancelled ?h" for r
      using that Some ids low by (auto simp: idle_callback_def split: option.splits if_splits)
    show "n = m" if "(r, n) \<in> pulls ?h" "(r, m) \<in> pulls ?h" for r n m
      using that Some ids by (auto simp: idle_callback_def split: option.splits if_splits)
  qed
qed

lemma Fire_ok:
  assumes ok: "hub_ok h" and t: "(t, name) \<in> armed h"
  shows "hub_ok (h\<lparr>armed := armed h - {(t, name)}, fired := name # fired h\<rparr>)"
proof -
  obtain cam where cam: "cams h name = Some cam"
    using ok t unfolding hub_ok_def timers_def by (metis (mono_tags) empty_iff mem_Collect_eq not_None_eq option.simps(4))
  have "cams (h\<lparr>armed := armed h - {(t, name)}, fired := name # fired h\<rparr>) = (cams h)(name \<mapsto> cam)"
    using cam by (simp add: fun_upd_idem)
  then show ?thesis
    by (rule hub_ok_local [OF ok])
      (use hub_ok_cam [OF ok cam] hub_ok_ids [OF ok] in
        \<open>auto simp: cam_ok_def cam_sane_def holders_def live_pulls_def timers_def split: if_splits\<close>)
qed

lemma Exit_ok:
  "hub_ok h \<Longrightarrow> r \<in> cancelled h \<Longrightarrow> hub_ok (h\<lparr>pulls := pulls h - {(r, name)}\<rparr>)"
  by (erule hub_ok_same_view) (auto simp: holders_def live_pulls_def timers_def)

lemma Close_ok:
  assumes ok: "hub_ok h"
  shows "hub_ok (Close h)"
proof -
  have live: "live_pulls n (Close h) = {}" for n
  proof (cases "cams h n")
    case None
    then have "live_pulls n h = {}" using ok unfolding hub_ok_def by (metis option.simps(4))
    then show ?thesis by (auto simp: Close_def live_pulls_def)
  next
    case (Some cam)
    from hub_ok_cam [OF ok Some] have "live_pulls n h = set_option (run cam)"
      by (simp add: cam_ok_def cam_sane_def)
    then show ?thesis using Some by (auto simp: Close_def live_pulls_def)
  qed
  have tms: "timers n (Close h) \<subseteq> timers n h" for n
    by (auto simp: Close_def timers_def)
  have "case cams (Close h) n of
        None \<Rightarrow> holders n (Close h) = 0 \<and> live_pulls n (Close h) = {} \<and> timers n (Close h) = {}
      | Some cam \<Rightarrow> cam_ok (Close h) n cam" for n
  proof (cases "cams h n")
    case None
    then have "holders n h = 0 \<and> timers n h = {}" using ok unfolding hub_ok_def by (metis option.simps(4))
    with None live tms [of n] show ?thesis by (simp add: Close_def holders_def)
  next
    case (Some cam)
    from hub_ok_cam [OF ok Some] live tms [of n] Some show ?thesis
      by (auto simp: Close_def cam_ok_def cam_sane_def holders_def)
  qed
  moreover have "r < fresh (Close h)" if "r \<in> cancelled (Close h)" for r
  proof -
    from that have "r \<in> cancelled h \<or> (\<exists>n cam. cams h n = Some cam \<and> run cam = Some r)"
      by (simp add: Close_def)
    moreover have "r < fresh h" if "cams h n = Some cam" "run cam = Some r" for n cam
    proof -
      from hub_ok_cam [OF ok that(1)] that(2) have "r \<in> live_pulls n h"
        by (simp add: cam_ok_def cam_sane_def)
      then show ?thesis using hub_ok_ids(1) [OF ok] by (auto simp: live_pulls_def)
    qed
    ultimately show ?thesis using hub_ok_ids(2) [OF ok] by (auto simp: Close_def)
  qed
  moreover have "pulls (Close h) = pulls h" "fresh (Close h) = fresh h" by (simp_all add: Close_def)
  ultimately show ?thesis using hub_ok_ids(1,3) [OF ok] unfolding hub_ok_def by auto
qed

lemma hub_step_ok: "hub_step h h' \<Longrightarrow> hub_ok h \<Longrightarrow> hub_ok h'"
  by (induction rule: hub_step.induct)
    (simp_all add: acquire_ok release_once_ok Fire_ok idle_callback_ok Exit_ok Close_ok)

lemma hub_reach_ok: "hub_reach sources h \<Longrightarrow> hub_ok h"
  by (induction rule: hub_reach.induct) (auto intro: NewStreamHub_ok hub_step_ok)

section \<open>One run's muxer\<close>

text \<open>
  A \<open>streamRun\<close> holds the muxer of the current connection: its anchor (first pts and wall
  time) and, as a ghost, the access units written so far with their relative pts and
  presentation time.  \<open>time.Duration\<close> arithmetic is Go's: \<open>int64\<close>, truncating division.
\<close>

record muxer =
  startPTS :: int
  startWall :: instant
  written :: "(int \<times> instant) list"

type_synonym stream_run = "muxer option"

definition h265ClockRate :: int where
  "h265ClockRate = 90000"

definition ntp_offset :: "int \<Rightarrow> int" where
  "ntp_offset rel = (let secs = rel sdiv h265ClockRate; frac = rel smod h265ClockRate
     in wrap64 (wrap64 (secs * second) + wrap64 (frac * second) sdiv h265ClockRate))"

text \<open>What the comment in \<open>write\<close> warns of: multiplying before dividing.\<close>

definition ntp_offset_naive :: "int \<Rightarrow> int" where
  "ntp_offset_naive rel = wrap64 (rel * second) sdiv h265ClockRate"

text \<open>\<open>write\<close>: \<open>started\<close> is whether \<open>m.Start\<close> succeeds, \<open>accepted\<close> whether \<open>WriteH265\<close> does.\<close>

definition write_au :: "bool \<Rightarrow> bool \<Rightarrow> instant \<Rightarrow> int \<Rightarrow> stream_run \<Rightarrow> bool \<times> stream_run" where
  "write_au started accepted now pts r =
    (case (case r of
        None \<Rightarrow> if started then Some \<lparr>startPTS = pts, startWall = now, written = []\<rparr> else None
      | Some m \<Rightarrow> Some m) of
      None \<Rightarrow> (False, None)
    | Some m \<Rightarrow>
        let rel = pts - startPTS m; ntp = startWall m + ntp_offset rel
        in (accepted, Some (if accepted then m\<lparr>written := written m @ [(rel, ntp)]\<rparr> else m)))"

definition closeMuxer :: "stream_run \<Rightarrow> stream_run" where
  "closeMuxer r = None"

text \<open>
  One connection attempt of \<open>pull\<close>: the access units its callback hands to \<open>write\<close> before
  the upstream fails or the context is done (an error of \<open>write\<close> only ends the attempt
  later, through \<open>cbErr\<close>).  \<open>pull\<close> closes the muxer after each attempt; its result is the
  list of playlists the attempts produced and the muxer left behind.
\<close>

type_synonym unit_in = "bool \<times> bool \<times> instant \<times> int"   \<comment> \<open>started, accepted, now, pts\<close>

fun deliver :: "unit_in list \<Rightarrow> stream_run \<Rightarrow> stream_run" where
  "deliver [] r = r"
| "deliver ((started, accepted, now, pts) # aus) r = deliver aus (snd (write_au started accepted now pts r))"

record attempt =
  units :: "unit_in list"
  ctx_done :: bool   \<comment> \<open>the context is cancelled when the attempt and its backoff are over\<close>

fun pull :: "attempt list \<Rightarrow> stream_run \<Rightarrow> muxer list \<times> stream_run" where
  "pull [] r = ([], closeMuxer r)"
| "pull (a # as) r =
     (let r1 = deliver (units a) r; played = (case r1 of None \<Rightarrow> [] | Some m \<Rightarrow> [m]); r2 = closeMuxer r1
      in if ctx_done a then (played, closeMuxer r2)
         else (case pull as r2 of (ms, r3) \<Rightarrow> (played @ ms, r3)))"

lemma sdiv_smod_split:
  "(rel * s) sdiv c = (rel sdiv c) * s + ((rel smod c) * s) sdiv c" if "0 < c" "0 < s" for rel s c :: int
proof -
  have pos: "(x * s) div c = (x div c) * s + ((x mod c) * s) div c" if "0 \<le> x" for x
  proof -
    have "x * s = (x mod c) * s + c * ((x div c) * s)"
      by (metis add.commute distrib_right mult.assoc mult_div_mod_eq)
    then show ?thesis using \<open>0 < c\<close> by simp
  qed
  show ?thesis
  proof (cases "0 \<le> rel")
    case True
    with pos [of rel] that show ?thesis
      by (simp add: signed_divide_int_def signed_modulo_int_def sgn_mult abs_mult sgn_if)
  next
    case False
    define m where "m = (- rel) mod c"
    have "0 \<le> m" using that(1) by (simp add: m_def)
    with pos [of "- rel", folded m_def] False that show ?thesis
      by (auto simp flip: m_def simp: signed_divide_int_def signed_modulo_int_def sgn_if abs_if mult_less_0_iff zero_less_mult_iff algebra_simps)
  qed
qed

text \<open>The timeline of a connection: every accepted unit against the first one the muxer saw.\<close>

definition timeline :: "int \<Rightarrow> instant \<Rightarrow> unit_in list \<Rightarrow> (int \<times> instant) list" where
  "timeline pts0 wall us = map (\<lambda>(_, _, _, pts). (pts - pts0, wall + ntp_offset (pts - pts0)))
     (filter (\<lambda>(_, accepted, _, _). accepted) us)"

definition anchored :: "unit_in list \<Rightarrow> muxer \<Rightarrow> bool" where
  "anchored us m \<longleftrightarrow> (\<exists>before accepted after. us = before @ (True, accepted, startWall m, startPTS m) # after
     \<and> (\<forall>u \<in> set before. \<not> fst u)
     \<and> written m = timeline (startPTS m) (startWall m) ((True, accepted, startWall m, startPTS m) # after))"

lemma deliver_running:
  "deliver us (Some m) = Some (m\<lparr>written := written m @ timeline (startPTS m) (startWall m) us\<rparr>)"
proof (induction us arbitrary: m)
  case (Cons u us)
  obtain st ac now pts where "u = (st, ac, now, pts)" by (cases u)
  then show ?case by (simp add: Cons write_au_def Let_def timeline_def)
qed (simp add: timeline_def)

lemma deliver_fresh: "deliver us None = Some m \<Longrightarrow> anchored us m"
proof (induction us)
  case (Cons u us)
  obtain st ac now pts where u: "u = (st, ac, now, pts)" by (cases u)
  show ?case
  proof (cases st)
    case True
    let ?m = "\<lparr>startPTS = pts, startWall = now, written = []\<rparr>"
    have "deliver (u # us) None = deliver (u # us) (Some ?m)"
      by (simp add: u True write_au_def)
    with Cons.prems have "m = ?m\<lparr>written := timeline pts now (u # us)\<rparr>"
      by (simp only: deliver_running) simp
    then have "u # us = [] @ (True, ac, startWall m, startPTS m) # us"
      "written m = timeline (startPTS m) (startWall m) ((True, ac, startWall m, startPTS m) # us)"
      by (simp_all add: u True)
    then show ?thesis unfolding anchored_def by (metis empty_iff list.set(1))
  next
    case False
    with Cons u have "anchored us m" by (simp add: write_au_def)
    then obtain before ac' after where
      "us = before @ (True, ac', startWall m, startPTS m) # after" "\<forall>u \<in> set before. \<not> fst u"
      "written m = timeline (startPTS m) (startWall m) ((True, ac', startWall m, startPTS m) # after)"
      unfolding anchored_def by blast
    moreover from this have "u # us = (u # before) @ (True, ac', startWall m, startPTS m) # after"
      "\<forall>v \<in> set (u # before). \<not> fst v" by (simp_all add: u False)
    ultimately show ?thesis unfolding anchored_def by blast
  qed
qed simp

lemma pull_playlists:
  "m \<in> set (fst (pull as None)) \<Longrightarrow> \<exists>a \<in> set as. anchored (units a) m"
proof (induction as)
  case (Cons a as)
  show ?case
  proof (cases "deliver (units a) None = Some m")
    case True
    then show ?thesis using deliver_fresh by auto
  next
    case False
    with Cons show ?thesis
      by (auto simp: Let_def closeMuxer_def split: option.splits if_splits prod.splits)
  qed
qed (simp add: closeMuxer_def)

lemma pull_closes: "snd (pull as r) = None"
  by (induction as arbitrary: r) (simp_all add: closeMuxer_def Let_def case_prod_unfold)

section \<open>The depacketiser callback\<close>

text \<open>
  \<open>OnPacketRTP\<close> after the library has produced an access unit: parameter sets seen before
  the first keyframe are kept, nothing is delivered until one with all three parameter
  sets known, and from then on the shared codec is never written.  \<open>is_ra\<close> is the
  library's \<open>h265.IsRandomAccess\<close>.
\<close>

record codec =
  VPS :: "byte list option"
  SPS :: "byte list option"
  PPS :: "byte list option"

record depay =
  dcodec :: codec
  gotKeyframe :: bool

definition nalu_type :: "byte list \<Rightarrow> nat" where
  "nalu_type n = unat ((drop_bit 1 (hd n)) AND 0x3f)"

definition note_params :: "byte list \<Rightarrow> codec \<Rightarrow> codec" where
  "note_params nalu c =
    (if length nalu < 2 then c
     else if nalu_type nalu = 32 then c\<lparr>VPS := Some nalu\<rparr>
     else if nalu_type nalu = 33 then c\<lparr>SPS := Some nalu\<rparr>
     else if nalu_type nalu = 34 then c\<lparr>PPS := Some nalu\<rparr> else c)"

definition haveParams :: "codec \<Rightarrow> bool" where
  "haveParams c \<longleftrightarrow> VPS c \<noteq> None \<and> SPS c \<noteq> None \<and> PPS c \<noteq> None"

definition on_access_unit ::
  "(byte list list \<Rightarrow> bool) \<Rightarrow> byte list list \<Rightarrow> depay \<Rightarrow> (codec \<times> byte list list) option \<times> depay" where
  "on_access_unit is_ra au d =
    (let c = (if gotKeyframe d then dcodec d else fold note_params au (dcodec d))
     in if \<not> gotKeyframe d \<and> \<not> (haveParams c \<and> is_ra au) then (None, d\<lparr>dcodec := c\<rparr>)
        else (Some (c, au), \<lparr>dcodec = c, gotKeyframe = True\<rparr>))"

fun depay_run ::
  "(byte list list \<Rightarrow> bool) \<Rightarrow> byte list list list \<Rightarrow> depay \<Rightarrow> (codec \<times> byte list list) list" where
  "depay_run is_ra [] d = []"
| "depay_run is_ra (au # aus) d = (case on_access_unit is_ra au d of
      (None, d') \<Rightarrow> depay_run is_ra aus d'
    | (Some out, d') \<Rightarrow> out # depay_run is_ra aus d')"

lemma depay_after_key:
  "gotKeyframe d \<Longrightarrow> depay_run is_ra aus d = map (\<lambda>au. (dcodec d, au)) aus"
proof (induction aus arbitrary: d)
  case (Cons au aus)
  have "depay_run is_ra aus \<lparr>dcodec = dcodec d, gotKeyframe = True\<rparr> = map (\<lambda>au. (dcodec d, au)) aus"
    using Cons.IH [of "\<lparr>dcodec = dcodec d, gotKeyframe = True\<rparr>"] by simp
  with Cons.prems show ?case by (simp add: on_access_unit_def Let_def)
qed simp

section \<open>Waiting for the muxer, and redacting the log\<close>

text \<open>
  The wait loop of \<open>serve\<close>: each wake-up re-reads the muxer; the list is what \<open>select\<close> picks
  and whether a muxer is there when it looks again.
\<close>

datatype wake = Ready bool | TimedOut | ClientGone

datatype served = Unavailable | Handled | NotReady | Abandoned | Waiting

fun serve_wait :: "bool \<Rightarrow> wake list \<Rightarrow> served" where
  "serve_wait True _ = Handled"
| "serve_wait False [] = Waiting"
| "serve_wait False (Ready m # ws) = serve_wait m ws"
| "serve_wait False (TimedOut # ws) = NotReady"
| "serve_wait False (ClientGone # ws) = Abandoned"

definition serve :: "string \<Rightarrow> (nat \<Rightarrow> bool) \<Rightarrow> wake list \<Rightarrow> streamHub \<Rightarrow> served" where
  "serve name has_muxer ws h = (case cams h name of
      None \<Rightarrow> Unavailable
    | Some cam \<Rightarrow> (case run cam of None \<Rightarrow> Unavailable | Some r \<Rightarrow> serve_wait (has_muxer r) ws))"

text \<open>\<open>parsed\<close> is \<open>url.Parse\<close>: \<open>None\<close> on an error or without user info, else host and password.\<close>

definition redactURL ::
  "(string \<Rightarrow> (string \<times> string option) option) \<Rightarrow> string \<Rightarrow> string \<Rightarrow> string" where
  "redactURL parsed msg rawURL = (case parsed rawURL of
      None \<Rightarrow> msg
    | Some (host, pw) \<Rightarrow>
        (let msg = replace_all rawURL host msg
         in case pw of None \<Rightarrow> msg
            | Some p \<Rightarrow> if p \<noteq> [] then replace_all p ''***'' msg else msg))"

section \<open>Properties\<close>

text \<open>
  C8: In every reachable state of the hub, under any interleaving of viewers, timers and shutdown, a
  camera has at most one live pull; one that is watched is pulled exactly once with no idle timer
  pending; one nobody watches is pulled only while a timer is armed or fired; a closed hub pulls
  nothing.
\<close>

theorem viewed_cameras_are_pulled_exactly_once:
  assumes "hub_reach sources h" "cams h name = Some cam"
  shows "viewers cam = int (holders name h)
    \<and> card (live_pulls name h) \<le> 1
    \<and> (holders name h > 0 \<and> \<not> closed h \<longrightarrow> (\<exists>r. run cam = Some r \<and> live_pulls name h = {r}) \<and> timers name h = {})
    \<and> (holders name h = 0 \<and> live_pulls name h \<noteq> {} \<longrightarrow> timers name h \<noteq> {} \<or> name \<in> set (fired h))
    \<and> (closed h \<longrightarrow> live_pulls name h = {})"
proof -
  have "cam_ok h name cam" using hub_ok_cam [OF hub_reach_ok [OF assms(1)] assms(2)] .
  then have v: "viewers cam = int (holders name h)" and l: "live_pulls name h = set_option (run cam)"
    and c: "if closed h then run cam = None
        else if viewers cam > 0 then run cam \<noteq> None \<and> idleTimer cam = None
        else run cam = None \<or> timers name h \<noteq> {} \<or> name \<in> set (fired h)"
    and t: "timers name h \<subseteq> set_option (idleTimer cam)"
    unfolding cam_ok_def cam_sane_def by blast+
  from v l c t show ?thesis by (cases "run cam") (auto split: if_splits)
qed

lemma idle_pull_is_stopped:
  assumes "hub_reach sources h" "cams h name = Some cam" "holders name h = 0" "name \<in> set (fired h)"
    and "h' = idle_callback name (h\<lparr>fired := remove1 name (fired h)\<rparr>)"
  shows "live_pulls name h' = {} \<and> (\<forall>cam'. cams h' name = Some cam' \<longrightarrow> run cam' = None)
    \<and> (\<forall>n. n \<noteq> name \<longrightarrow> cams h' n = cams h n \<and> live_pulls n h' = live_pulls n h)"
proof -
  have ok: "hub_ok h" by (rule hub_reach_ok [OF assms(1)])
  then have own: "viewers cam = 0" "live_pulls name h = set_option (run cam)"
    using hub_ok_cam [OF ok assms(2)] assms(3) by (auto simp: cam_ok_def cam_sane_def)
  have uniq: "(r, n) \<notin> pulls h" if "run cam = Some r" "n \<noteq> name" for r n
  proof -
    have "r \<in> live_pulls name h" using own that(1) by simp
    with hub_ok_ids(3) [OF ok, of r name n] that(2) show ?thesis by (auto simp: live_pulls_def)
  qed
  with own assms(2) show ?thesis
    unfolding assms(5) by (cases "run cam") (auto simp: idle_callback_def live_pulls_def)
qed

text \<open>
  C19: The wall-clock offset of a frame is the exact truncated conversion of its 90 kHz timestamp,
  in 64-bit arithmetic, for over two centuries of stream, while the naive formula is already wrong
  after 29 hours.
\<close>

theorem frame_time_exact_without_overflow:
  assumes "\<bar>rel\<bar> \<le> 800000000000000"
  shows "ntp_offset rel = (rel * second) sdiv h265ClockRate
    \<and> ntp_offset_naive (29 * 3600 * h265ClockRate) \<noteq> (29 * 3600 * h265ClockRate * second) sdiv h265ClockRate"
proof
  let ?s = "rel sdiv 90000" and ?f = "rel smod 90000"
  have s: "\<bar>?s\<bar> \<le> 8888888889"
    using assms by (auto simp: signed_divide_int_def abs_mult sgn_if abs_if split: if_splits)
  have f: "\<bar>?f\<bar> < 90000"
    using smod_int_range [of 90000 rel] by auto
  have "\<bar>?f * second\<bar> < 90000 * second" using f by (auto simp: abs_if split: if_splits)
  then have q: "\<bar>(?f * second) sdiv 90000\<bar> \<le> second"
    by (auto simp: signed_divide_int_def abs_mult sgn_if abs_if split: if_splits)
  have "wrap64 (?s * second) = ?s * second" "wrap64 (?f * second) = ?f * second"
    using s f by (auto intro!: wrap64_id simp: abs_if split: if_splits)
  moreover have "wrap64 (?s * second + (?f * second) sdiv 90000) = ?s * second + (?f * second) sdiv 90000"
    using s q by (intro wrap64_id) (auto simp: abs_if split: if_splits)
  ultimately show "ntp_offset rel = (rel * second) sdiv h265ClockRate"
    unfolding ntp_offset_def h265ClockRate_def Let_def
    by (simp only: sdiv_smod_split [of 90000 second rel])
  show "ntp_offset_naive (29 * 3600 * h265ClockRate) \<noteq> (29 * 3600 * h265ClockRate * second) sdiv h265ClockRate"
    by (simp add: ntp_offset_naive_def h265ClockRate_def wrap64_def signed_divide_int_def)
qed

lemma each_connection_has_its_own_timeline:
  "snd (pull as None) = None
   \<and> (\<forall>m \<in> set (fst (pull as None)). \<exists>a \<in> set as. anchored (units a) m)"
  using pull_closes pull_playlists by blast

text \<open>
  C20: The first access unit that reaches the muxer is a random access point with all three
  parameter sets known, and from then on every unit is delivered with the same codec value.
\<close>

theorem delivery_starts_at_a_keyframe_with_frozen_codec:
  assumes "depay_run is_ra aus \<lparr>dcodec = c0, gotKeyframe = False\<rparr> = out # outs"
  shows "\<exists>skipped au rest. aus = skipped @ au # rest
    \<and> out = (fold note_params (concat (skipped @ [au])) c0, au) \<and> is_ra au \<and> haveParams (fst out)
    \<and> outs = map (\<lambda>a. (fst out, a)) rest
    \<and> depay_run is_ra skipped \<lparr>dcodec = c0, gotKeyframe = False\<rparr> = []"
  using assms
proof (induction aus arbitrary: c0)
  case (Cons au aus)
  let ?c = "fold note_params au c0"
  show ?case
  proof (cases "haveParams ?c \<and> is_ra au")
    case True
    with Cons.prems have "out = (?c, au)" "outs = map (\<lambda>a. (?c, a)) aus"
      by (auto simp: on_access_unit_def Let_def depay_after_key)
    with True show ?thesis by (intro exI [of _ "[]"] exI [of _ au] exI [of _ aus]) simp
  next
    case False
    with Cons.prems have "depay_run is_ra aus \<lparr>dcodec = ?c, gotKeyframe = False\<rparr> = out # outs"
      by (auto simp: on_access_unit_def Let_def)
    from Cons.IH [OF this] obtain skipped k rest where
      "aus = skipped @ k # rest" "out = (fold note_params (concat (skipped @ [k])) ?c, k)" "is_ra k"
      "haveParams (fst out)" "outs = map (\<lambda>a. (fst out, a)) rest"
      "depay_run is_ra skipped \<lparr>dcodec = ?c, gotKeyframe = False\<rparr> = []" by blast
    with False show ?thesis
      by (intro exI [of _ "au # skipped"] exI [of _ k] exI [of _ rest])
        (simp add: on_access_unit_def Let_def)
  qed
qed simp

section \<open>Witnesses\<close>

definition one_cam :: streamHub where
  "one_cam = snd (acquire ''yard'' (NewStreamHub {''yard''}))"

lemma one_cam_reach: "hub_reach {''yard''} one_cam"
  unfolding one_cam_def by (rule hub_reach.Step [OF hub_reach.Start hub_step.Acquire])

lemma one_cam_eq: "one_cam = \<lparr>cams = [''yard'' \<mapsto> \<lparr>viewers = 1, idleTimer = None, run = Some 0\<rparr>],
   closed = False, held = [(1, ''yard'')], armed = {}, fired = [], pulls = {(0, ''yard'')},
   cancelled = {}, fresh = 2\<rparr>"
  by (auto simp: one_cam_def acquire_def NewStreamHub_def Let_def startLocked_def put_cam_def
      stop_timer_def)

theorem viewed_cameras_are_pulled_exactly_once_witness:
  "\<exists>r. live_pulls ''yard'' one_cam = {r}"
proof -
  have "cams one_cam ''yard'' = Some \<lparr>viewers = 1, idleTimer = None, run = Some 0\<rparr>"
    by (simp add: one_cam_eq)
  from viewed_cameras_are_pulled_exactly_once [OF one_cam_reach this]
  show ?thesis by (auto simp: one_cam_eq holders_def)
qed

definition idle_cam :: streamHub where
  "idle_cam = (let h = release_once (1, ''yard'') one_cam
     in h\<lparr>armed := armed h - {(2, ''yard'')}, fired := ''yard'' # fired h\<rparr>)"

lemma idle_cam_reach: "hub_reach {''yard''} idle_cam"
proof -
  have "hub_reach {''yard''} (release_once (1, ''yard'') one_cam)"
    by (rule hub_reach.Step [OF one_cam_reach hub_step.Release])
  moreover have "(2, ''yard'') \<in> armed (release_once (1, ''yard'') one_cam)"
    by (simp add: one_cam_eq release_once_def release_def Let_def)
  ultimately show ?thesis unfolding idle_cam_def Let_def by (blast intro: hub_reach.Step hub_step.Fire)
qed

lemma idle_pull_is_stopped_witness:
  "live_pulls ''yard'' (idle_callback ''yard'' (idle_cam\<lparr>fired := remove1 ''yard'' (fired idle_cam)\<rparr>)) = {}"
proof -
  have "cams idle_cam ''yard'' = Some \<lparr>viewers = 0, idleTimer = Some 2, run = Some 0\<rparr>"
    "holders ''yard'' idle_cam = 0" "''yard'' \<in> set (fired idle_cam)"
    by (simp_all add: idle_cam_def one_cam_eq release_once_def release_def Let_def holders_def)
  from idle_pull_is_stopped [OF idle_cam_reach this refl] show ?thesis by simp
qed

theorem frame_time_exact_without_overflow_witness:
  "ntp_offset 10000000000 = (10000000000 * second) sdiv h265ClockRate"
  using frame_time_exact_without_overflow [of 10000000000] by simp

lemma each_connection_has_its_own_timeline_witness:
  "fst (pull [\<lparr>units = [(True, True, 5, 100)], ctx_done = False\<rparr>, \<lparr>units = [(True, True, 9, 7)], ctx_done = True\<rparr>] None)
     = [\<lparr>startPTS = 100, startWall = 5, written = [(0, 5)]\<rparr>, \<lparr>startPTS = 7, startWall = 9, written = [(0, 9)]\<rparr>]
   \<and> snd (pull [] None) = None"
  using each_connection_has_its_own_timeline [of "[]"]
  by (simp add: write_au_def closeMuxer_def ntp_offset_def h265ClockRate_def wrap64_def)

definition keyframe :: "byte list list" where
  "keyframe = [[64, 1], [66, 1], [68, 1], [38, 1]]"

theorem delivery_starts_at_a_keyframe_with_frozen_codec_witness:
  "\<exists>skipped au rest. [[[2, 1]], keyframe, [[2, 1]]] = skipped @ au # rest \<and> au = keyframe
     \<and> depay_run (\<lambda>au. length au > 3) skipped
         \<lparr>dcodec = \<lparr>VPS = None, SPS = None, PPS = None\<rparr>, gotKeyframe = False\<rparr> = []"
proof -
  let ?d = "\<lparr>dcodec = \<lparr>VPS = None, SPS = None, PPS = None\<rparr>, gotKeyframe = False\<rparr>"
  have "\<exists>c. depay_run (\<lambda>au. length au > 3) [[[2, 1]], keyframe, [[2, 1]]] ?d = [(c, keyframe), (c, [[2, 1]])]"
    by (simp add: on_access_unit_def Let_def note_params_def nalu_type_def keyframe_def haveParams_def)
  then obtain c where
    "depay_run (\<lambda>au. length au > 3) [[[2, 1]], keyframe, [[2, 1]]] ?d = [(c, keyframe), (c, [[2, 1]])]" by blast
  from delivery_starts_at_a_keyframe_with_frozen_codec [OF this] show ?thesis by auto
qed

end
