(* ===== verification/Throttle.thy ===== *)
theory Throttle
  imports GoLib
begin

text \<open>
  Rate limiting by key, the pattern behind the session log of \<open>streamapi.go\<close> and the
  debounce of \<open>bell.go\<close>: an event passes unless one with its key passed less than a period
  ago.  The locale states what such a step is; both programs' steps are interpreted as one.
\<close>

definition throttle :: "duration \<Rightarrow> instant \<Rightarrow> 'k \<Rightarrow> ('k \<rightharpoonup> instant) \<Rightarrow> bool \<times> ('k \<rightharpoonup> instant)" where
  "throttle period now k seen =
    (let pass = (case seen k of None \<Rightarrow> True | Some prev \<Rightarrow> period \<le> time_sub now prev)
     in (pass, if pass then seen(k \<mapsto> now) else seen))"

fun accepted :: "(instant \<Rightarrow> 'a \<Rightarrow> 's \<Rightarrow> bool \<times> 's) \<Rightarrow> (instant \<times> 'a) list \<Rightarrow> 's \<Rightarrow> (instant \<times> 'a) list" where
  "accepted step [] s = []"
| "accepted step ((t, x) # xs) s = (case step t x s of
      (b, s') \<Rightarrow> if b then (t, x) # accepted step xs s' else accepted step xs s')"

lemma time_sub_mono: "a \<le> b \<Longrightarrow> time_sub a c \<le> time_sub b c"
  by (auto simp: time_sub_def)

locale throttled =
  fixes step :: "instant \<Rightarrow> 'a \<Rightarrow> ('k \<rightharpoonup> instant) \<Rightarrow> bool \<times> ('k \<rightharpoonup> instant)"
    and key :: "'a \<Rightarrow> 'k"
    and period :: duration
    and valid :: "instant \<Rightarrow> bool"
  assumes step_throttle: "valid now \<Longrightarrow> step now x seen = throttle period now (key x) seen"
    and period_pos: "0 < period"
begin

definition spaced :: "instant \<times> 'a \<Rightarrow> instant \<times> 'a \<Rightarrow> bool" where
  "spaced x y \<longleftrightarrow> (key (snd x) = key (snd y) \<longrightarrow> period \<le> time_sub (fst y) (fst x))"

lemma accepted_spaced:
  assumes "sorted (map fst xs)" "\<forall>x \<in> set xs. valid (fst x)"
  shows "sorted_wrt spaced (accepted step xs seen)
    \<and> (\<forall>x \<in> set (accepted step xs seen). \<forall>prev. seen (key (snd x)) = Some prev
         \<longrightarrow> (\<forall>y \<in> set xs. prev \<le> fst y) \<longrightarrow> period \<le> time_sub (fst x) prev)
    \<and> set (accepted step xs seen) \<subseteq> set xs"
  using assms
proof (induction xs arbitrary: seen)
  case (Cons tx xs)
  obtain t x where tx: "tx = (t, x)" by (cases tx)
  have st: "step t x seen = throttle period t (key x) seen" using Cons.prems(2) by (simp add: tx step_throttle)
  show ?case
  proof (cases "case seen (key x) of None \<Rightarrow> True | Some prev \<Rightarrow> period \<le> time_sub t prev")
    case False
    then have "accepted step (tx # xs) seen = accepted step xs seen" by (simp add: tx st throttle_def Let_def)
    with Cons show ?thesis by auto
  next
    case True
    define seen2 where "seen2 = seen(key x \<mapsto> t)"
    have at: "seen2 (key x) = Some t" "\<And>k. k \<noteq> key x \<Longrightarrow> seen2 k = seen k" by (simp_all add: seen2_def)
    have eq: "accepted step (tx # xs) seen = tx # accepted step xs seen2"
      using True by (simp add: tx st throttle_def Let_def seen2_def)
    have IH: "sorted_wrt spaced (accepted step xs seen2)"
      "\<And>y prev. y \<in> set (accepted step xs seen2) \<Longrightarrow> seen2 (key (snd y)) = Some prev
         \<Longrightarrow> \<forall>z \<in> set xs. prev \<le> fst z \<Longrightarrow> period \<le> time_sub (fst y) prev"
      "set (accepted step xs seen2) \<subseteq> set xs"
      using Cons.IH [of seen2] Cons.prems by auto
    have later: "\<forall>z \<in> set xs. t \<le> fst z" using Cons.prems by (auto simp: tx)
    have sp: "spaced tx y" if "y \<in> set (accepted step xs seen2)" for y
      using IH(2) [OF that, of t] later at(1) by (auto simp: spaced_def tx)
    have old: "period \<le> time_sub (fst y) prev"
      if "y \<in> set (tx # accepted step xs seen2)" "seen (key (snd y)) = Some prev" "\<forall>z \<in> set (tx # xs). prev \<le> fst z" for y prev
    proof (cases "key (snd y) = key x")
      case k: True
      with that(2) True have "period \<le> time_sub t prev" by simp
      moreover have "t \<le> fst y" using that(1) IH(3) later by (auto simp: tx)
      ultimately show ?thesis using time_sub_mono order_trans by blast
    next
      case False
      then have "y \<in> set (accepted step xs seen2)" using that(1) by (auto simp: tx)
      with that(2,3) IH(2) [of y prev] at(2) [OF False] show ?thesis by simp
    qed
    show ?thesis unfolding eq using IH sp old by auto
  qed
qed simp

lemma accepted_covers:
  assumes "x \<in> set xs" "\<forall>x \<in> set xs. valid (fst x)"
  shows "\<exists>prev. (\<exists>y \<in> set (accepted step xs seen). key (snd y) = key (snd x) \<and> fst y = prev)
      \<and> time_sub (fst x) prev < period
    \<or> seen (key (snd x)) = Some prev \<and> time_sub (fst x) prev < period"
  using assms
proof (induction xs arbitrary: seen)
  case (Cons tz xs)
  obtain t z where tz: "tz = (t, z)" by (cases tz)
  have st: "step t z seen = throttle period t (key z) seen" using Cons.prems(2) by (simp add: tz step_throttle)
  show ?case
  proof (cases "case seen (key z) of None \<Rightarrow> True | Some prev \<Rightarrow> period \<le> time_sub t prev")
    case False
    then have "accepted step (tz # xs) seen = accepted step xs seen" by (simp add: tz st throttle_def Let_def)
    with Cons False show ?thesis by (auto simp: tz split: option.splits)
  next
    case True
    define seen2 where "seen2 = seen(key z \<mapsto> t)"
    have at: "seen2 (key z) = Some t" "\<And>k. k \<noteq> key z \<Longrightarrow> seen2 k = seen k" by (simp_all add: seen2_def)
    have eq: "accepted step (tz # xs) seen = tz # accepted step xs seen2"
      using True by (simp add: tz st throttle_def Let_def seen2_def)
    show ?thesis
    proof (cases "x = tz")
      case True
      have "time_sub (fst x) (fst x) < period" using period_pos by (simp add: time_sub_def)
      then show ?thesis unfolding eq using True by auto
    next
      case False
      with Cons.prems Cons.IH [of seen2] obtain prev where
        "(\<exists>y \<in> set (accepted step xs seen2). key (snd y) = key (snd x) \<and> fst y = prev)
           \<and> time_sub (fst x) prev < period
         \<or> seen2 (key (snd x)) = Some prev \<and> time_sub (fst x) prev < period" by auto
      then show ?thesis unfolding eq
        by (cases "key (snd x) = key z") (use at tz in auto)
    qed
  qed
qed simp

text \<open>What passes is at least a period apart, and what does not is covered by what did.\<close>

lemma accepted_throttled:
  assumes "sorted (map fst xs)" "\<forall>x \<in> set xs. valid (fst x)"
  shows "sorted_wrt (\<lambda>x y. key (snd x) = key (snd y) \<longrightarrow> period \<le> time_sub (fst y) (fst x)) (accepted step xs Map.empty)
    \<and> (\<forall>x \<in> set xs. \<exists>y \<in> set (accepted step xs Map.empty).
          key (snd y) = key (snd x) \<and> time_sub (fst x) (fst y) < period)"
  using accepted_spaced [OF assms, of Map.empty] accepted_covers [OF _ assms(2), of _ Map.empty]
  by (fastforce simp: spaced_def [abs_def])

end

end
