(* ===== verification/StreamApi.thy ===== *)
theory StreamApi
  imports GuestApi StreamHub StreamSign Throttle
begin

text \<open>
  \<open>streamapi.go\<close>: the guests' camera routes.  \<open>session\<close> exchanges a device token for a
  signed, expiring URL; \<open>hls\<close> serves playlists and segments to whoever carries the signed
  token, and stamps it on every URI of a playlist.  The HLS handler behind a running pull
  (\<open>gohlslib\<close>) is the record \<open>player\<close>: path and query to status, headers and body.
\<close>

section \<open>Signing the URIs of a playlist\<close>

definition addQuery :: "string \<Rightarrow> string \<Rightarrow> string" where
  "addQuery uri sig = uri @ (if CHR ''?'' \<in> set uri then ''&'' else ''?'') @ ''s='' @ query_escape sig"

text \<open>
  \<open>tagURIAttr.ReplaceAllStringFunc\<close> for the pattern \<open>URI="([^"]*)"\<close>: leftmost matches, left
  to right.  The quote is \<open>CHR 0x22\<close>.
\<close>

definition uri_attr :: string where
  "uri_attr = ''URI='' @ [CHR 0x22]"

function replace_uris :: "(string \<Rightarrow> string) \<Rightarrow> string \<Rightarrow> string" where
  "replace_uris f s = (case s of
      [] \<Rightarrow> []
    | c # r \<Rightarrow>
        if prefix uri_attr s \<and> CHR 0x22 \<in> set (drop 5 s) then
          (let u = takeWhile (\<lambda>x. x \<noteq> CHR 0x22) (drop 5 s)
           in uri_attr @ f u @ CHR 0x22 # replace_uris f (drop (6 + length u) s))
        else c # replace_uris f r)"
  by pat_completeness auto
termination by (relation "measure (\<lambda>(f, s). length s)") auto

function tag_uris :: "string \<Rightarrow> string list" where
  "tag_uris s = (case s of
      [] \<Rightarrow> []
    | c # r \<Rightarrow>
        if prefix uri_attr s \<and> CHR 0x22 \<in> set (drop 5 s) then
          (let u = takeWhile (\<lambda>x. x \<noteq> CHR 0x22) (drop 5 s)
           in u # tag_uris (drop (6 + length u) s))
        else tag_uris r)"
  by pat_completeness auto
termination by (relation "measure length") auto

declare replace_uris.simps [simp del] tag_uris.simps [simp del]

definition is_tag :: "string \<Rightarrow> bool" where
  "is_tag line \<longleftrightarrow> prefix ''#'' line"

definition strip_cr :: "string \<Rightarrow> string" where
  "strip_cr line = trim_right_set {CHR 0x0D} line"

definition sign_line :: "string \<Rightarrow> string \<Rightarrow> string" where
  "sign_line sig line =
    (if is_tag line then replace_uris (\<lambda>u. addQuery u sig) line
     else if trim_space line \<noteq> [] then
       addQuery (strip_cr line) sig @ drop (length (strip_cr line)) line
     else line)"

definition signPlaylistURIs :: "string \<Rightarrow> string \<Rightarrow> string" where
  "signPlaylistURIs playlist sig =
     join [CHR 0x0A] (map (sign_line sig) (split_on CHR 0x0A playlist))"

text \<open>What a player sees: the URIs of a playlist, in order.\<close>

definition line_uris :: "string \<Rightarrow> string list" where
  "line_uris line = (if is_tag line then tag_uris line
     else if trim_space line \<noteq> [] then [strip_cr line] else [])"

definition playlist_uris :: "string \<Rightarrow> string list" where
  "playlist_uris playlist = concat (map line_uris (split_on CHR 0x0A playlist))"

lemma query_escape_chars:
  "c \<in> set (query_escape s) \<Longrightarrow> url_safe c \<or> c = CHR ''+'' \<or> c = CHR ''%'' \<or> is_digit c \<or> 65 \<le> ord c \<and> ord c \<le> 70"
proof -
  have hex: "is_digit (upper_hex_char n) \<or> 65 \<le> ord (upper_hex_char n) \<and> ord (upper_hex_char n) \<le> 70"
    if "n < 16" for n
    using that by (auto simp: upper_hex_char_def is_digit_def)
  have small: "ord x div 16 < 16" "ord x mod 16 < 16" for x
    by (simp_all add: less_mult_imp_div_less)
  show "c \<in> set (query_escape s) \<Longrightarrow> ?thesis"
    by (induction s) (use hex [OF small(1)] hex [OF small(2)] in
      \<open>auto simp: query_escape_def split: if_splits\<close>)
qed

lemma query_escape_plain:
  "c \<in> set (query_escape s) \<Longrightarrow> c \<noteq> CHR 0x22 \<and> c \<noteq> CHR 0x0A \<and> c \<noteq> CHR 0x0D"
  using query_escape_chars [of c s] by (auto simp: url_safe_def is_digit_def)

lemma addQuery_chars:
  "d \<in> {CHR 0x22, CHR 0x0A, CHR 0x0D} \<Longrightarrow> d \<in> set (addQuery u sig) \<longleftrightarrow> d \<in> set u"
  using query_escape_plain by (auto simp: addQuery_def)

section \<open>Replacing keeps the shape of a line\<close>

lemma takeWhile_quote:
  "CHR 0x22 \<notin> set u \<Longrightarrow> takeWhile (\<lambda>x. x \<noteq> CHR 0x22) (u @ CHR 0x22 # r) = u"
  by (induction u) auto

lemma attr_parts:
  assumes "CHR 0x22 \<notin> set u"
  shows "prefix uri_attr (uri_attr @ u @ CHR 0x22 # r)"
    "CHR 0x22 \<in> set (drop 5 (uri_attr @ u @ CHR 0x22 # r))"
    "takeWhile (\<lambda>x. x \<noteq> CHR 0x22) (drop 5 (uri_attr @ u @ CHR 0x22 # r)) = u"
    "drop (6 + length u) (uri_attr @ u @ CHR 0x22 # r) = r"
    "uri_attr @ u @ CHR 0x22 # r \<noteq> []"
  using takeWhile_quote [OF assms, of r] by (simp_all add: uri_attr_def eval_nat_numeral)

lemma replace_uris_hit:
  "CHR 0x22 \<notin> set u \<Longrightarrow> replace_uris f (uri_attr @ u @ CHR 0x22 # r) = uri_attr @ f u @ CHR 0x22 # replace_uris f r"
  by (subst replace_uris.simps) (simp only: attr_parts simp_thms if_True Let_def split: list.split)

lemma tag_uris_hit:
  "CHR 0x22 \<notin> set u \<Longrightarrow> tag_uris (uri_attr @ u @ CHR 0x22 # r) = u # tag_uris r"
  by (subst tag_uris.simps) (simp only: attr_parts simp_thms if_True Let_def split: list.split)

lemma no_hit_iff:
  "prefix uri_attr s \<and> CHR 0x22 \<in> set (drop 5 s)
     \<longleftrightarrow> (\<exists>u r. CHR 0x22 \<notin> set u \<and> s = uri_attr @ u @ CHR 0x22 # r)"
proof
  assume l: "prefix uri_attr s \<and> CHR 0x22 \<in> set (drop 5 s)"
  then obtain t where t: "s = uri_attr @ t" by (auto simp: prefix_def)
  with l have "CHR 0x22 \<in> set t" by (simp add: uri_attr_def)
  then obtain u r where "t = u @ CHR 0x22 # r" "CHR 0x22 \<notin> set u" by (meson split_list_first)
  with t show "\<exists>u r. CHR 0x22 \<notin> set u \<and> s = uri_attr @ u @ CHR 0x22 # r" by blast
qed (auto simp: uri_attr_def)

lemma replace_uris_miss:
  "\<not> (prefix uri_attr (c # s) \<and> CHR 0x22 \<in> set (drop 5 (c # s))) \<Longrightarrow>
     replace_uris f (c # s) = c # replace_uris f s"
  by (subst replace_uris.simps) auto

lemma tag_uris_miss:
  "\<not> (prefix uri_attr (c # s) \<and> CHR 0x22 \<in> set (drop 5 (c # s))) \<Longrightarrow> tag_uris (c # s) = tag_uris s"
  by (subst tag_uris.simps) auto

lemma replace_uris_Nil [simp]: "replace_uris f [] = []"
  by (subst replace_uris.simps) simp

lemma tag_uris_Nil [simp]: "tag_uris [] = []"
  by (subst tag_uris.simps) simp

text \<open>Case analysis on the scanner: a match, or one character passed over.\<close>

lemma scan_induct [case_names Nil Hit Miss]:
  assumes "P []"
    and hit: "\<And>u r. CHR 0x22 \<notin> set u \<Longrightarrow> P r \<Longrightarrow> P (uri_attr @ u @ CHR 0x22 # r)"
    and miss: "\<And>c r. \<not> (prefix uri_attr (c # r) \<and> CHR 0x22 \<in> set (drop 5 (c # r))) \<Longrightarrow> P r \<Longrightarrow> P (c # r)"
  shows "P s"
proof (induction s rule: length_induct)
  case (1 s)
  show ?case
  proof (cases "prefix uri_attr s \<and> CHR 0x22 \<in> set (drop 5 s)")
    case True
    then obtain u r where u: "CHR 0x22 \<notin> set u" "s = uri_attr @ u @ CHR 0x22 # r"
      unfolding no_hit_iff by blast
    with 1 have "P r" by simp
    with hit u show ?thesis by simp
  next
    case False
    with 1 miss assms(1) show ?thesis by (cases s) auto
  qed
qed

lemma take4_of_take5: "take 5 x = take 5 y \<Longrightarrow> take 4 x = take (4::nat) y"
proof -
  assume "take 5 x = take 5 y"
  then have "take 4 (take 5 x) = take 4 (take 5 y)" by simp
  then show ?thesis by (simp only: take_take) simp
qed

lemma prefix_attr_take: "prefix uri_attr x \<longleftrightarrow> take 5 x = uri_attr"
proof -
  have "length uri_attr = 5" by (simp add: uri_attr_def)
  then show ?thesis by (metis append_eq_conv_conj prefix_def take_is_prefix)
qed

lemma replace_uris_take5: "take 5 (replace_uris f s) = take 5 s"
proof (induction s rule: scan_induct)
  case (Hit u r)
  then show ?case by (simp add: replace_uris_hit) (simp add: uri_attr_def)
next
  case (Miss c r)
  have "take 4 (replace_uris f r) = take 4 r" using Miss by (intro take4_of_take5)
  with Miss show ?case by (simp add: replace_uris_miss)
qed simp

lemma replace_uris_id:
  "CHR 0x22 \<notin> set (drop 4 s) \<Longrightarrow> replace_uris f s = s"
proof (induction s rule: scan_induct)
  case (Hit u r)
  then show ?case by (simp add: uri_attr_def)
next
  case (Miss c r)
  then have "CHR 0x22 \<notin> set (drop 3 r)" by simp
  then have "CHR 0x22 \<notin> set (drop 4 r)" using set_drop_subset_set_drop [of 3 4 r] by auto
  with Miss show ?case by (simp add: replace_uris_miss)
qed simp

lemma tag_uris_replace:
  assumes "\<And>u. CHR 0x22 \<notin> set u \<Longrightarrow> CHR 0x22 \<notin> set (f u)"
  shows "tag_uris (replace_uris f s) = map f (tag_uris s)"
proof (induction s rule: scan_induct)
  case (Hit u r)
  then show ?case by (simp add: replace_uris_hit tag_uris_hit assms)
next
  case (Miss c r)
  have "\<not> (prefix uri_attr (c # replace_uris f r) \<and> CHR 0x22 \<in> set (drop 5 (c # replace_uris f r)))"
  proof
    assume h: "prefix uri_attr (c # replace_uris f r) \<and> CHR 0x22 \<in> set (drop 5 (c # replace_uris f r))"
    have "take 4 (replace_uris f r) = take 4 r"
      by (intro take4_of_take5 replace_uris_take5)
    then have "take 5 (c # replace_uris f r) = take 5 (c # r)" by simp
    then have "prefix uri_attr (c # r)" using h by (simp only: prefix_attr_take)
    with Miss have "CHR 0x22 \<notin> set (drop 4 r)" by simp
    then have "replace_uris f r = r" by (rule replace_uris_id)
    with h Miss show False by simp
  qed
  with Miss show ?case by (simp add: replace_uris_miss tag_uris_miss)
qed simp

lemma replace_uris_no_newline:
  assumes "\<And>u. CHR 0x0A \<notin> set u \<Longrightarrow> CHR 0x0A \<notin> set (f u)"
  shows "CHR 0x0A \<notin> set s \<Longrightarrow> CHR 0x0A \<notin> set (replace_uris f s)"
proof (induction s rule: scan_induct)
  case (Hit u r)
  then show ?case by (simp add: replace_uris_hit assms)
next
  case (Miss c r)
  then show ?case by (simp add: replace_uris_miss)
qed simp

lemma is_tag_iff: "is_tag l \<longleftrightarrow> l \<noteq> [] \<and> hd l = CHR ''#''"
  by (cases l) (auto simp: is_tag_def)

lemma strip_cr_split: "\<exists>t. line = strip_cr line @ t \<and> set t \<subseteq> {CHR 0x0D}"
  using trim_right_set_prefix [of line "{CHR 0x0D}"] by (simp add: strip_cr_def)

lemma sign_line_no_newline: "CHR 0x0A \<notin> set line \<Longrightarrow> CHR 0x0A \<notin> set (sign_line sig line)"
proof -
  assume n: "CHR 0x0A \<notin> set line"
  obtain t where t: "line = strip_cr line @ t" using strip_cr_split by blast
  then have "CHR 0x0A \<notin> set (strip_cr line)" using n by (metis UnCI set_append)
  moreover have "CHR 0x0A \<notin> set (drop k line)" for k using n by (meson in_set_dropD)
  ultimately show ?thesis
    using n by (simp add: sign_line_def replace_uris_no_newline addQuery_chars)
qed

lemma line_uris_sign_line:
  "line_uris (sign_line sig line) = map (\<lambda>u. addQuery u sig) (line_uris line)"
proof (cases "is_tag line")
  case True
  have "take 1 (replace_uris (\<lambda>u. addQuery u sig) line) = take 1 line"
    using arg_cong [OF replace_uris_take5, of "take 1" "\<lambda>u. addQuery u sig" line] by simp
  with True have "is_tag (sign_line sig line)"
    by (cases line; cases "replace_uris (\<lambda>u. addQuery u sig) line") (auto simp: sign_line_def is_tag_def)
  with True show ?thesis
    by (simp add: line_uris_def sign_line_def tag_uris_replace addQuery_chars)
next
  case False
  show ?thesis
  proof (cases "trim_space line = []")
    case True
    with False show ?thesis by (simp add: line_uris_def sign_line_def)
  next
    case nonblank: False
    obtain t where t: "line = strip_cr line @ t" "set t \<subseteq> {CHR 0x0D}" using strip_cr_split by blast
    have ne: "strip_cr line \<noteq> []"
    proof
      assume "strip_cr line = []"
      with t have "set line \<subseteq> {CHR 0x0D}" by simp
      with trim_space_blank nonblank show False by blast
    qed
    have out: "sign_line sig line = addQuery (strip_cr line) sig @ t"
      using False nonblank t(1) unfolding sign_line_def by (metis append_eq_conv_conj)
    have "\<not> is_tag (sign_line sig line)"
    proof -
      have "hd line = hd (strip_cr line)" "line \<noteq> []" using t(1) ne by (metis hd_append2, force)
      with False ne show ?thesis unfolding out addQuery_def by (simp add: is_tag_iff)
    qed
    moreover have "CHR ''='' \<in> set (trim_space (sign_line sig line))"
      unfolding trim_space_keeps [of "CHR ''=''", simplified graphic_def, simplified]
      by (simp add: out addQuery_def)
    then have "trim_space (sign_line sig line) \<noteq> []" by auto
    moreover have "strip_cr (sign_line sig line) = addQuery (strip_cr line) sig"
    proof -
      have "last (addQuery (strip_cr line) sig) \<in> set (''s='' @ query_escape sig)"
        unfolding addQuery_def by (simp add: last_append)
      then have "last (addQuery (strip_cr line) sig) \<noteq> CHR 0x0D"
        using query_escape_plain by fastforce
      then show ?thesis
        unfolding out strip_cr_def trim_right_set_append [OF t(2)] by (intro trim_right_set_id) simp
    qed
    ultimately show ?thesis using False nonblank by (simp add: line_uris_def)
  qed
qed

lemma playlist_uris_signed:
  "playlist_uris (signPlaylistURIs playlist sig) = map (\<lambda>u. addQuery u sig) (playlist_uris playlist)"
proof -
  let ?ls = "split_on CHR 0x0A playlist"
  have "split_on CHR 0x0A (signPlaylistURIs playlist sig) = map (sign_line sig) ?ls"
    unfolding signPlaylistURIs_def
  proof (rule split_on_join)
    show "\<forall>p \<in> set (map (sign_line sig) ?ls). CHR 0x0A \<notin> set p"
    proof
      fix p assume "p \<in> set (map (sign_line sig) ?ls)"
      then obtain l where "l \<in> set ?ls" "p = sign_line sig l" by auto
      then show "CHR 0x0A \<notin> set p" using sign_line_no_newline [OF split_on_no_sep] by blast
    qed
  qed simp
  then show ?thesis
    by (simp add: playlist_uris_def line_uris_sign_line map_concat comp_def)
qed

section \<open>The two routes\<close>

definition streamSessionTTL :: duration where
  "streamSessionTTL = 15 * minute"

definition minStreamSecretLen :: nat where
  "minStreamSecretLen = 32"

record stream_api =
  sstore :: guest_store
  saudit :: audit_store
  lastLoggedAt :: "string \<rightharpoonup> instant"
  hub :: streamHub

definition NewStreamAPI ::
  "guest_store \<Rightarrow> streamHub \<Rightarrow> string \<Rightarrow> audit_store \<Rightarrow> stream_api option" where
  "NewStreamAPI st h secret au =
    (if length secret < minStreamSecretLen then None
     else Some \<lparr>sstore = st, saudit = au, lastLoggedAt = Map.empty, hub = h\<rparr>)"

definition record_cam :: "api_env \<Rightarrow> http_request \<Rightarrow> auditEvent \<Rightarrow> stream_api \<Rightarrow> stream_api" where
  "record_cam env r e st =
     st\<lparr>saudit := snd (Log (e_audit_ok env) (stamp env r (e\<lparr>Action := ''cam''\<rparr>)) (saudit st))\<rparr>"

definition shouldLogSession ::
  "instant \<Rightarrow> string \<Rightarrow> string \<Rightarrow> (string \<rightharpoonup> instant) \<Rightarrow> bool \<times> (string \<rightharpoonup> instant)" where
  "shouldLogSession now guestID camera seen =
    (let key = guestID @ ''/'' @ camera in
     case seen key of
       Some prev \<Rightarrow> if time_sub now prev < streamSessionTTL then (False, seen) else (True, seen(key \<mapsto> now))
     | None \<Rightarrow> (True, seen(key \<mapsto> now)))"

text \<open>\<open>now\<close> is the handler's \<open>time.Now\<close>, \<open>e_now2 env\<close> the clock of the throttle.\<close>

definition session ::
  "(string \<Rightarrow> string) \<Rightarrow> (string \<Rightarrow> string \<Rightarrow> string) \<Rightarrow> string \<Rightarrow> instant \<Rightarrow> api_env
     \<Rightarrow> string \<Rightarrow> http_request \<Rightarrow> stream_api \<Rightarrow> http_response \<times> stream_api" where
  "session h hmac secret now env camera r st =
    (let (token, hasBearer) = bearer r;
         (who, store') = Authenticate h (e_now env) (e_saved env) token (sstore st);
         st = st\<lparr>sstore := store'\<rparr>
     in case (hasBearer, who) of
          (True, Some g) \<Rightarrow>
            (case Handler camera (hub st) of
               (False, hb) \<Rightarrow> (respond 404 (Text ''404 page not found''), st\<lparr>hub := hb\<rparr>)
             | (True, hb) \<Rightarrow>
                 let st = st\<lparr>hub := hb\<rparr>;
                     exp = now + streamSessionTTL;
                     (logit, seen) = shouldLogSession (e_now2 env) (ID g) camera (lastLoggedAt st);
                     st = st\<lparr>lastLoggedAt := seen\<rparr>;
                     st = (if logit then record_cam env r (event [] ''success'' (ID g) (Label g)) st else st)
                 in (respond 200 (SessionBody
                       (''/guest/cam/'' @ camera @ ''/hls/index.m3u8?s='' @ query_escape (signStream hmac secret camera exp))
                       (unix exp)), st))
        | _ \<Rightarrow> (respond 401 (Text ''unauthorized''),
                record_cam env r (event [] ''denied'' [] ''unknown'') st))"

text \<open>The query is the list of its pairs; a playlist reply also says what the player sees.\<close>

type_synonym query = "(string \<times> string) list"

record hls_reply =
  code :: nat
  headers :: "(string \<times> string) list"
  content :: string

definition query_get :: "query \<Rightarrow> string \<Rightarrow> string" where
  "query_get q k = (case map_of q k of None \<Rightarrow> [] | Some v \<Rightarrow> v)"

definition query_del :: "query \<Rightarrow> string \<Rightarrow> query" where
  "query_del q k = filter (\<lambda>p. fst p \<noteq> k) q"

definition header_set :: "string \<Rightarrow> string \<Rightarrow> (string \<times> string) list \<Rightarrow> (string \<times> string) list" where
  "header_set k v hs = (k, v) # filter (\<lambda>p. fst p \<noteq> k) hs"

text \<open>\<open>http.Error\<close>: the headers it sets and the line it writes.\<close>

definition http_error :: "nat \<Rightarrow> string \<Rightarrow> hls_reply" where
  "http_error c msg = \<lparr>code = c,
     headers = [(''Content-Type'', ''text/plain; charset=utf-8''), (''X-Content-Type-Options'', ''nosniff'')],
     content = msg @ [CHR 0x0A]\<rparr>"

text \<open>
  The HLS muxer of the pull (\<open>gohlslib\<close>) and the wait for it: what \<open>Handle\<close> answers, whether the pull
  has a muxer when the request looks, and what each \<open>select\<close> picks before the timer of
  \<open>muxerWaitTimeout\<close> fires.
\<close>

record player =
  pl_reply :: "string \<Rightarrow> query \<Rightarrow> hls_reply"
  pl_muxer :: "nat \<Rightarrow> bool"
  pl_wakes :: "wake list"

fun served_reply :: "served \<Rightarrow> hls_reply \<Rightarrow> hls_reply" where
  "served_reply Handled reply = reply"
| "served_reply Unavailable _ = http_error 503 ''stream unavailable''"
| "served_reply NotReady _ = http_error 503 ''stream not ready''"
| "served_reply Abandoned _ = \<lparr>code = 200, headers = [], content = []\<rparr>"
| "served_reply Waiting _ = \<lparr>code = 200, headers = [], content = []\<rparr>"

text \<open>The handler \<open>Handler\<close> returns: the request is a viewer of its own while it is served.\<close>

definition serve_viewer :: "player \<Rightarrow> string \<Rightarrow> string \<Rightarrow> query \<Rightarrow> streamHub \<Rightarrow> hls_reply \<times> streamHub" where
  "serve_viewer pl camera path q hb = (case acquire camera hb of
      (None, hb') \<Rightarrow> (http_error 503 ''stream unavailable'', hb')
    | (Some handle, hb') \<Rightarrow>
        (served_reply (serve camera (pl_muxer pl) (pl_wakes pl @ [TimedOut]) hb') (pl_reply pl path q),
         release_once handle hb'))"

definition strip_prefix ::
  "string \<Rightarrow> (string \<Rightarrow> streamHub \<Rightarrow> hls_reply \<times> streamHub) \<Rightarrow> string \<Rightarrow> streamHub \<Rightarrow> hls_reply \<times> streamHub" where
  "strip_prefix pre inner path hb =
     (if prefix pre path then inner (drop (length pre) path) hb
      else (http_error 404 ''404 page not found'', hb))"

definition hls ::
  "(string \<Rightarrow> string \<Rightarrow> string) \<Rightarrow> string \<Rightarrow> player \<Rightarrow> instant
     \<Rightarrow> string \<Rightarrow> string \<Rightarrow> query \<Rightarrow> streamHub \<Rightarrow> hls_reply \<times> streamHub" where
  "hls hmac secret pl now camera path q hb =
    (let sig = query_get q ''s'' in
     if \<not> verifyStream hmac secret camera sig now then (http_error 403 ''forbidden'', hb)
     else (case Handler camera hb of
         (False, hb1) \<Rightarrow> (http_error 404 ''404 page not found'', hb1)
       | (True, hb1) \<Rightarrow>
           (case strip_prefix (''/guest/cam/'' @ camera @ ''/hls'')
                   (\<lambda>path. serve_viewer pl camera path (query_del q ''s'')) path hb1 of
              (reply, hb2) \<Rightarrow>
                if \<not> suffix ''.m3u8'' path then (reply, hb2)
                else let hs = header_set ''Cache-Control'' ''no-store''
                            (filter (\<lambda>p. fst p \<noteq> ''Content-Length'') (headers reply))
                     in if code reply \<noteq> 200 then (reply\<lparr>headers := hs\<rparr>, hb2)
                        else (\<lparr>code = code reply, headers = hs,
                               content = signPlaylistURIs (content reply) sig\<rparr>, hb2))))"

section \<open>The contract of the hub\<close>

text \<open>
  \<open>streamHandlers\<close>, the interface the API takes the hub through: asking for a handler
  never changes which cameras have one.
\<close>

locale stream_handlers =
  fixes handler :: "string \<Rightarrow> 'h \<Rightarrow> bool \<times> 'h"
    and served :: "'h \<Rightarrow> string set"
  assumes handler_known: "fst (handler c h) \<longleftrightarrow> c \<in> served h"
    and handler_keeps: "served (snd (handler c h)) = served h"
begin

lemma handler_stable: "fst (handler c (snd (handler d h))) = fst (handler c h)"
  by (simp add: handler_known handler_keeps)

end

definition open_cams :: "streamHub \<Rightarrow> string set" where
  "open_cams h = (if closed h then {} else dom (cams h))"

lemma open_cams_release: "open_cams (release_once p h) = open_cams h"
  by (auto simp: open_cams_def release_once_def release_def Let_def split: option.splits)

lemma open_cams_acquire: "open_cams (snd (acquire c h)) = open_cams h"
  by (auto simp: open_cams_def acquire_def Let_def startLocked_def split: option.splits)

lemma acquire_known: "fst (acquire c h) \<noteq> None \<longleftrightarrow> c \<in> open_cams h"
  by (auto simp: open_cams_def acquire_def Let_def split: option.splits)

interpretation sh: stream_handlers Handler open_cams
proof
  fix c h
  show "fst (Handler c h) \<longleftrightarrow> c \<in> open_cams h"
    using acquire_known [of c h] by (auto simp: Handler_def split: option.splits prod.splits)
  show "open_cams (snd (Handler c h)) = open_cams h"
    using open_cams_acquire [of c h] open_cams_release
    by (auto simp: Handler_def split: option.splits prod.splits)
qed

section \<open>The throttle of the session log\<close>

definition session_key :: "string \<times> string \<Rightarrow> string" where
  "session_key x = fst x @ ''/'' @ snd x"

lemma acquire_pulls: "acquire c h = (Some k, h') \<Longrightarrow> \<exists>cam r. cams h' c = Some cam \<and> run cam = Some r"
  by (auto simp: acquire_def Let_def startLocked_def put_cam_def stop_timer_def split: option.splits if_splits)

lemma serve_wait_ends: "serve_wait m (ws @ [TimedOut]) \<noteq> Waiting"
  by (induction m ws rule: serve_wait.induct) auto

lemma serve_viewer_plays:
  assumes "camera \<in> open_cams hb" "\<And>r. pl_muxer pl r"
  shows "fst (serve_viewer pl camera path q hb) = pl_reply pl path q"
proof -
  obtain k hb' where a: "acquire camera hb = (Some k, hb')"
    using acquire_known [of camera hb] assms(1) by (cases "acquire camera hb") auto
  obtain cam r where "cams hb' camera = Some cam" "run cam = Some r" using acquire_pulls [OF a] by blast
  then show ?thesis using assms(2) by (simp add: serve_viewer_def a serve_def)
qed

lemma serve_viewer_keeps: "open_cams (snd (serve_viewer pl camera path q hb)) = open_cams hb"
proof -
  obtain k hb' where a: "acquire camera hb = (k, hb')" by fastforce
  then show ?thesis
    using open_cams_acquire [of camera hb] by (cases k) (simp_all add: serve_viewer_def open_cams_release)
qed

interpretation sl: throttled "\<lambda>now x. shouldLogSession now (fst x) (snd x)" session_key streamSessionTTL "\<lambda>_. True"
  by unfold_locales
    (auto simp: shouldLogSession_def throttle_def session_key_def streamSessionTTL_def Let_def not_less
      split: option.split)

text \<open>The session requests that are logged, out of a sequence of them.\<close>

definition logged_sessions :: "(instant \<times> string \<times> string) list \<Rightarrow> (instant \<times> string \<times> string) list" where
  "logged_sessions calls = accepted (\<lambda>now x. shouldLogSession now (fst x) (snd x)) calls Map.empty"

section \<open>Properties\<close>

lemma session_reply:
  assumes "bearer r = (t, True)"
    and "Authenticate h (e_now env) (e_saved env) t (sstore st) = (Some g, s)"
    and "Handler camera (hub st) = (True, hb)"
  shows "fst (session h hmac secret now env camera r st) = respond 200 (SessionBody
       (''/guest/cam/'' @ camera @ ''/hls/index.m3u8?s='' @ query_escape (signStream hmac secret camera (now + streamSessionTTL)))
       (unix (now + streamSessionTTL)))"
    "hub (snd (session h hmac secret now env camera r st)) = hb"
proof -
  have h2: "Handler camera (hub (st\<lparr>sstore := s\<rparr>)) = (True, hb)" using assms(3) by simp
  show "fst (session h hmac secret now env camera r st) = respond 200 (SessionBody
       (''/guest/cam/'' @ camera @ ''/hls/index.m3u8?s='' @ query_escape (signStream hmac secret camera (now + streamSessionTTL)))
       (unix (now + streamSessionTTL)))"
    unfolding session_def assms(1) prod.case Let_def assms(2)
    by (simp only: bool.case option.case h2 prod.case case_prod_unfold fst_conv)
  show "hub (snd (session h hmac secret now env camera r st)) = hb"
    unfolding session_def assms(1) prod.case Let_def assms(2)
    by (simp only: bool.case option.case h2 prod.case case_prod_unfold snd_conv) (simp add: record_cam_def)
qed

lemma hls_plays:
  assumes "camera \<in> open_cams hb" "\<forall>r. pl_muxer pl r" "verifyStream hmac secret camera (query_get q ''s'') now"
  shows "code (fst (hls hmac secret pl now camera (''/guest/cam/'' @ camera @ ''/hls'' @ rel) q hb))
    = code (pl_reply pl rel (query_del q ''s''))"
proof -
  let ?pre = "''/guest/cam/'' @ camera @ ''/hls''"
  obtain k hb1 where hd: "Handler camera hb = (k, hb1)" by fastforce
  then have k: "k" and op: "camera \<in> open_cams hb1"
    using sh.handler_known [of camera hb] sh.handler_keeps [of camera hb] assms(1) by simp_all
  obtain reply hb2 where v: "serve_viewer pl camera rel (query_del q ''s'') hb1 = (reply, hb2)" by fastforce
  then have r: "reply = pl_reply pl rel (query_del q ''s'')"
    using serve_viewer_plays [OF op, of pl rel "query_del q ''s''"] assms(2) by simp
  have "strip_prefix ?pre (\<lambda>path. serve_viewer pl camera path (query_del q ''s'')) (?pre @ rel) hb1 = (reply, hb2)"
    by (simp add: strip_prefix_def v del: append_Cons append_assoc)
  moreover have "?pre @ rel = ''/guest/cam/'' @ camera @ ''/hls'' @ rel" by simp
  ultimately have "strip_prefix ?pre (\<lambda>path. serve_viewer pl camera path (query_del q ''s''))
      (''/guest/cam/'' @ camera @ ''/hls'' @ rel) hb1 = (reply, hb2)" by metis
  then show ?thesis
    unfolding hls_def Let_def using assms(3) k hd r by (simp del: append_Cons split del: if_split) (simp split: if_split)
qed

lemma session_ok:
  assumes "session h hmac secret now env camera r st = (respond 200 (SessionBody u e), st')"
  shows "live_bearer h (sstore st) r \<noteq> None \<and> camera \<in> open_cams (hub st')
    \<and> u = ''/guest/cam/'' @ camera @ ''/hls/index.m3u8?s='' @ signStream hmac secret camera (now + streamSessionTTL)
    \<and> e = unix (now + streamSessionTTL)"
proof -
  obtain t b where tb: "bearer r = (t, b)" by fastforce
  obtain who s where auth: "Authenticate h (e_now env) (e_saved env) t (sstore st) = (who, s)" by fastforce
  obtain k hb where hd: "Handler camera (hub st) = (k, hb)" by fastforce
  have reads: "map_option holder_of who = access h (sstore st) t"
    using gs.authenticate_reads [of h "e_now env" "e_saved env" t "sstore st"] by (simp add: auth)
  obtain g where g: "b" "who = Some g"
    using assms by (cases b; cases who) (auto simp: session_def tb auth)
  have k: "k" using assms g by (cases k) (auto simp: session_def tb auth hd)
  have kn: "camera \<in> open_cams hb"
    using sh.handler_known [of camera "hub st"] sh.handler_keeps [of camera "hub st"] k hd by simp
  have esc: "query_escape (signStream hmac secret camera (now + streamSessionTTL))
      = signStream hmac secret camera (now + streamSessionTTL)"
    by (rule query_escape_safe) (simp add: list_all_iff signStream_safe)
  note rep = session_reply [of r t h env st g s camera hb hmac secret now, unfolded assms fst_conv snd_conv esc]
  have "bearer r = (t, True)" "Authenticate h (e_now env) (e_saved env) t (sstore st) = (Some g, s)"
    "Handler camera (hub st) = (True, hb)" using tb auth hd g k by simp_all
  note rep = rep [OF this]
  from rep(1) have "u = ''/guest/cam/'' @ camera @ ''/hls/index.m3u8?s='' @ signStream hmac secret camera (now + streamSessionTTL)"
    "e = unix (now + streamSessionTTL)" by (simp_all only: http_response.ext_inject api_body.inject)
  moreover have "live_bearer h (sstore st) r \<noteq> None" using tb g reads [symmetric] by (simp add: live_bearer_def)
  moreover have "camera \<in> open_cams (hub st')" using rep(2) kn by simp
  ultimately show ?thesis by blast
qed

text \<open>
  C17: A session request that answers 200 came from an authenticated guest, and the playlist URL it
  returns is served by the camera's handler until the expiry it announces and answers 403 after it.
\<close>

theorem session_url_plays_until_it_expires:
  assumes "session h hmac secret now env camera r st = (respond 200 (SessionBody u e), st')"
    and "int64_range (unix (now + streamSessionTTL))"
  shows "live_bearer h (sstore st) r \<noteq> None
    \<and> (\<exists>tok. u = ''/guest/cam/'' @ camera @ ''/hls/index.m3u8?s='' @ tok
       \<and> (\<forall>pl now' rel q. query_get q ''s'' = tok \<longrightarrow> (\<forall>r. pl_muxer pl r) \<longrightarrow>
            (if unix now' \<le> e
             then code (fst (hls hmac secret pl now' camera (''/guest/cam/'' @ camera @ ''/hls'' @ rel) q (hub st')))
                = code (pl_reply pl rel (query_del q ''s''))
             else fst (hls hmac secret pl now' camera (''/guest/cam/'' @ camera @ ''/hls'' @ rel) q (hub st'))
                = http_error 403 ''forbidden'')))"
proof -
  let ?tok = "signStream hmac secret camera (now + streamSessionTTL)"
  let ?path = "\<lambda>rel. ''/guest/cam/'' @ camera @ ''/hls'' @ rel"
  have ok: "live_bearer h (sstore st) r \<noteq> None" "camera \<in> open_cams (hub st')"
    "u = ''/guest/cam/'' @ camera @ ''/hls/index.m3u8?s='' @ ?tok" "e = unix (now + streamSessionTTL)"
    using session_ok [OF assms(1)] by blast+
  have v: "verifyStream hmac secret camera ?tok now' \<longleftrightarrow> unix now' \<le> e" for now'
    using verify_signStream [OF assms(2)] ok(4) by simp
  have "if unix now' \<le> e
       then code (fst (hls hmac secret pl now' camera (?path rel) q (hub st'))) = code (pl_reply pl rel (query_del q ''s''))
       else fst (hls hmac secret pl now' camera (?path rel) q (hub st')) = http_error 403 ''forbidden''"
    if "query_get q ''s'' = ?tok" "\<forall>r. pl_muxer pl r" for pl now' rel q
    using that hls_plays [OF ok(2), of pl hmac secret q now' rel] by (simp add: v hls_def Let_def)
  with ok show ?thesis by blast
qed


lemma session_log_is_throttled:
  assumes "sorted (map fst calls)"
  shows "sorted_wrt (\<lambda>x y. session_key (snd x) = session_key (snd y) \<longrightarrow> streamSessionTTL \<le> time_sub (fst y) (fst x))
      (logged_sessions calls)
    \<and> (\<forall>x \<in> set calls. \<exists>y \<in> set (logged_sessions calls).
          session_key (snd y) = session_key (snd x) \<and> time_sub (fst x) (fst y) < streamSessionTTL)"
  unfolding logged_sessions_def by (rule sl.accepted_throttled [OF assms]) simp

section \<open>Witnesses\<close>

definition cam_state :: stream_api where
  "cam_state = \<lparr>sstore = two_guests, saudit = None, lastLoggedAt = Map.empty, hub = NewStreamHub {''yard''}\<rparr>"

definition loaded :: player where
  "loaded = \<lparr>pl_reply = (\<lambda>p q. \<lparr>code = 200, headers = [], content = p\<rparr>), pl_muxer = (\<lambda>_. True), pl_wakes = []\<rparr>"

theorem session_url_plays_until_it_expires_witness:
  "\<exists>tok st'. code (fst (hls toy_mac ''k'' loaded (5 * second) ''yard'' ''/guest/cam/yard/hls/a.mp4'' [(''s'', tok)] st')) = 200
    \<and> fst (hls toy_mac ''k'' loaded (1000 * second) ''yard'' ''/guest/cam/yard/hls/a.mp4'' [(''s'', tok)] st')
      = http_error 403 ''forbidden''"
proof -
  let ?r = "ask [] (''Bearer '' @ ''tok-ann'') None"
  obtain resp st' where s: "session demo_hash toy_mac ''k'' 0 sample_env ''yard'' ?r cam_state = (resp, st')" by fastforce
  have b: "bearer ?r = (''tok-ann'', True)" by (rule bearer_of) (simp only: ask_sel)
  obtain g where a: "fst (Authenticate demo_hash (e_now sample_env) (e_saved sample_env) ''tok-ann'' two_guests) = Some g"
    using ann_has_access gs.authenticate_None [of demo_hash "e_now sample_env" "e_saved sample_env" "''tok-ann''" two_guests]
    by (metis not_None_eq)
  have k: "fst (Handler ''yard'' (NewStreamHub {''yard''}))"
    unfolding sh.handler_known by (simp add: open_cams_def NewStreamHub_def dom_def)
  obtain hb where hb: "Handler ''yard'' (hub cam_state) = (True, hb)"
  proof -
    have "fst (Handler ''yard'' (hub cam_state)) = True" using k by (simp add: cam_state_def)
    then show ?thesis by (rule fst_eqE) (rule that)
  qed
  have st0: "sstore cam_state = two_guests" by (simp add: cam_state_def)
  obtain s1 where s1: "Authenticate demo_hash (e_now sample_env) (e_saved sample_env) ''tok-ann'' (sstore cam_state) = (Some g, s1)"
    unfolding st0 by (rule fst_eqE [OF a])
  obtain u e where resp: "resp = respond 200 (SessionBody u e)"
    using session_reply(1) [OF b s1 hb, of toy_mac "''k''" 0] unfolding s fst_conv by blast
  have "int64_range (unix (0 + streamSessionTTL))"
    by (simp add: int64_range_def unix_def streamSessionTTL_def)
  from session_url_plays_until_it_expires [OF s [unfolded resp] this] obtain tok where
    t: "\<And>pl now' rel q. query_get q ''s'' = tok \<Longrightarrow> \<forall>r. pl_muxer pl r \<Longrightarrow>
            (if unix now' \<le> e
             then code (fst (hls toy_mac ''k'' pl now' ''yard'' (''/guest/cam/'' @ ''yard'' @ ''/hls'' @ rel) q (hub st')))
                = code (pl_reply pl rel (query_del q ''s''))
             else fst (hls toy_mac ''k'' pl now' ''yard'' (''/guest/cam/'' @ ''yard'' @ ''/hls'' @ rel) q (hub st'))
                = http_error 403 ''forbidden'')" by blast
  have "e = 900" using session_ok [OF s [unfolded resp]] by (simp add: unix_def streamSessionTTL_def)
  then have times: "unix (5 * second) \<le> e" "\<not> unix (1000 * second) \<le> e" by (simp_all add: unix_def)
  have get: "query_get [(''s'', tok)] ''s'' = tok" "\<forall>r. pl_muxer loaded r" by (simp_all add: query_get_def loaded_def)
  note play = t [OF get, of _ "''/a.mp4''"]
  show ?thesis
    using play [of "5 * second"] play [of "1000 * second"] times
    by (intro exI [of _ tok] exI [of _ "hub st'"]) (simp add: loaded_def)
qed

lemma session_log_is_throttled_witness:
  "\<exists>y \<in> set (logged_sessions [(0, ''a'', ''yard''), (1, ''a'', ''yard''), (1000 * second, ''a'', ''yard'')]).
     session_key (snd y) = ''a/yard''"
  using session_log_is_throttled [of "[(0, ''a'', ''yard''), (1, ''a'', ''yard''), (1000 * second, ''a'', ''yard'')]"]
  by (simp add: session_key_def) blast

end
