(* ===== verification/Digest.thy ===== *)
theory Digest
  imports GoCodec
begin

text \<open>
  \<open>digest.go\<close>: parsing a digest challenge and computing the \<open>Authorization\<close> value.  The MD5
  digest and the eight random bytes of the client nonce are arguments.  The file ends with
  the challenge-response exchange that the door, snapshot, event and SIP clients share, as
  a locale over whatever sends one request.
\<close>

section \<open>Challenges\<close>

record digestChallenge =
  realm :: string
  nonce :: string
  qop :: string
  opaque :: string

text \<open>The slices the quote-aware comma scanner cuts out.\<close>

fun split_commas :: "bool \<Rightarrow> string \<Rightarrow> string list" where
  "split_commas q [] = [[]]"
| "split_commas q (x # xs) =
     (if x = CHR '','' \<and> \<not> q then [] # split_commas q xs
      else (case split_commas (if x = CHR 0x22 then \<not> q else q) xs of
              [] \<Rightarrow> [[x]] | p # ps \<Rightarrow> (x # p) # ps))"

definition param_of :: "string \<Rightarrow> (string \<times> string) option" where
  "param_of part0 = (let part = trim_space part0 in
     if part = [] then None
     else (case cut CHR ''='' part of (before, after, ok) \<Rightarrow>
       if \<not> ok then None
       else Some (to_lower (trim_space before),
                  trim_suffix [CHR 0x22] (trim_prefix [CHR 0x22] (trim_space after)))))"

definition add_param :: "string \<Rightarrow> (string \<rightharpoonup> string) \<Rightarrow> (string \<rightharpoonup> string)" where
  "add_param part0 m = (case param_of part0 of None \<Rightarrow> m | Some (k, v) \<Rightarrow> m(k \<mapsto> v))"

definition splitDigestParams :: "string \<Rightarrow> (string \<rightharpoonup> string)" where
  "splitDigestParams s = fold add_param (split_commas False s) Map.empty"

definition get_param :: "(string \<rightharpoonup> string) \<Rightarrow> string \<Rightarrow> string" where
  "get_param m k = (case m k of None \<Rightarrow> [] | Some v \<Rightarrow> v)"

definition parseDigestChallenge :: "string \<Rightarrow> digestChallenge option" where
  "parseDigestChallenge header =
    (let header = trim_space header in
     if \<not> prefix ''digest '' (to_lower header) then None
     else (let params = splitDigestParams (drop 7 header);
               c = \<lparr>realm = get_param params ''realm'', nonce = get_param params ''nonce'',
                    qop = get_param params ''qop'', opaque = get_param params ''opaque''\<rparr>
           in if realm c = [] \<or> nonce c = [] then None else Some c))"

section \<open>Responses\<close>

definition pickQOP :: "string \<Rightarrow> string" where
  "pickQOP qopList = (if qopList = [] then []
     else if \<exists>p \<in> set (split_on CHR '','' qopList). trim_space p = ''auth'' then ''auth'' else [])"

definition md5hex :: "(string \<Rightarrow> string) \<Rightarrow> string \<Rightarrow> string" where
  "md5hex md5 s = hex_encode (md5 s)"

definition randomCnonce :: "string \<Rightarrow> string" where
  "randomCnonce bytes = hex_encode bytes"

definition quoted :: "string \<Rightarrow> string \<Rightarrow> string" where
  "quoted k v = k @ ''='' @ [CHR 0x22] @ v @ [CHR 0x22]"

type_synonym nonce_text = string

definition digest_response ::
  "(string \<Rightarrow> string) \<Rightarrow> string \<Rightarrow> string \<Rightarrow> string \<Rightarrow> string \<Rightarrow> string \<Rightarrow> nonce_text \<Rightarrow> nonce_text
     \<Rightarrow> string \<Rightarrow> string" where
  "digest_response md5 method uri user pass rlm nnc cnonce qp =
    (let ha1 = md5hex md5 (user @ '':'' @ rlm @ '':'' @ pass); ha2 = md5hex md5 (method @ '':'' @ uri)
     in if qp \<noteq> [] then md5hex md5 (ha1 @ '':'' @ nnc @ '':00000001:'' @ cnonce @ '':'' @ qp @ '':'' @ ha2)
        else md5hex md5 (ha1 @ '':'' @ nnc @ '':'' @ ha2))"

definition response_parts ::
  "(string \<Rightarrow> string) \<Rightarrow> string \<Rightarrow> string \<Rightarrow> string \<Rightarrow> string \<Rightarrow> string \<Rightarrow> digestChallenge \<Rightarrow> string list" where
  "response_parts md5 bytes method uri user pass c =
    (let qp = pickQOP (qop c); cnonce = randomCnonce bytes
     in [quoted ''username'' user, quoted ''realm'' (realm c), quoted ''nonce'' (nonce c), quoted ''uri'' uri]
        @ (if qp \<noteq> [] then [quoted ''cnonce'' cnonce, ''nc=00000001'', ''qop='' @ qp] else [])
        @ [quoted ''response'' (digest_response md5 method uri user pass (realm c) (nonce c) cnonce qp)]
        @ (if opaque c \<noteq> [] then [quoted ''opaque'' (opaque c)] else []))"

definition buildDigestResponse ::
  "(string \<Rightarrow> string) \<Rightarrow> string \<Rightarrow> string \<Rightarrow> string \<Rightarrow> string \<Rightarrow> string \<Rightarrow> digestChallenge \<Rightarrow> string" where
  "buildDigestResponse md5 bytes method uri user pass c =
     ''Digest '' @ join '', '' (response_parts md5 bytes method uri user pass c)"

section \<open>Reading back a parameter list\<close>

text \<open>A slice whose commas are all quoted and whose quotes are balanced.\<close>

fun closed_quotes :: "bool \<Rightarrow> string \<Rightarrow> bool" where
  "closed_quotes q [] \<longleftrightarrow> \<not> q"
| "closed_quotes q (x # xs) \<longleftrightarrow> \<not> (x = CHR '','' \<and> \<not> q) \<and> closed_quotes (if x = CHR 0x22 then \<not> q else q) xs"

lemma split_commas_nonempty [simp]: "split_commas q s \<noteq> []"
  by (induction q s rule: split_commas.induct) (auto split: list.split)

lemma split_commas_closed:
  "closed_quotes q p \<Longrightarrow> split_commas q (p @ CHR '','' # r) = p # split_commas False r"
  "closed_quotes q p \<Longrightarrow> split_commas q p = [p]"
  by (induction q p rule: closed_quotes.induct) auto

lemma split_commas_join:
  "ps \<noteq> [] \<Longrightarrow> \<forall>p \<in> set ps. closed_quotes False p \<Longrightarrow>
     split_commas False (join '', '' ps) = hd ps # map (\<lambda>p. CHR '' '' # p) (tl ps)"
proof (induction "'', ''" ps rule: join.induct)
  case (3 p q ps)
  have sp: "closed_quotes False (CHR '' '' # x) \<longleftrightarrow> closed_quotes False x" for x by simp
  have "split_commas False (CHR '' '' # join '', '' (q # ps))
      = (CHR '' '' # hd (q # ps)) # map (\<lambda>p. CHR '' '' # p) ps"
    using 3 by simp
  then show ?case using 3 by (simp add: split_commas_closed)
qed (simp_all add: split_commas_closed)

lemma closed_quotes_plain: "CHR '','' \<notin> set s \<Longrightarrow> CHR 0x22 \<notin> set s \<Longrightarrow> closed_quotes False (s @ t) = closed_quotes False t"
  by (induction s) auto

lemma closed_quotes_inside: "CHR 0x22 \<notin> set s \<Longrightarrow> closed_quotes True (s @ CHR 0x22 # t) = closed_quotes False t"
  by (induction s) auto

text \<open>A parameter name as the protocol writes it: a non-empty run of lower-case letters.\<close>

definition token_name :: "string \<Rightarrow> bool" where
  "token_name k \<longleftrightarrow> k \<noteq> [] \<and> (\<forall>c \<in> set k. 97 \<le> ord c \<and> ord c \<le> 122)"

definition plain_value :: "string \<Rightarrow> bool" where
  "plain_value v \<longleftrightarrow> CHR 0x22 \<notin> set v"

definition bare_value :: "string \<Rightarrow> bool" where
  "bare_value v \<longleftrightarrow> v \<noteq> [] \<and> (\<forall>c \<in> set v. graphic c) \<and> CHR '','' \<notin> set v \<and> CHR 0x22 \<notin> set v"

lemma token_name_chars:
  assumes "token_name k"
  shows "CHR '','' \<notin> set k" "CHR 0x22 \<notin> set k" "CHR ''='' \<notin> set k" "to_lower k = k" "trim_space k = k" "k \<noteq> []"
    "graphic (hd k)"
proof -
  have "lower_char c = c \<and> graphic c" if "c \<in> set k" for c
    using assms that by (auto simp: token_name_def lower_char_def graphic_def)
  then show "to_lower k = k" and g: "graphic (hd k)" and "trim_space k = k"
    using assms by (auto simp: to_lower_def token_name_def intro!: map_idI trim_space_graphic)
qed (use assms in \<open>auto simp: token_name_def\<close>)

lemma trim_space_lead:
  assumes "s \<noteq> []" "graphic (hd s)" "graphic (last s)"
  shows "trim_space (CHR '' '' # s) = s"
proof -
  have "trim_left_by space_encodings (CHR '' '' # s) = trim_left_by space_encodings s"
    by (subst trim_left_by.simps) (simp add: space_encodings_def)
  then have "trim_space (CHR '' '' # s) = trim_space s" by (simp add: trim_space_def)
  with trim_space_graphic [OF assms] show ?thesis by simp
qed

lemma graphic_quote [simp]: "graphic CHR 0x22"
  by (simp add: graphic_def)

lemma param_of_quoted:
  assumes "token_name k" "plain_value v"
  shows "param_of (quoted k v) = Some (k, v)" "param_of (CHR '' '' # quoted k v) = Some (k, v)"
    "closed_quotes False (quoted k v)"
proof -
  note k = token_name_chars [OF assms(1)]
  have ends: "quoted k v \<noteq> []" "graphic (hd (quoted k v))" "graphic (last (quoted k v))"
    using k(6,7) by (simp_all add: quoted_def)
  have ends2: "trim_space (CHR 0x22 # v @ [CHR 0x22]) = CHR 0x22 # v @ [CHR 0x22]"
    by (rule trim_space_graphic) simp_all
  have strip: "trim_suffix [CHR 0x22] (trim_prefix [CHR 0x22] (CHR 0x22 # v @ [CHR 0x22])) = v"
    using trim_prefix_append [of "[CHR 0x22]" "v @ [CHR 0x22]"] trim_suffix_append [of "[CHR 0x22]" v] by simp
  have "cut CHR ''='' (quoted k v) = (k, CHR 0x22 # v @ [CHR 0x22], True)"
    using cut_at [OF k(3)] by (simp add: quoted_def)
  then show "param_of (quoted k v) = Some (k, v)" "param_of (CHR '' '' # quoted k v) = Some (k, v)"
    using ends ends2 strip k(4,5) by (simp_all add: param_of_def Let_def trim_space_graphic trim_space_lead)
  have "closed_quotes False (k @ ''='' @ CHR 0x22 # v @ CHR 0x22 # [])"
    using k(1,2) assms(2) by (simp add: closed_quotes_plain closed_quotes_inside plain_value_def)
  then show "closed_quotes False (quoted k v)" by (simp add: quoted_def)
qed

lemma param_of_bare:
  assumes "token_name k" "bare_value v"
  shows "param_of (k @ CHR ''='' # v) = Some (k, v)" "param_of (CHR '' '' # k @ CHR ''='' # v) = Some (k, v)"
    "closed_quotes False (k @ CHR ''='' # v)"
proof -
  note k = token_name_chars [OF assms(1)]
  have v: "v \<noteq> []" "graphic (hd v)" "graphic (last v)" "CHR 0x22 \<notin> set v" "CHR '','' \<notin> set v"
    using assms(2) by (auto simp: bare_value_def)
  have ends: "k @ CHR ''='' # v \<noteq> []" "graphic (hd (k @ CHR ''='' # v))" "graphic (last (k @ CHR ''='' # v))"
    using k(6,7) v by simp_all
  have "trim_prefix [CHR 0x22] v = v" "trim_suffix [CHR 0x22] v = v"
    using v(1,4) by (auto simp: trim_prefix_def trim_suffix_def prefix_def suffix_def)
  then show "param_of (k @ CHR ''='' # v) = Some (k, v)" "param_of (CHR '' '' # k @ CHR ''='' # v) = Some (k, v)"
    using ends k(4,5) v trim_space_graphic [OF v(1-3)] cut_at [OF k(3)]
    by (simp_all add: param_of_def Let_def trim_space_graphic trim_space_lead)
  show "closed_quotes False (k @ CHR ''='' # v)"
    using closed_quotes_plain [OF k(1,2)] closed_quotes_plain [OF v(5,4), of "[]"] by simp
qed

text \<open>A rendered parameter: what it reads back as.\<close>

inductive reads :: "string \<Rightarrow> string \<Rightarrow> string \<Rightarrow> bool" where
  "token_name k \<Longrightarrow> plain_value v \<Longrightarrow> reads (quoted k v) k v"
| "token_name k \<Longrightarrow> bare_value v \<Longrightarrow> reads (k @ CHR ''='' # v) k v"

lemma reads_param:
  assumes "reads p k v"
  shows "param_of p = Some (k, v)" "param_of (CHR '' '' # p) = Some (k, v)" "closed_quotes False p"
  using assms by (auto elim!: reads.cases simp: param_of_quoted param_of_bare)

lemma splitDigestParams_join:
  assumes "list_all2 (\<lambda>p (k, v). reads p k v) ps kvs" "ps \<noteq> []"
  shows "splitDigestParams (join '', '' ps) = fold (\<lambda>(k, v) m. m(k \<mapsto> v)) kvs Map.empty"
proof -
  obtain p ps' k v kvs' where ps: "ps = p # ps'" "kvs = (k, v) # kvs'" "reads p k v"
    "list_all2 (\<lambda>p (k, v). reads p k v) ps' kvs'"
    using assms by (cases ps; cases kvs) auto
  have cl: "\<forall>q \<in> set ps. closed_quotes False q"
  proof
    fix q assume "q \<in> set ps"
    then obtain kv where "reads q (fst kv) (snd kv)"
      using assms(1) unfolding list_all2_conv_all_nth by (metis case_prod_unfold in_set_conv_nth)
    then show "closed_quotes False q" by (rule reads_param(3))
  qed
  have rest: "fold add_param (map (\<lambda>p. CHR '' '' # p) ps') m = fold (\<lambda>(k, v) m. m(k \<mapsto> v)) kvs' m" for m
    using ps(4) by (induction arbitrary: m rule: list_all2_induct)
      (auto simp: add_param_def reads_param(2))
  have "split_commas False (join '', '' ps) = p # map (\<lambda>p. CHR '' '' # p) ps'"
    using split_commas_join [OF assms(2) cl] by (simp add: ps(1))
  then show ?thesis
    using rest ps(2,3) by (simp add: splitDigestParams_def add_param_def reads_param(1))
qed

section \<open>The exchange the device clients share\<close>

text \<open>
  What one request brings back: the status, the challenge header and whatever the caller
  reads of the body; \<open>None\<close> when the transport failed.  \<open>handshake\<close> is the protocol: one
  unauthenticated request, and one answer to a challenge when the status is one of \<open>codes\<close>.
\<close>

record 'b device_reply =
  rstatus :: nat
  rchallenge :: string
  rbody :: 'b

definition handshake ::
  "nat set \<Rightarrow> (string \<Rightarrow> 'w \<Rightarrow> 'b device_reply option \<times> 'w) \<Rightarrow> (string \<Rightarrow> string option) \<Rightarrow> 'w
     \<Rightarrow> 'b device_reply option \<times> 'w" where
  "handshake codes send answer w = (case send [] w of
      (None, w1) \<Rightarrow> (None, w1)
    | (Some r, w1) \<Rightarrow>
        if rstatus r = 200 then (Some r, w1)
        else if rstatus r \<notin> codes then (None, w1)
        else (case answer (rchallenge r) of
            None \<Rightarrow> (None, w1)
          | Some auth \<Rightarrow> (case send auth w1 of
              (None, w2) \<Rightarrow> (None, w2)
            | (Some r2, w2) \<Rightarrow> if rstatus r2 = 200 then (Some r2, w2) else (None, w2))))"

text \<open>A client of the exchange: it sends what the handshake sends, and succeeds only on its reply.\<close>

locale challenge_client =
  fixes codes :: "nat set"
    and send :: "string \<Rightarrow> 'w \<Rightarrow> 'b device_reply option \<times> 'w"
    and answer :: "string \<Rightarrow> string option"
    and client :: "'w \<Rightarrow> 'a option \<times> 'w"
  assumes client_world: "snd (client w) = snd (handshake codes send answer w)"
    and client_ok: "fst (client w) \<noteq> None \<Longrightarrow> fst (handshake codes send answer w) \<noteq> None"
begin

lemma two_requests_at_most:
  "snd (client w) = snd (send [] w)
   \<or> (\<exists>r auth. fst (send [] w) = Some r \<and> rstatus r \<in> codes \<and> answer (rchallenge r) = Some auth
        \<and> snd (client w) = snd (send auth (snd (send [] w))))"
  unfolding client_world by (auto simp: handshake_def split: option.split prod.split)

lemma success_needs_200:
  assumes "fst (client w) \<noteq> None"
  shows "(\<exists>r. fst (send [] w) = Some r \<and> rstatus r = 200)
   \<or> (\<exists>r auth r2. fst (send [] w) = Some r \<and> rstatus r \<in> codes \<and> answer (rchallenge r) = Some auth
        \<and> fst (send auth (snd (send [] w))) = Some r2 \<and> rstatus r2 = 200)"
  using client_ok [OF assms] by (auto simp: handshake_def split: option.splits prod.splits if_splits)

lemma refused_without_challenge:
  "fst (send [] w) = Some r \<Longrightarrow> rstatus r \<noteq> 200 \<Longrightarrow> rstatus r \<notin> codes \<or> answer (rchallenge r) = None
     \<Longrightarrow> fst (client w) = None \<and> snd (client w) = snd (send [] w)"
proof -
  assume a: "fst (send [] w) = Some r" "rstatus r \<noteq> 200" "rstatus r \<notin> codes \<or> answer (rchallenge r) = None"
  then have "handshake codes send answer w = (None, snd (send [] w))"
    by (cases "send [] w") (auto simp: handshake_def)
  then show ?thesis using client_ok [of w] client_world [of w] by (cases "fst (client w)") auto
qed

end

text \<open>The answer the clients compute from a challenge header.\<close>

definition answer_challenge ::
  "(string \<Rightarrow> string) \<Rightarrow> string \<Rightarrow> string \<Rightarrow> string option \<Rightarrow> string \<Rightarrow> string \<Rightarrow> string \<Rightarrow> string option" where
  "answer_challenge md5 bytes method uri user pass header =
    (case parseDigestChallenge header of
       None \<Rightarrow> None
     | Some c \<Rightarrow> (case uri of
         None \<Rightarrow> None
       | Some u \<Rightarrow> Some (buildDigestResponse md5 bytes method u user pass c)))"

section \<open>Properties\<close>

text \<open>
  What an RFC 2617 server does with an \<open>Authorization\<close> value: look the fields up, and
  recompute the response from the password it knows.
\<close>

definition server_accepts ::
  "(string \<Rightarrow> string) \<Rightarrow> string \<Rightarrow> string \<Rightarrow> string \<Rightarrow> string \<Rightarrow> string \<Rightarrow> string \<Rightarrow> string \<Rightarrow> bool" where
  "server_accepts md5 method uri user pass rlm nnc header \<longleftrightarrow>
    prefix ''Digest '' header \<and>
    (let p = splitDigestParams (drop 7 header);
         ha1 = md5hex md5 (user @ '':'' @ rlm @ '':'' @ pass); ha2 = md5hex md5 (method @ '':'' @ uri)
     in p ''username'' = Some user \<and> p ''realm'' = Some rlm \<and> p ''nonce'' = Some nnc \<and> p ''uri'' = Some uri
      \<and> p ''response'' = Some (case p ''qop'' of
            None \<Rightarrow> md5hex md5 (ha1 @ '':'' @ nnc @ '':'' @ ha2)
          | Some q \<Rightarrow> md5hex md5 (ha1 @ '':'' @ nnc @ '':'' @ the (p ''nc'') @ '':'' @ the (p ''cnonce'')
                        @ '':'' @ q @ '':'' @ ha2)))"

lemma pickQOP_cases: "pickQOP q = [] \<or> pickQOP q = ''auth''"
  by (simp add: pickQOP_def)

lemma hex_plain: "plain_value (hex_encode s)"
  using hex_encode_chars [of "CHR 0x22" s] by (auto simp: plain_value_def is_digit_def)

lemma names [simp]:
  "token_name ''username''" "token_name ''realm''" "token_name ''nonce''" "token_name ''uri''"
  "token_name ''cnonce''" "token_name ''nc''" "token_name ''qop''" "token_name ''response''" "token_name ''opaque''"
  by (simp_all add: token_name_def)

lemma response_parts_read:
  assumes "plain_value user" "plain_value (realm c)" "plain_value (nonce c)" "plain_value uri" "plain_value (opaque c)"
  shows "splitDigestParams (join '', '' (response_parts md5 bytes method uri user pass c)) =
    (let qp = pickQOP (qop c); resp = digest_response md5 method uri user pass (realm c) (nonce c) (randomCnonce bytes) qp;
         m0 = [''username'' \<mapsto> user, ''realm'' \<mapsto> realm c, ''nonce'' \<mapsto> nonce c, ''uri'' \<mapsto> uri];
         m1 = (if qp \<noteq> [] then m0(''cnonce'' \<mapsto> randomCnonce bytes, ''nc'' \<mapsto> ''00000001'', ''qop'' \<mapsto> qp) else m0);
         m2 = m1(''response'' \<mapsto> resp)
     in if opaque c \<noteq> [] then m2(''opaque'' \<mapsto> opaque c) else m2)"
proof -
  let ?qp = "pickQOP (qop c)"
  let ?resp = "digest_response md5 method uri user pass (realm c) (nonce c) (randomCnonce bytes) ?qp"
  let ?kvs = "[(''username'', user), (''realm'', realm c), (''nonce'', nonce c), (''uri'', uri)]
     @ (if ?qp \<noteq> [] then [(''cnonce'', randomCnonce bytes), (''nc'', ''00000001''), (''qop'', ?qp)] else [])
     @ [(''response'', ?resp)] @ (if opaque c \<noteq> [] then [(''opaque'', opaque c)] else [])"
  have resp: "plain_value (digest_response md5 m u us pa rl n cn q)" for m u us pa rl n cn q
    by (simp add: digest_response_def md5hex_def Let_def hex_plain)
  have q: "reads (quoted k v) k v" if "token_name k" "plain_value v" for k v
    using that by (rule reads.intros)
  have nc: "reads ''nc=00000001'' ''nc'' ''00000001''"
    using reads.intros(2) [of "''nc''" "''00000001''"] by (simp add: bare_value_def graphic_def)
  have qp: "reads (''qop='' @ ''auth'') ''qop'' ''auth''"
    using reads.intros(2) [of "''qop''" "''auth''"] by (simp add: bare_value_def graphic_def)
  have "list_all2 (\<lambda>p (k, v). reads p k v) (response_parts md5 bytes method uri user pass c) ?kvs"
    using pickQOP_cases [of "qop c"]
    by (auto simp: response_parts_def Let_def q assms resp nc qp [simplified] randomCnonce_def hex_plain)
  moreover have "response_parts md5 bytes method uri user pass c \<noteq> []"
    by (simp add: response_parts_def Let_def)
  ultimately have "splitDigestParams (join '', '' (response_parts md5 bytes method uri user pass c))
      = fold (\<lambda>(k, v) m. m(k \<mapsto> v)) ?kvs Map.empty" by (rule splitDigestParams_join)
  then show ?thesis by (simp only:) (simp add: Let_def)
qed

text \<open>
  C24: A server that checks an Authorization value as RFC 2617 says accepts the one built from its
  own challenge, for every user, password, URI and challenge without a double quote, with and
  without qop.
\<close>

theorem digest_answer_is_accepted:
  assumes "plain_value user" "plain_value (realm c)" "plain_value (nonce c)" "plain_value uri" "plain_value (opaque c)"
  shows "server_accepts md5 method uri user pass (realm c) (nonce c)
    (buildDigestResponse md5 bytes method uri user pass c)"
proof -
  have pre: "prefix ''Digest '' (buildDigestResponse md5 bytes method uri user pass c)"
    "drop 7 (buildDigestResponse md5 bytes method uri user pass c)
       = join '', '' (response_parts md5 bytes method uri user pass c)"
    by (simp_all add: buildDigestResponse_def)
  show ?thesis
    unfolding server_accepts_def pre(2) response_parts_read [OF assms]
    using pre(1) by (auto simp: Let_def digest_response_def)
qed

lemma parse_from_params:
  assumes "trim_space h = h" "prefix ''digest '' (to_lower h)" "splitDigestParams (drop 7 h) = m"
    and "get_param m ''realm'' = realm c" "get_param m ''nonce'' = nonce c" "get_param m ''qop'' = qop c"
    and "get_param m ''opaque'' = opaque c" "realm c \<noteq> []" "nonce c \<noteq> []"
  shows "parseDigestChallenge h = Some c"
  unfolding parseDigestChallenge_def Let_def assms(1,3)
  using assms(2,4-9) by simp

lemma digest_challenge_roundtrip:
  assumes "plain_value (realm c)" "plain_value (nonce c)" "plain_value (qop c)" "plain_value (opaque c)"
    and "realm c \<noteq> []" "nonce c \<noteq> []"
  shows "parseDigestChallenge (''Digest '' @ join '', '' [quoted ''realm'' (realm c), quoted ''nonce'' (nonce c),
      quoted ''qop'' (qop c), quoted ''opaque'' (opaque c)]) = Some c"
proof -
  let ?ps = "[quoted ''realm'' (realm c), quoted ''nonce'' (nonce c), quoted ''qop'' (qop c), quoted ''opaque'' (opaque c)]"
  let ?h = "''Digest '' @ join '', '' ?ps"
  have "splitDigestParams (join '', '' ?ps) = fold (\<lambda>(k, v) m. m(k \<mapsto> v))
      [(''realm'', realm c), (''nonce'', nonce c), (''qop'', qop c), (''opaque'', opaque c)] Map.empty"
    by (rule splitDigestParams_join) (simp_all add: reads.intros(1) assms)
  then have params: "splitDigestParams (drop 7 ?h) = [''realm'' \<mapsto> realm c, ''nonce'' \<mapsto> nonce c,
      ''qop'' \<mapsto> qop c, ''opaque'' \<mapsto> opaque c]" by simp
  have "trim_space ?h = ?h"
    by (rule trim_space_graphic) (simp_all add: graphic_def quoted_def)
  moreover have "prefix ''digest '' (to_lower ?h)" 
  proof -
    have "to_lower ''Digest '' = ''digest ''" by code_simp
    then have "to_lower ?h = ''digest '' @ to_lower (join '', '' ?ps)" by (simp only: to_lower_def map_append)
    then show ?thesis by (simp only: prefix_def) blast
  qed
  ultimately show ?thesis
    by (rule parse_from_params [OF _ _ params]) (use assms(5,6) in \<open>simp_all add: get_param_def\<close>)
qed

section \<open>Witnesses\<close>

definition vto_challenge :: digestChallenge where
  "vto_challenge = \<lparr>realm = ''Login to VTO'', nonce = ''8f2a'', qop = ''auth'', opaque = []\<rparr>"

theorem digest_answer_is_accepted_witness:
  "server_accepts (\<lambda>s. rev s) ''GET'' ''/cgi-bin/x?a=1,2'' ''admin'' ''pw'' ''Login to VTO'' ''8f2a''
     (buildDigestResponse (\<lambda>s. rev s) ''12345678'' ''GET'' ''/cgi-bin/x?a=1,2'' ''admin'' ''pw'' vto_challenge)"
  using digest_answer_is_accepted [of "''admin''" vto_challenge "''/cgi-bin/x?a=1,2''" "\<lambda>s. rev s" "''GET''" "''pw''" "''12345678''"]
  by (simp add: plain_value_def vto_challenge_def)

lemma digest_challenge_roundtrip_witness:
  "parseDigestChallenge (''Digest '' @ join '', '' [quoted ''realm'' ''Login to VTO'', quoted ''nonce'' ''8f2a'',
      quoted ''qop'' ''auth'', quoted ''opaque'' []]) = Some vto_challenge"
  using digest_challenge_roundtrip [of vto_challenge]
  by (simp add: plain_value_def vto_challenge_def)

end
