(* ===== verification/Config.thy ===== *)
theory Config
  imports GoCodec
begin

text \<open>
  The configuration part of \<open>main.go\<close>: the stream records, the URLs derived from them and
  the validation \<open>loadConfig\<close> performs on the decoded file.
\<close>

record StreamConfig =
  sid :: string
  sname :: string
  host :: string
  user :: string
  pass :: string
  door :: bool
  rtspPathTemplate :: string
  codecName :: string
  sipExt :: string
  sipPass :: string
  rtspURLOverride :: string
  doorURLOverride :: string

definition doorStreams :: "StreamConfig list \<Rightarrow> StreamConfig list" where
  "doorStreams streams = filter door streams"

section \<open>URLs\<close>

text \<open>\<open>net/url\<close>'s escaping, by the part of the URL.\<close>

definition unreserved :: "char \<Rightarrow> bool" where
  "unreserved c \<longleftrightarrow> url_safe c"

definition escape_with :: "(char \<Rightarrow> bool) \<Rightarrow> string \<Rightarrow> string" where
  "escape_with keep s = concat (map (\<lambda>c. if keep c then [c]
     else [CHR ''%'', upper_hex_char (ord c div 16), upper_hex_char (ord c mod 16)]) s)"

definition escape_user :: "string \<Rightarrow> string" where
  "escape_user = escape_with (\<lambda>c. unreserved c \<or> c \<in> set ''$&+,;='')"

definition escape_path :: "string \<Rightarrow> string" where
  "escape_path = escape_with (\<lambda>c. unreserved c \<or> c \<in> set ''$&+,/:;=@'')"

definition escape_host :: "string \<Rightarrow> string" where
  "escape_host = escape_with (\<lambda>c. unreserved c \<or> c \<in> set ''!$&()*+,;=:[]<>'' \<or> c = CHR 0x27 \<or> c = CHR 0x22)"

definition rtsp_url :: "string \<Rightarrow> string \<Rightarrow> string \<Rightarrow> string \<Rightarrow> string \<Rightarrow> string" where
  "rtsp_url u p h path query =
     ''rtsp://'' @ escape_user u @ '':'' @ escape_user p @ ''@'' @ escape_host h
     @ (if escape_path path \<noteq> [] \<and> hd (escape_path path) \<noteq> CHR ''/'' \<and> h \<noteq> [] then ''/'' else [])
     @ escape_path path @ (if query \<noteq> [] then ''?'' @ query else [])"

text \<open>
  \<open>fmt.Sprintf\<close> with one integer argument, for templates made of text, \<open>%%\<close> and \<open>%d\<close>;
  any other verb is outside the model (\<open>None\<close>).
\<close>

fun sprintf_d :: "string \<Rightarrow> int \<Rightarrow> bool \<Rightarrow> string option" where
  "sprintf_d [] n used = Some (if used then [] else ''%!(EXTRA int='' @ format_int n @ '')'')"
| "sprintf_d (CHR ''%'' # c # r) n used =
     (if c = CHR ''%'' then map_option (\<lambda>s. ''%'' @ s) (sprintf_d r n used)
      else if c = CHR ''d'' then
        map_option (\<lambda>s. (if used then ''%!d(MISSING)'' else format_int n) @ s) (sprintf_d r n True)
      else None)"
| "sprintf_d (x # r) n used =
     (if x = CHR ''%'' then None else map_option (\<lambda>s. x # s) (sprintf_d r n used))"

definition RTSPURLForSubtype :: "StreamConfig \<Rightarrow> int \<Rightarrow> string option" where
  "RTSPURLForSubtype s subtype =
    (if rtspURLOverride s \<noteq> [] then Some (rtspURLOverride s)
     else if rtspPathTemplate s \<noteq> [] then
       map_option (\<lambda>path. rtsp_url (user s) (pass s) (host s) path [])
         (sprintf_d (rtspPathTemplate s) (subtype + 1) False)
     else Some (rtsp_url (user s) (pass s) (host s) ''/cam/realmonitor''
                 (''channel=1&subtype='' @ format_int subtype)))"

definition DoorOpenURL :: "StreamConfig \<Rightarrow> string" where
  "DoorOpenURL s = (if doorURLOverride s \<noteq> [] then doorURLOverride s
     else ''http://'' @ host s @ ''/cgi-bin/accessControl.cgi?action=openDoor&channel=1&UserID=101&Type=Remote'')"

definition snapshotURLFor :: "StreamConfig \<Rightarrow> string" where
  "snapshotURLFor s = ''http://'' @ host s @ ''/cgi-bin/snapshot.cgi?channel=1''"

section \<open>Loading\<close>

record GuestConfig =
  storePath :: string
  publicBase :: string
  auditPath :: string
  gcameras :: "(string \<times> string) list"
  streamSecret :: string
  demoCode :: string

record Config =
  listen :: string
  greeCfg :: "(string \<times> string) option"     \<comment> \<open>host and MAC\<close>
  guestCfg :: "GuestConfig option"
  cstreams :: "StreamConfig list"

datatype config_error =
    NotReadable | BadJson | NeedPublicBase | NeedStreamSecret | DemoCodeTooShort | NoStreams
  | GreeNeedsAddress | StreamNeedsId nat | DuplicateId string | StreamNeedsHost string

definition minDemoCodeLen :: nat where
  "minDemoCodeLen = 16"

fun check_streams :: "nat \<Rightarrow> string set \<Rightarrow> StreamConfig list \<Rightarrow> config_error option" where
  "check_streams i seen [] = None"
| "check_streams i seen (s # ss) =
     (if sid s = [] then Some (StreamNeedsId i)
      else if sid s \<in> seen then Some (DuplicateId (sid s))
      else if host s = [] \<and> rtspURLOverride s = [] then Some (StreamNeedsHost (sid s))
      else check_streams (Suc i) (insert (sid s) seen) ss)"

definition guest_defaults :: "GuestConfig \<Rightarrow> GuestConfig" where
  "guest_defaults g = g\<lparr>
     storePath := (if storePath g = [] then ''/var/lib/camonitor/guests.json'' else storePath g),
     auditPath := (if auditPath g = [] then ''/var/lib/camonitor/guest-audit.db'' else auditPath g)\<rparr>"

text \<open>\<open>file\<close>: \<open>None\<close> when it cannot be opened, \<open>Some None\<close> when its JSON is rejected.\<close>

definition loadConfig :: "'a Config_scheme option option \<Rightarrow> config_error + 'a Config_scheme" where
  "loadConfig file = (case file of
      None \<Rightarrow> Inl NotReadable
    | Some None \<Rightarrow> Inl BadJson
    | Some (Some cfg0) \<Rightarrow>
        (let cfg = (if listen cfg0 = [] then cfg0\<lparr>listen := '':8080''\<rparr> else cfg0)
         in if (\<exists>g \<in> set_option (guestCfg cfg). publicBase g = []) then Inl NeedPublicBase
            else if (\<exists>g \<in> set_option (guestCfg cfg). length (gcameras g) > 0 \<and> streamSecret g = []) then Inl NeedStreamSecret
            else if (\<exists>g \<in> set_option (guestCfg cfg). demoCode g \<noteq> [] \<and> length (demoCode g) < minDemoCodeLen)
            then Inl DemoCodeTooShort
            else (let cfg = cfg\<lparr>guestCfg := map_option guest_defaults (guestCfg cfg)\<rparr>
              in if cstreams cfg = [] then Inl NoStreams
                 else if (\<exists>g \<in> set_option (greeCfg cfg). fst g = [] \<and> snd g = []) then Inl GreeNeedsAddress
                 else (case check_streams 0 {} (cstreams cfg) of
                     Some e \<Rightarrow> Inl e
                   | None \<Rightarrow> Inr cfg))))"

text \<open>What the rest of the program takes for granted about its configuration.\<close>

definition config_ok :: "'a Config_scheme \<Rightarrow> bool" where
  "config_ok c \<longleftrightarrow> listen c \<noteq> [] \<and> cstreams c \<noteq> [] \<and> distinct (map sid (cstreams c))
     \<and> (\<forall>s \<in> set (cstreams c). sid s \<noteq> [] \<and> (host s \<noteq> [] \<or> rtspURLOverride s \<noteq> []))
     \<and> (\<forall>g. greeCfg c = Some g \<longrightarrow> fst g \<noteq> [] \<or> snd g \<noteq> [])
     \<and> (\<forall>g. guestCfg c = Some g \<longrightarrow> publicBase g \<noteq> [] \<and> storePath g \<noteq> [] \<and> auditPath g \<noteq> []
          \<and> (gcameras g \<noteq> [] \<longrightarrow> streamSecret g \<noteq> []) \<and> (demoCode g \<noteq> [] \<longrightarrow> 16 \<le> length (demoCode g)))"

lemma check_streams_None:
  "check_streams i seen ss = None \<longleftrightarrow> distinct (map sid ss) \<and> seen \<inter> sid ` set ss = {}
     \<and> (\<forall>s \<in> set ss. sid s \<noteq> [] \<and> (host s \<noteq> [] \<or> rtspURLOverride s \<noteq> []))"
  by (induction i seen ss rule: check_streams.induct) auto

lemma guest_defaults_sel [simp]:
  "publicBase (guest_defaults g) = publicBase g" "gcameras (guest_defaults g) = gcameras g"
  "streamSecret (guest_defaults g) = streamSecret g" "demoCode (guest_defaults g) = demoCode g"
  "storePath (guest_defaults g) \<noteq> []" "auditPath (guest_defaults g) \<noteq> []"
  by (simp_all add: guest_defaults_def)

lemma loadConfig_cases:
  assumes "loadConfig (Some (Some c)) = r"
  shows "case r of Inr c' \<Rightarrow> config_ok c' \<and> cstreams c' = cstreams c \<and> greeCfg c' = greeCfg c
      | Inl e \<Rightarrow> \<not> config_ok (c\<lparr>listen := '':8080'', guestCfg := map_option guest_defaults (guestCfg c)\<rparr>)"
  using assms check_streams_None [of 0 "{}" "cstreams c"]
  by (cases "guestCfg c"; cases "greeCfg c"; cases "check_streams 0 {} (cstreams c)")
    (auto simp: loadConfig_def Let_def config_ok_def minDemoCodeLen_def split: if_splits)

lemma loadConfig_ok: "loadConfig f = Inr c \<Longrightarrow> config_ok c"
proof (cases "f = None \<or> f = Some None")
  case False
  then obtain c0 where f: "f = Some (Some c0)" by (cases f) auto
  assume "loadConfig f = Inr c"
  from loadConfig_cases [OF this [unfolded f]] show ?thesis by simp
qed (auto simp: loadConfig_def)

section \<open>Properties\<close>

text \<open>
  C26: A configuration that loads satisfies every rule the program relies on (non-empty distinct
  stream ids, a host or an RTSP URL, guest secrets set, demo code long enough) with its streams
  untouched, and one that is refused violates a rule.
\<close>

theorem loaded_config_is_valid:
  assumes "loadConfig (Some (Some c)) = r"
  shows "(case r of Inr c' \<Rightarrow> config_ok c' \<and> cstreams c' = cstreams c \<and> greeCfg c' = greeCfg c
      | Inl e \<Rightarrow> \<not> config_ok (c\<lparr>listen := '':8080'', guestCfg := map_option guest_defaults (guestCfg c)\<rparr>))"
  by (rule loadConfig_cases [OF assms])

definition one_stream :: StreamConfig where
  "one_stream = \<lparr>sid = ''vto1'', sname = ''Gate'', host = ''10.0.0.2'', user = ''admin'', pass = ''pw'',
     door = True, rtspPathTemplate = [], codecName = [], sipExt = [], sipPass = [],
     rtspURLOverride = [], doorURLOverride = []\<rparr>"

definition one_config :: Config where
  "one_config = \<lparr>listen = [], greeCfg = None, guestCfg = None, cstreams = [one_stream]\<rparr>"

theorem loaded_config_is_valid_witness:
  "config_ok (one_config\<lparr>listen := '':8080''\<rparr>)"
proof -
  have "loadConfig (Some (Some one_config)) = Inr (one_config\<lparr>listen := '':8080''\<rparr>)"
    by (simp add: loadConfig_def one_config_def one_stream_def)
  from loaded_config_is_valid [OF this] show ?thesis by simp
qed

end
