(* ===== verification/Doors.thy ===== *)
theory Doors
  imports Config Digest
begin

text \<open>
  \<open>door.go\<close> and \<open>snapshot.go\<close>: the two digest-authenticated requests to a door station.
  The HTTP client is the argument \<open>send\<close> (target, \<open>Authorization\<close> value, world); a failed
  request carries whether the deadline passed.  The transport's clients are proved to be
  instances of the exchange of theory \<open>Digest\<close>.
\<close>

datatype door_error = UnknownStream | DeadlineExceeded | DoorFailed

type_synonym 'w http_send = "string \<Rightarrow> string \<Rightarrow> 'w \<Rightarrow> (bool + string option device_reply) \<times> 'w"

text \<open>
  \<open>url.Parse\<close> and \<open>RequestURI\<close> of a target the client has already reached, so one with a scheme and
  an authority: what follows the authority, without the fragment.  \<open>url_ok\<close> says whether the parser
  accepts it; a path is taken in the encoding it is written in.
\<close>

fun after_scheme :: "string \<Rightarrow> string" where
  "after_scheme [] = []"
| "after_scheme (c # cs) = (if prefix ''://'' (c # cs) then drop 2 cs else after_scheme cs)"

definition request_uri :: "(string \<Rightarrow> bool) \<Rightarrow> string \<Rightarrow> string option" where
  "request_uri url_ok target = (if url_ok target
     then Some (let rest = dropWhile (\<lambda>c. c \<noteq> CHR ''/'' \<and> c \<noteq> CHR ''?'')
                             (after_scheme (takeWhile (\<lambda>c. c \<noteq> CHR ''#'') target))
                in if rest = [] \<or> hd rest = CHR ''?'' then ''/'' @ rest else rest)
     else None)"

definition NewDoorClient :: "StreamConfig list \<Rightarrow> (string \<rightharpoonup> StreamConfig)" where
  "NewDoorClient ss = fold (\<lambda>s m. m(sid s \<mapsto> s)) ss Map.empty"

definition door_error_of :: "bool \<Rightarrow> door_error" where
  "door_error_of timed_out = (if timed_out then DeadlineExceeded else DoorFailed)"

definition Open ::
  "(string \<Rightarrow> string) \<Rightarrow> string \<Rightarrow> (string \<Rightarrow> bool) \<Rightarrow> 'w http_send \<Rightarrow> (string \<rightharpoonup> StreamConfig) \<Rightarrow> string
     \<Rightarrow> 'w \<Rightarrow> door_error option \<times> 'w" where
  "Open md5 bytes url_ok send streams streamID w =
    (case streams streamID of
       None \<Rightarrow> (Some UnknownStream, w)
     | Some s \<Rightarrow>
        let target = DoorOpenURL s
        in (case send target [] w of
              (Inl late, w1) \<Rightarrow> (Some (door_error_of late), w1)
            | (Inr resp, w1) \<Rightarrow>
                if rstatus resp = 200 then (None, w1)
                else if rstatus resp \<noteq> 401 then (Some DoorFailed, w1)
                else (case parseDigestChallenge (rchallenge resp) of
                    None \<Rightarrow> (Some DoorFailed, w1)
                  | Some chal \<Rightarrow> (case request_uri url_ok target of
                      None \<Rightarrow> (Some DoorFailed, w1)
                    | Some uri \<Rightarrow>
                        (case send target (buildDigestResponse md5 bytes ''GET'' uri (user s) (pass s) chal) w1 of
                           (Inl late, w2) \<Rightarrow> (Some (door_error_of late), w2)
                         | (Inr authed, w2) \<Rightarrow>
                             if rstatus authed \<noteq> 200 then (Some DoorFailed, w2) else (None, w2))))))"

text \<open>\<open>HandleOpen\<close>: method, the \<open>id\<close> query parameter, and the status of the reply.\<close>

definition HandleOpen ::
  "(string \<Rightarrow> string) \<Rightarrow> string \<Rightarrow> (string \<Rightarrow> bool) \<Rightarrow> 'w http_send \<Rightarrow> (string \<rightharpoonup> StreamConfig) \<Rightarrow> string \<Rightarrow> string
     \<Rightarrow> 'w \<Rightarrow> nat \<times> 'w" where
  "HandleOpen md5 bytes url_ok send streams meth i w =
    (if meth \<noteq> ''POST'' then (405, w)
     else if i = [] then (400, w)
     else (case Open md5 bytes url_ok send streams i w of
         (None, w') \<Rightarrow> (204, w')
       | (Some UnknownStream, w') \<Rightarrow> (404, w')
       | (Some DeadlineExceeded, w') \<Rightarrow> (504, w')
       | (Some DoorFailed, w') \<Rightarrow> (502, w')))"

section \<open>Snapshots\<close>

definition maxSnapshotBytes :: nat where
  "maxSnapshotBytes = 2 * 1024 * 1024"

text \<open>The body is \<open>None\<close> when reading it fails; the limit reader stops one byte past the cap.\<close>

definition readSnapshotBody :: "string option device_reply \<Rightarrow> string option" where
  "readSnapshotBody resp = (case rbody resp of
      None \<Rightarrow> None
    | Some b \<Rightarrow> (let body = take (maxSnapshotBytes + 1) b
        in if length body > maxSnapshotBytes then None else Some body))"

definition FetchSnapshot ::
  "(string \<Rightarrow> string) \<Rightarrow> string \<Rightarrow> (string \<Rightarrow> bool) \<Rightarrow> 'w http_send \<Rightarrow> StreamConfig
     \<Rightarrow> 'w \<Rightarrow> string option \<times> 'w" where
  "FetchSnapshot md5 bytes url_ok send s w =
    (let target = snapshotURLFor s
     in (case send target [] w of
          (Inl _, w1) \<Rightarrow> (None, w1)
        | (Inr resp, w1) \<Rightarrow>
            if rstatus resp = 200 then (readSnapshotBody resp, w1)
            else if rstatus resp \<noteq> 401 then (None, w1)
            else (case parseDigestChallenge (rchallenge resp) of
                None \<Rightarrow> (None, w1)
              | Some chal \<Rightarrow> (case request_uri url_ok target of
                  None \<Rightarrow> (None, w1)
                | Some uri \<Rightarrow>
                    (case send target (buildDigestResponse md5 bytes ''GET'' uri (user s) (pass s) chal) w1 of
                       (Inl _, w2) \<Rightarrow> (None, w2)
                     | (Inr authed, w2) \<Rightarrow>
                         if rstatus authed \<noteq> 200 then (None, w2) else (readSnapshotBody authed, w2))))))"

section \<open>Both are clients of the exchange\<close>

definition plain_send :: "'w http_send \<Rightarrow> string \<Rightarrow> string \<Rightarrow> 'w \<Rightarrow> string option device_reply option \<times> 'w" where
  "plain_send send target auth w = (case send target auth w of
      (Inl _, w') \<Rightarrow> (None, w') | (Inr r, w') \<Rightarrow> (Some r, w'))"

definition door_answer ::
  "(string \<Rightarrow> string) \<Rightarrow> string \<Rightarrow> (string \<Rightarrow> bool) \<Rightarrow> StreamConfig \<Rightarrow> string \<Rightarrow> string \<Rightarrow> string option" where
  "door_answer md5 bytes url_ok s target =
     answer_challenge md5 bytes ''GET'' (request_uri url_ok target) (user s) (pass s)"

definition door_client ::
  "(string \<Rightarrow> string) \<Rightarrow> string \<Rightarrow> (string \<Rightarrow> bool) \<Rightarrow> 'w http_send \<Rightarrow> StreamConfig \<Rightarrow> 'w \<Rightarrow> unit option \<times> 'w" where
  "door_client md5 bytes url_ok send s w =
    (case Open md5 bytes url_ok send (\<lambda>_. Some s) [] w of
       (None, w') \<Rightarrow> (Some (), w') | (Some _, w') \<Rightarrow> (None, w'))"

interpretation door: challenge_client "{401}" "plain_send send (DoorOpenURL s)"
    "door_answer md5 bytes url_ok s (DoorOpenURL s)" "door_client md5 bytes url_ok send s"
  for send md5 bytes url_ok s
  by unfold_locales
    (auto simp: door_client_def Open_def handshake_def plain_send_def door_answer_def answer_challenge_def Let_def
      split: option.splits prod.splits sum.splits if_splits)

interpretation snap: challenge_client "{401}" "plain_send send (snapshotURLFor s)"
    "door_answer md5 bytes url_ok s (snapshotURLFor s)" "FetchSnapshot md5 bytes url_ok send s"
  for send md5 bytes url_ok s
  by unfold_locales
    (auto simp: FetchSnapshot_def handshake_def plain_send_def door_answer_def answer_challenge_def Let_def
      split: option.splits prod.splits sum.splits if_splits)

lemma Open_client:
  assumes "streams i = Some s"
  shows "Open md5 bytes url_ok send streams i w = Open md5 bytes url_ok send (\<lambda>_. Some s) [] w"
  by (simp add: Open_def assms)

lemma Open_world:
  "streams i = Some s \<Longrightarrow> snd (Open md5 bytes url_ok send streams i w) = snd (door_client md5 bytes url_ok send s w)"
  unfolding Open_client [of streams i s] door_client_def by (simp split: prod.split option.split)

lemma Open_ok:
  "streams i = Some s \<Longrightarrow> fst (Open md5 bytes url_ok send streams i w) = None
     \<longleftrightarrow> fst (door_client md5 bytes url_ok send s w) \<noteq> None"
  unfolding Open_client [of streams i s] door_client_def by (simp split: prod.split option.split)

lemma door_answer_parts:
  "door_answer md5 bytes url_ok s target ch = Some auth \<longleftrightarrow>
     (\<exists>c uri. parseDigestChallenge ch = Some c \<and> request_uri url_ok target = Some uri
        \<and> auth = buildDigestResponse md5 bytes ''GET'' uri (user s) (pass s) c)"
  by (auto simp: door_answer_def answer_challenge_def split: option.splits)

section \<open>Properties\<close>

text \<open>
  C23: A door-open request sends nothing unless it is a POST for a known door; otherwise it sends
  one unauthenticated request and at most one answer to a digest challenge, and replies 204 exactly
  when the door station answered 200.
\<close>

theorem door_request_protocol:
  assumes "HandleOpen md5 bytes url_ok send streams meth i w = (st, w')"
  shows "if meth \<noteq> ''POST'' \<or> i = [] \<or> streams i = None then w' = w \<and> st \<in> {405, 400, 404}
    else (\<exists>s. streams i = Some s \<and> st \<in> {204, 502, 504}
      \<and> (w' = snd (plain_send send (DoorOpenURL s) [] w)
         \<or> (\<exists>r c uri. fst (plain_send send (DoorOpenURL s) [] w) = Some r \<and> rstatus r = 401
              \<and> parseDigestChallenge (rchallenge r) = Some c \<and> request_uri url_ok (DoorOpenURL s) = Some uri
              \<and> w' = snd (plain_send send (DoorOpenURL s)
                    (buildDigestResponse md5 bytes ''GET'' uri (user s) (pass s) c)
                    (snd (plain_send send (DoorOpenURL s) [] w)))))
      \<and> (st = 204 \<longleftrightarrow> fst (handshake {401} (plain_send send (DoorOpenURL s))
                            (door_answer md5 bytes url_ok s (DoorOpenURL s)) w) \<noteq> None))"
proof (cases "meth \<noteq> ''POST'' \<or> i = [] \<or> streams i = None")
  case True
  with assms show ?thesis by (auto simp: HandleOpen_def Open_def split: if_splits)
next
  case False
  then obtain s where s: "streams i = Some s" by blast
  obtain e w2 where op: "Open md5 bytes url_ok send streams i w = (e, w2)" by fastforce
  then have "e \<noteq> Some UnknownStream"
    by (auto simp: Open_def s Let_def door_error_of_def split: sum.splits prod.splits option.splits if_splits)
  with assms False op have st: "w' = w2" "st \<in> {204, 502, 504}" "st = 204 \<longleftrightarrow> e = None"
    by (auto simp: HandleOpen_def split: option.splits door_error.splits)
  have w2: "w2 = snd (door_client md5 bytes url_ok send s w)"
    using Open_world [of streams i s md5 bytes url_ok send w, OF s] op by simp
  have "e = None \<longleftrightarrow> fst (door_client md5 bytes url_ok send s w) \<noteq> None"
    using Open_ok [of streams i s md5 bytes url_ok send w, OF s] op by simp
  also have "\<dots> \<longleftrightarrow> fst (handshake {401} (plain_send send (DoorOpenURL s))
                            (door_answer md5 bytes url_ok s (DoorOpenURL s)) w) \<noteq> None"
    by (auto simp: door_client_def Open_def handshake_def plain_send_def door_answer_def answer_challenge_def
        Let_def split: option.splits prod.splits sum.splits if_splits)
  finally have "st = 204 \<longleftrightarrow> \<dots>" using st(3) by simp
  moreover have "w' = snd (plain_send send (DoorOpenURL s) [] w)
         \<or> (\<exists>r c uri. fst (plain_send send (DoorOpenURL s) [] w) = Some r \<and> rstatus r = 401
              \<and> parseDigestChallenge (rchallenge r) = Some c \<and> request_uri url_ok (DoorOpenURL s) = Some uri
              \<and> w' = snd (plain_send send (DoorOpenURL s)
                    (buildDigestResponse md5 bytes ''GET'' uri (user s) (pass s) c)
                    (snd (plain_send send (DoorOpenURL s) [] w))))"
    using door.two_requests_at_most [of md5 bytes url_ok send s w]
    unfolding door_answer_parts st(1) w2 by blast
  ultimately show ?thesis using False s st(2) by auto
qed

lemma snapshot_is_bounded_and_authentic:
  assumes "FetchSnapshot md5 bytes url_ok send s w = (Some jpeg, w')"
  shows "length jpeg \<le> 2097152
    \<and> (\<exists>r. fst (handshake {401} (plain_send send (snapshotURLFor s))
                (door_answer md5 bytes url_ok s (snapshotURLFor s)) w) = Some r
         \<and> rstatus r = 200 \<and> rbody r = Some jpeg)
    \<and> w' = snd (handshake {401} (plain_send send (snapshotURLFor s))
                (door_answer md5 bytes url_ok s (snapshotURLFor s)) w)"
proof -
  have body: "length b \<le> 2097152 \<and> rbody r = Some b" if "readSnapshotBody r = Some b" for r b
    using that by (auto simp: readSnapshotBody_def maxSnapshotBytes_def Let_def split: option.splits if_splits)
  have "w' = snd (handshake {401} (plain_send send (snapshotURLFor s))
                (door_answer md5 bytes url_ok s (snapshotURLFor s)) w)"
    using snap.client_world [of md5 bytes url_ok send s w] assms by simp
  moreover have "\<exists>r. fst (handshake {401} (plain_send send (snapshotURLFor s))
                (door_answer md5 bytes url_ok s (snapshotURLFor s)) w) = Some r
         \<and> rstatus r = 200 \<and> readSnapshotBody r = Some jpeg"
    using assms
    by (auto simp: FetchSnapshot_def handshake_def plain_send_def door_answer_def answer_challenge_def
        Let_def split: option.splits prod.splits sum.splits if_splits)
  ultimately show ?thesis using body by blast
qed

section \<open>Witnesses\<close>

text \<open>A camera that challenges and then accepts; its world counts the requests.\<close>

definition vto_send :: "nat http_send" where
  "vto_send target auth n = (Inr (if auth = []
     then \<lparr>rstatus = 401, rchallenge = ''Digest realm=vto, nonce=1'', rbody = Some []\<rparr>
     else \<lparr>rstatus = 200, rchallenge = [], rbody = Some ''JPEG''\<rparr>), Suc n)"

lemma vto_parses: "parseDigestChallenge ''Digest realm=vto, nonce=1''
    = Some \<lparr>realm = ''vto'', nonce = ''1'', qop = [], opaque = []\<rparr>"
proof -
  have "reads (''realm='' @ ''vto'') ''realm'' ''vto''" "reads (''nonce='' @ ''1'') ''nonce'' ''1''"
    using reads.intros(2) [of "''realm''" "''vto''"] reads.intros(2) [of "''nonce''" "''1''"]
    by (simp_all add: bare_value_def graphic_def)
  then have "splitDigestParams (join '', '' [''realm=vto'', ''nonce=1''])
      = fold (\<lambda>(k, v) m. m(k \<mapsto> v)) [(''realm'', ''vto''), (''nonce'', ''1'')] Map.empty"
    by (intro splitDigestParams_join) simp_all
  then have p: "splitDigestParams (drop 7 ''Digest realm=vto, nonce=1'') = [''realm'' \<mapsto> ''vto'', ''nonce'' \<mapsto> ''1'']" by simp
  show ?thesis
    by (rule parse_from_params [OF _ _ p]) (simp_all add: trim_space_graphic graphic_def get_param_def, code_simp)
qed

theorem door_request_protocol_witness:
  "HandleOpen rev ''12345678'' (\<lambda>_. True) vto_send [''vto1'' \<mapsto> one_stream] ''POST'' ''vto1'' 0 = (204, 2)
   \<and> snd (HandleOpen rev ''12345678'' (\<lambda>_. True) vto_send [''vto1'' \<mapsto> one_stream] ''GET'' ''vto1'' 0) = 0"
proof
  show "HandleOpen rev ''12345678'' (\<lambda>_. True) vto_send [''vto1'' \<mapsto> one_stream] ''POST'' ''vto1'' 0 = (204, 2)"
    by (simp add: HandleOpen_def Open_def vto_send_def vto_parses request_uri_def buildDigestResponse_def Let_def)
  obtain st w' where run: "HandleOpen rev ''12345678'' (\<lambda>_. True) vto_send [''vto1'' \<mapsto> one_stream] ''GET'' ''vto1'' 0 = (st, w')"
    by fastforce
  from door_request_protocol [OF run] have "w' = 0" by simp
  with run show "snd (HandleOpen rev ''12345678'' (\<lambda>_. True) vto_send [''vto1'' \<mapsto> one_stream] ''GET'' ''vto1'' 0) = 0" by simp
qed

lemma snapshot_is_bounded_and_authentic_witness:
  "length (the (fst (FetchSnapshot rev ''12345678'' (\<lambda>_. True) vto_send one_stream 0))) \<le> 2097152
   \<and> fst (FetchSnapshot rev ''12345678'' (\<lambda>_. True) vto_send one_stream 0) = Some ''JPEG''"
proof -
  have "FetchSnapshot rev ''12345678'' (\<lambda>_. True) vto_send one_stream 0 = (Some ''JPEG'', 2)"
    by (simp add: FetchSnapshot_def vto_send_def vto_parses request_uri_def buildDigestResponse_def Let_def
        readSnapshotBody_def maxSnapshotBytes_def)
  from snapshot_is_bounded_and_authentic [OF this] this show ?thesis by simp
qed

end
