(* ===== verification/Bell.thy ===== *)
theory Bell
  imports Config Throttle "HOL-Library.Multiset"
begin

text \<open>
  \<open>bell.go\<close> and \<open>bellstore.go\<close>: the doorbell coordinator and its persisted history.  Each
  method under the bus's mutex is a function on the bus; \<open>handle\<close>, which runs on a goroutine
  per accepted ring, is one step.  The clock, the snapshot outcome, the outcomes of the SQL
  statements and the row order SQLite's \<open>ORDER BY fired_at_unix_nano DESC\<close> picks (ties are
  the engine's choice) are arguments.
\<close>

section \<open>Events and the stored rows\<close>

definition bellDebounce :: duration where
  "bellDebounce = 15 * second"

definition historyCap :: nat where
  "historyCap = 50"

record BellEvent =
  ev_id :: string
  ev_stream :: string
  ev_name :: string
  ev_time :: instant
  ev_hasSnapshot :: bool

type_synonym historyEntry = "BellEvent \<times> string"   \<comment> \<open>the JPEG is empty when the snapshot failed\<close>

record bell_row =
  r_id :: string
  r_stream :: string
  r_name :: string
  r_at :: int
  r_snap :: string

type_synonym bell_store = "bell_row list option"

definition row_of :: "historyEntry \<Rightarrow> bell_row" where
  "row_of h = \<lparr>r_id = ev_id (fst h), r_stream = ev_stream (fst h), r_name = ev_name (fst h),
     r_at = ev_time (fst h), r_snap = snd h\<rparr>"

definition entry_of :: "bell_row \<Rightarrow> historyEntry" where
  "entry_of r = (\<lparr>ev_id = r_id r, ev_stream = r_stream r, ev_name = r_name r, ev_time = r_at r,
     ev_hasSnapshot = (length (r_snap r) > 0)\<rparr>, r_snap r)"

text \<open>\<open>None\<close> is the nil store, which \<open>main\<close> runs without; \<open>db\<close> is the table behind the path.\<close>

definition OpenBellStore :: "string \<Rightarrow> bool \<Rightarrow> bool \<Rightarrow> bell_row list \<Rightarrow> bell_store" where
  "OpenBellStore path opened schema db = (if path = [] \<or> \<not> opened \<or> \<not> schema then None else Some db)"

definition Save :: "bool \<Rightarrow> BellEvent \<Rightarrow> string \<Rightarrow> bell_store \<Rightarrow> bool \<times> bell_store" where
  "Save ok ev jpeg s = (case s of
      None \<Rightarrow> (True, None)
    | Some rs \<Rightarrow> if ok then (True, Some (filter (\<lambda>r. r_id r \<noteq> ev_id ev) rs @ [row_of (ev, jpeg)]))
                else (False, Some rs))"

definition PruneRings :: "(bell_row list \<Rightarrow> bell_row list) \<Rightarrow> bool \<Rightarrow> int \<Rightarrow> bell_store \<Rightarrow> bool \<times> bell_store" where
  "PruneRings newest ok keep s = (case s of
      None \<Rightarrow> (True, None)
    | Some rs \<Rightarrow>
        if keep \<le> 0 then (True, Some rs)
        else if ok then (True, Some (filter (\<lambda>r. r_id r \<in> r_id ` set (take (nat keep) (newest rs))) rs))
        else (False, Some rs))"

definition LoadRecent :: "(bell_row list \<Rightarrow> bell_row list) \<Rightarrow> bool \<Rightarrow> int \<Rightarrow> bell_store \<Rightarrow> historyEntry list option" where
  "LoadRecent newest ok limit s = (case s of
      None \<Rightarrow> Some []
    | Some rs \<Rightarrow>
        if limit \<le> 0 then Some []
        else if \<not> ok then None
        else Some (rev (map entry_of (take (nat limit) (newest rs)))))"

text \<open>What \<open>ORDER BY \<dots> DESC\<close> promises.\<close>

definition desc_order :: "(bell_row list \<Rightarrow> bell_row list) \<Rightarrow> bool" where
  "desc_order newest \<longleftrightarrow> (\<forall>rs. mset (newest rs) = mset rs \<and> sorted (rev (map r_at (newest rs))))"

section \<open>The bus\<close>

record bell_bus =
  bstreams :: "string \<rightharpoonup> StreamConfig"
  bstore :: bell_store
  lastFire :: "string \<rightharpoonup> instant"
  history :: "historyEntry list"
  latest :: "string \<rightharpoonup> string"
  subs :: "nat \<rightharpoonup> BellEvent list"      \<comment> \<open>channel to its queued events\<close>
  nextSeq :: nat
  sentWA :: "(string \<times> string) list"   \<comment> \<open>what was handed to the WhatsApp sender\<close>

definition NewBellBus ::
  "(bell_row list \<Rightarrow> bell_row list) \<Rightarrow> bool \<Rightarrow> StreamConfig list \<Rightarrow> bell_store \<Rightarrow> bell_bus" where
  "NewBellBus newest ok streams st =
    (let entries = (case LoadRecent newest ok (int historyCap) st of None \<Rightarrow> [] | Some es \<Rightarrow> es)
     in \<lparr>bstreams = fold (\<lambda>s m. m(sid s \<mapsto> s)) streams Map.empty, bstore = st, lastFire = Map.empty,
         history = entries, latest = fold (\<lambda>e m. m(ev_stream (fst e) \<mapsto> ev_id (fst e))) entries Map.empty,
         subs = Map.empty, nextSeq = 0, sentWA = []\<rparr>)"

definition zero_instant :: instant where
  "zero_instant = - 62135596800 * second"

text \<open>The debounce of \<open>Fire\<close>, on the map of last rings; a missing entry reads as the zero time.\<close>

definition debounce :: "instant \<Rightarrow> string \<Rightarrow> (string \<rightharpoonup> instant) \<Rightarrow> bool \<times> (string \<rightharpoonup> instant)" where
  "debounce now streamID lf =
    (let prev = (case lf streamID of None \<Rightarrow> zero_instant | Some t \<Rightarrow> t);
         suppressed = (time_sub now prev < bellDebounce)
     in if suppressed then (False, lf) else (True, lf(streamID \<mapsto> now)))"

text \<open>\<open>Fire\<close>: the bus, and the ring handed to the goroutine when there is one.\<close>

definition Fire :: "instant \<Rightarrow> string \<Rightarrow> bell_bus \<Rightarrow> (StreamConfig \<times> instant) option \<times> bell_bus" where
  "Fire now streamID b = (case bstreams b streamID of
      None \<Rightarrow> (None, b)
    | Some s \<Rightarrow> (case debounce now streamID (lastFire b) of
        (go, lf) \<Rightarrow> (if go then Some (s, now) else None, b\<lparr>lastFire := lf\<rparr>)))"

definition makeEventID :: "instant \<Rightarrow> bell_bus \<Rightarrow> string \<times> bell_bus" where
  "makeEventID t b = (let n = Suc (nextSeq b)
     in (format_int t @ ''-'' @ format_int (int n), b\<lparr>nextSeq := n\<rparr>))"

definition appendHistory :: "historyEntry \<Rightarrow> bell_bus \<Rightarrow> bell_bus" where
  "appendHistory h b =
    (let hs = (if length (history b) \<ge> historyCap then take (historyCap - 1) (tl (history b)) else history b)
     in b\<lparr>history := hs @ [h], latest := (latest b)(ev_stream (fst h) \<mapsto> ev_id (fst h))\<rparr>)"

definition subBuffer :: nat where
  "subBuffer = 8"

text \<open>One channel: send, or drop the oldest queued event and send again.\<close>

definition offer :: "BellEvent \<Rightarrow> BellEvent list \<Rightarrow> BellEvent list" where
  "offer ev q = (if length q < subBuffer then q @ [ev]
     else (let q' = tl q in if length q' < subBuffer then q' @ [ev] else q'))"

definition broadcast :: "BellEvent \<Rightarrow> bell_bus \<Rightarrow> bell_bus" where
  "broadcast ev b = b\<lparr>subs := (\<lambda>ch. map_option (offer ev) (subs b ch))\<rparr>"

definition Subscribe :: "nat \<Rightarrow> bell_bus \<Rightarrow> bell_bus" where
  "Subscribe ch b = b\<lparr>subs := (subs b)(ch \<mapsto> [])\<rparr>"

definition Unsubscribe :: "nat \<Rightarrow> bell_bus \<Rightarrow> bell_bus" where
  "Unsubscribe ch b = b\<lparr>subs := (subs b)(ch := None)\<rparr>"

text \<open>
  What one run of \<open>handle\<close> meets: the snapshot (\<open>None\<close> on an error), the two statements.
  \<open>caption\<close> renders name and local time; \<open>wa\<close> says whether a sender is configured.
\<close>

record ring_env =
  re_snap :: "string option"
  re_saved :: bool
  re_pruned :: bool

definition handle ::
  "(bell_row list \<Rightarrow> bell_row list) \<Rightarrow> bool \<Rightarrow> (string \<Rightarrow> instant \<Rightarrow> string) \<Rightarrow> ring_env
     \<Rightarrow> StreamConfig \<Rightarrow> instant \<Rightarrow> bell_bus \<Rightarrow> bell_bus" where
  "handle newest wa caption env s t b =
    (let displayName = (if sname s = [] then sid s else sname s);
         jpeg = (case re_snap env of None \<Rightarrow> [] | Some j \<Rightarrow> j);
         (i, b) = makeEventID t b;
         ev = \<lparr>ev_id = i, ev_stream = sid s, ev_name = displayName, ev_time = t,
               ev_hasSnapshot = (length jpeg > 0)\<rparr>;
         b = appendHistory (ev, jpeg) b;
         (saved, st) = Save (re_saved env) ev jpeg (bstore b);
         b = b\<lparr>bstore := (if saved then snd (PruneRings newest (re_pruned env) (int historyCap) st) else st)\<rparr>;
         b = broadcast ev b
     in if wa \<and> length jpeg > 0 then b\<lparr>sentWA := sentWA b @ [(jpeg, caption displayName t)]\<rparr> else b)"

section \<open>Reading\<close>

definition SnapshotByEvent :: "string \<Rightarrow> bell_bus \<Rightarrow> string \<times> instant \<times> bool" where
  "SnapshotByEvent eventID b =
    (case List.find (\<lambda>h. ev_id (fst h) = eventID) (rev (history b)) of
       Some h \<Rightarrow> (snd h, ev_time (fst h), length (snd h) > 0)
     | None \<Rightarrow> ([], zero_instant, False))"

definition LatestSnapshot :: "string \<Rightarrow> bell_bus \<Rightarrow> string \<times> instant \<times> bool" where
  "LatestSnapshot streamID b = (case latest b streamID of
      None \<Rightarrow> ([], zero_instant, False)
    | Some i \<Rightarrow> SnapshotByEvent i b)"

definition History :: "bell_bus \<Rightarrow> BellEvent list" where
  "History b = rev (map fst (history b))"

text \<open>\<open>HandleSnapshot\<close> and \<open>HandleHistory\<close>: status and body.\<close>

definition HandleSnapshot :: "string \<Rightarrow> string \<Rightarrow> bell_bus \<Rightarrow> nat \<times> string" where
  "HandleSnapshot eventID i b =
    (if eventID = [] \<and> i = [] then (400, [])
     else (let (jpeg, at, ok) = (if eventID \<noteq> [] then SnapshotByEvent eventID b else LatestSnapshot i b)
           in if \<not> ok \<or> length jpeg = 0 then (404, []) else (200, jpeg)))"

definition HandleHistory :: "bell_bus \<Rightarrow> nat \<times> BellEvent list" where
  "HandleHistory b = (200, History b)"

text \<open>
  The SSE loop of \<open>HandleEvents\<close> over what its \<open>select\<close> picks, with the rings broadcast in
  between; a failed write ends it, and so does a channel that was closed.  The result is the frames
  written (\<open>None\<close> for a keep-alive) and the bus.
\<close>

datatype sse_pick = SseDone | SsePing bool | SseTake bool | SseRing BellEvent

fun sse_loop :: "nat \<Rightarrow> sse_pick list \<Rightarrow> bell_bus \<Rightarrow> BellEvent option list \<times> bell_bus" where
  "sse_loop ch [] b = ([], b)"
| "sse_loop ch (SseDone # ps) b = ([], b)"
| "sse_loop ch (SseRing ev # ps) b = sse_loop ch ps (broadcast ev b)"
| "sse_loop ch (SsePing ok # ps) b =
     (if ok then (case sse_loop ch ps b of (fs, b) \<Rightarrow> (None # fs, b)) else ([], b))"
| "sse_loop ch (SseTake ok # ps) b = (case subs b ch of
       None \<Rightarrow> ([], b)
     | Some [] \<Rightarrow> sse_loop ch ps b
     | Some (ev # q) \<Rightarrow>
         (let b = b\<lparr>subs := (subs b)(ch \<mapsto> q)\<rparr> in
          if ok then (case sse_loop ch ps b of (fs, b) \<Rightarrow> (Some ev # fs, b)) else ([], b)))"

text \<open>\<open>ch\<close> is the channel \<open>Subscribe\<close> makes; \<open>flushes\<close> says whether the writer can flush.\<close>

definition HandleEvents :: "bool \<Rightarrow> nat \<Rightarrow> sse_pick list \<Rightarrow> bell_bus \<Rightarrow> (nat \<times> BellEvent option list) \<times> bell_bus" where
  "HandleEvents flushes ch ps b =
    (if \<not> flushes then ((500, []), b)
     else (case sse_loop ch ps (Subscribe ch b) of (fs, b) \<Rightarrow> ((200, fs), Unsubscribe ch b)))"

section \<open>Lemmas\<close>

lemma history_append: "history (appendHistory h b) = last_n historyCap (history b @ [h])"
  if "length (history b) \<le> historyCap"
proof (cases "length (history b) = historyCap")
  case True
  then have "take (historyCap - 1) (tl (history b)) = tl (history b)" by simp
  with True show ?thesis
    by (simp add: appendHistory_def Let_def last_n_def historyCap_def drop_Suc)
next
  case False
  with that show ?thesis by (simp add: appendHistory_def Let_def)
qed

lemma offer_last_n: "length q \<le> subBuffer \<Longrightarrow> offer ev q = last_n subBuffer (q @ [ev])"
  by (cases q) (auto simp: offer_def last_n_def subBuffer_def Let_def)

interpretation bd: throttled debounce "\<lambda>s. s" bellDebounce "\<lambda>now. zero_instant + bellDebounce \<le> now"
proof
  fix now x and seen :: "string \<rightharpoonup> instant"
  assume "zero_instant + bellDebounce \<le> now"
  then have "bellDebounce \<le> time_sub now zero_instant"
    by (auto simp: time_sub_def bellDebounce_def)
  then show "debounce now x seen = throttle bellDebounce now x seen"
    by (auto simp: debounce_def throttle_def Let_def not_less split: option.split)
qed (simp add: bellDebounce_def)

text \<open>A log of rings: increasing times, and identifiers made by \<open>makeEventID\<close>.\<close>

definition event_id :: "instant \<Rightarrow> nat \<Rightarrow> string" where
  "event_id t n = format_int t @ ''-'' @ format_int (int n)"

definition wf_log :: "historyEntry list \<Rightarrow> bool" where
  "wf_log es \<longleftrightarrow> sorted_wrt (<) (map (\<lambda>h. ev_time (fst h)) es)
     \<and> (\<forall>h \<in> set es. int64_range (ev_time (fst h)) \<and> (\<exists>n. ev_id (fst h) = event_id (ev_time (fst h)) n)
          \<and> ev_hasSnapshot (fst h) = (length (snd h) > 0))"

lemma format_nat_no_dash: "CHR ''-'' \<notin> set (format_int (int n))"
  using nat_digits_digits [of n] by (auto simp: format_int_def list_all_iff)

lemma event_id_time:
  assumes "event_id t n = event_id t' n'" "int64_range t" "int64_range t'"
  shows "t = t'"
proof -
  have c: "cut CHR ''-'' (rev (event_id t n)) = (rev (format_int (int n)), rev (format_int t), True)" for t n
  proof -
    have eq: "rev (event_id t n) = rev (format_int (int n)) @ CHR ''-'' # rev (format_int t)"
      by (simp add: event_id_def)
    show ?thesis unfolding eq by (rule cut_at) (simp only: set_rev format_nat_no_dash not_False_eq_True)
  qed
  have "format_int t = format_int t'"
    using c [of t n] c [of t' n'] unfolding assms(1) by (metis prod.inject rev_rev_ident)
  then have "Some t = Some t'"
    using parse_int_format_int [OF assms(2)] parse_int_format_int [OF assms(3)] by metis
  then show ?thesis by (rule option.inject [THEN iffD1])
qed

lemma wf_log_distinct_times: "wf_log es \<Longrightarrow> distinct (map (\<lambda>h. ev_time (fst h)) es)"
  by (simp add: wf_log_def strict_sorted_iff)

lemma wf_log_ids_inj:
  assumes "wf_log es" "g \<in> set es" "h \<in> set es" "ev_id (fst g) = ev_id (fst h)"
  shows "g = h"
proof -
  have "ev_time (fst g) = ev_time (fst h)"
    using assms unfolding wf_log_def by (metis event_id_time)
  with wf_log_distinct_times [OF assms(1)] assms(2,3) show ?thesis
    by (auto simp: distinct_map dest: inj_onD)
qed

lemma wf_log_last_n: "wf_log es \<Longrightarrow> wf_log (last_n k es)"
  unfolding wf_log_def last_n_map
  using set_last_n [of k es] by (auto simp: last_n_def sorted_wrt_drop)

lemma newest_strict:
  assumes "desc_order newest" "sorted_wrt (<) (map r_at rs)"
  shows "newest rs = rev rs"
proof -
  have m: "mset (newest rs) = mset rs" and s: "sorted (rev (map r_at (newest rs)))"
    using assms(1) by (auto simp: desc_order_def)
  have d: "distinct (map r_at rs)" "sorted (map r_at rs)" using assms(2) by (auto simp: strict_sorted_iff)
  have set: "set (newest rs) = set rs" using m by (metis set_mset_mset)
  have "mset (map r_at (newest rs)) = mset (map r_at rs)" by (simp add: m)
  then have "distinct (map r_at (newest rs))" using d(1) mset_eq_imp_distinct_iff by blast
  then have "rev (newest rs) = rs"
    using d s set by (intro map_sorted_distinct_set_unique [of r_at]) (auto simp: rev_map distinct_map)
  then show ?thesis by (metis rev_rev_ident)
qed

lemma entry_row: "ev_hasSnapshot (fst h) = (length (snd h) > 0) \<Longrightarrow> entry_of (row_of h) = h"
  by (cases h) (simp add: entry_of_def row_of_def)

definition latest_of :: "historyEntry list \<Rightarrow> (string \<rightharpoonup> string)" where
  "latest_of es = (\<lambda>s. map_option (\<lambda>h. ev_id (fst h)) (List.find (\<lambda>h. ev_stream (fst h) = s) (rev es)))"

lemma latest_of_snoc: "latest_of (es @ [h]) = (latest_of es)(ev_stream (fst h) \<mapsto> ev_id (fst h))"
  by (auto simp: latest_of_def)

lemma latest_of_fold:
  "fold (\<lambda>e m. m(ev_stream (fst e) \<mapsto> ev_id (fst e))) es Map.empty = latest_of es"
  by (induction es rule: rev_induct) (auto simp: latest_of_snoc, simp add: latest_of_def)

text \<open>The bus and its table against the log of everything that rang.\<close>

definition tracks :: "historyEntry list \<Rightarrow> bell_bus \<Rightarrow> bool" where
  "tracks es b \<longleftrightarrow> history b = last_n historyCap es \<and> latest b = latest_of es
     \<and> bstore b = Some (map row_of (last_n historyCap es))"

definition ring_entry :: "nat \<Rightarrow> ring_env \<Rightarrow> StreamConfig \<Rightarrow> instant \<Rightarrow> historyEntry" where
  "ring_entry n env s t = (let jpeg = (case re_snap env of None \<Rightarrow> [] | Some j \<Rightarrow> j)
     in (\<lparr>ev_id = event_id t n, ev_stream = sid s, ev_name = (if sname s = [] then sid s else sname s),
          ev_time = t, ev_hasSnapshot = (length jpeg > 0)\<rparr>, jpeg))"

lemma handle_history:
  assumes "length (history b) \<le> historyCap"
  shows "history (handle newest wa caption env s t b) = last_n historyCap (history b @ [ring_entry (Suc (nextSeq b)) env s t])"
    "latest (handle newest wa caption env s t b) = (latest b)(sid s \<mapsto> event_id t (Suc (nextSeq b)))"
    "bstore (handle newest wa caption env s t b)
       = (let e = ring_entry (Suc (nextSeq b)) env s t; (saved, st) = Save (re_saved env) (fst e) (snd e) (bstore b)
          in if saved then snd (PruneRings newest (re_pruned env) (int historyCap) st) else st)"
proof -
  obtain i b1 where mk: "makeEventID t b = (i, b1)" by fastforce
  then have b1: "i = event_id t (Suc (nextSeq b))" "b1 = b\<lparr>nextSeq := Suc (nextSeq b)\<rparr>"
    by (simp_all add: makeEventID_def event_id_def Let_def)
  have h: "history (appendHistory e b1) = last_n historyCap (history b @ [e])" for e
    using history_append [of b1 e] assms by (simp add: b1)
  have l: "latest (appendHistory e b1) = (latest b)(ev_stream (fst e) \<mapsto> ev_id (fst e))"
    "bstore (appendHistory e b1) = bstore b" for e
    by (simp_all add: appendHistory_def Let_def b1)
  show "history (handle newest wa caption env s t b) = last_n historyCap (history b @ [ring_entry (Suc (nextSeq b)) env s t])"
    "latest (handle newest wa caption env s t b) = (latest b)(sid s \<mapsto> event_id t (Suc (nextSeq b)))"
    "bstore (handle newest wa caption env s t b)
       = (let e = ring_entry (Suc (nextSeq b)) env s t; (saved, st) = Save (re_saved env) (fst e) (snd e) (bstore b)
          in if saved then snd (PruneRings newest (re_pruned env) (int historyCap) st) else st)"
    by (simp_all add: handle_def mk Let_def broadcast_def h l ring_entry_def b1(1) split: prod.split)
qed

lemma wf_log_snoc:
  assumes "wf_log es" "int64_range t" "\<forall>h \<in> set es. ev_time (fst h) < t"
  shows "wf_log (es @ [ring_entry n env s t])"
  using assms by (auto simp: wf_log_def sorted_wrt_append ring_entry_def Let_def)

lemma handle_tracks:
  assumes tr: "tracks es b" and wf: "wf_log es" and new: "\<forall>h \<in> set es. ev_time (fst h) < t"
    and t: "int64_range t" and ok: "re_saved env" "re_pruned env" and ord: "desc_order newest"
  shows "tracks (es @ [ring_entry (Suc (nextSeq b)) env s t]) (handle newest wa caption env s t b)"
proof -
  let ?e = "ring_entry (Suc (nextSeq b)) env s t" and ?old = "last_n historyCap es"
  have wf': "wf_log (es @ [?e])" by (rule wf_log_snoc [OF wf t new])
  have e: "ev_stream (fst ?e) = sid s" "ev_id (fst ?e) = event_id t (Suc (nextSeq b))"
    by (simp_all add: ring_entry_def Let_def)
  have len: "length (history b) \<le> historyCap" using tr by (simp add: tracks_def)
  have hist: "history (handle newest wa caption env s t b) = last_n historyCap (es @ [?e])"
  proof -
    have "last_n historyCap (?old @ [?e]) = last_n historyCap (es @ [?e])"
      by (simp add: last_n_snoc historyCap_def last_n_last_n)
    with tr show ?thesis unfolding handle_history(1) [OF len] by (simp add: tracks_def)
  qed
  have idne: "ev_id (fst h) \<noteq> ev_id (fst ?e)" if "h \<in> set es" for h
  proof
    assume "ev_id (fst h) = ev_id (fst ?e)"
    then have "h = ?e" using wf_log_ids_inj [OF wf'] that by (metis UnI1 UnI2 list.set_intros(1) set_append)
    with that new show False by (auto simp: ring_entry_def Let_def)
  qed
  let ?rows = "map row_of (?old @ [?e])"
  have keep: "filter (\<lambda>r. r_id r \<noteq> ev_id (fst ?e)) (map row_of ?old) = map row_of ?old"
    using idne set_last_n [of historyCap es] by (fastforce simp: filter_id_conv row_of_def)
  have wfo: "wf_log (?old @ [?e])"
    using new set_last_n [of historyCap es] by (intro wf_log_snoc wf_log_last_n wf t) auto
  then have "sorted_wrt (<) (map r_at ?rows)" by (simp add: wf_log_def row_of_def comp_def)
  then have nw: "newest ?rows = rev ?rows" by (rule newest_strict [OF ord])
  have top: "set (take historyCap (newest ?rows)) = set (last_n historyCap ?rows)"
    unfolding nw by (metis set_rev take_rev_last_n)
  have inj: "r_id r \<in> r_id ` set (last_n historyCap ?rows) \<longleftrightarrow> r \<in> set (last_n historyCap ?rows)"
    if "r \<in> set ?rows" for r
  proof
    assume "r_id r \<in> r_id ` set (last_n historyCap ?rows)"
    then obtain q where q: "r_id r = r_id q" "q \<in> set (last_n historyCap ?rows)" by (rule imageE)
    have "q \<in> set ?rows" using q(2) by (rule subsetD [OF set_last_n])
    then have "q \<in> row_of ` set (?old @ [?e])" by (simp only: set_map)
    then obtain g where g: "q = row_of g" "g \<in> set (?old @ [?e])" by (rule imageE)
    from that have "r \<in> row_of ` set (?old @ [?e])" by (simp only: set_map)
    then obtain h where h: "r = row_of h" "h \<in> set (?old @ [?e])" by (rule imageE)
    note gh = g(2) h(2) g(1) h(1)
    with q(1) have "ev_id (fst g) = ev_id (fst h)" by (simp add: row_of_def)
    with wf_log_ids_inj [OF wfo gh(1,2)] gh q(2) show "r \<in> set (last_n historyCap ?rows)" by simp
  qed simp
  have dist: "distinct ?rows" using wf_log_distinct_times [OF wfo]
    by (intro distinct_mapI [of r_at]) (simp add: row_of_def comp_def)
  have pos: "\<not> int historyCap \<le> 0" by (simp add: historyCap_def)
  have st: "bstore b = Some (map row_of ?old)" using tr by (simp add: tracks_def)
  have sv: "Save (re_saved env) (fst ?e) (snd ?e) (Some (map row_of ?old)) = (True, Some ?rows)"
    using keep ok by (simp add: Save_def)
  have "filter (\<lambda>r. r_id r \<in> r_id ` set (take historyCap (newest ?rows))) ?rows
      = filter (\<lambda>r. r \<in> set (last_n historyCap ?rows)) ?rows"
    unfolding top using inj by (intro filter_cong) auto
  also have "\<dots> = last_n historyCap ?rows"
    using dist by (rule filter_in_last_n)
  finally have "bstore (handle newest wa caption env s t b) = Some (map row_of (last_n historyCap (?old @ [?e])))"
    unfolding handle_history(3) [OF len] Let_def st sv prod.case
    using ok pos by (simp only: PruneRings_def option.case if_False if_True nat_int snd_conv last_n_map)
  moreover have "last_n historyCap (?old @ [?e]) = last_n historyCap (es @ [?e])"
    by (simp add: last_n_snoc historyCap_def last_n_last_n)
  ultimately show ?thesis
    using tr hist handle_history(2) [OF len] by (simp add: tracks_def latest_of_snoc e)
qed

section \<open>Sequences of rings\<close>

text \<open>Rings that were accepted, in the order their goroutines completed.\<close>

type_synonym ring = "ring_env \<times> StreamConfig \<times> instant"

fun ring_run ::
  "(bell_row list \<Rightarrow> bell_row list) \<Rightarrow> bool \<Rightarrow> (string \<Rightarrow> instant \<Rightarrow> string) \<Rightarrow> ring list \<Rightarrow> bell_bus \<Rightarrow> bell_bus" where
  "ring_run newest wa caption [] b = b"
| "ring_run newest wa caption ((env, s, t) # rs) b =
     ring_run newest wa caption rs (handle newest wa caption env s t b)"

fun ring_log :: "nat \<Rightarrow> ring list \<Rightarrow> historyEntry list" where
  "ring_log n [] = []"
| "ring_log n ((env, s, t) # rs) = ring_entry (Suc n) env s t # ring_log (Suc n) rs"

lemma handle_seq [simp]: "nextSeq (handle newest wa caption env s t b) = Suc (nextSeq b)"
  by (simp add: handle_def makeEventID_def appendHistory_def broadcast_def Let_def split: prod.split)

lemma ring_entry_sel [simp]:
  "ev_time (fst (ring_entry n env s t)) = t" "ev_id (fst (ring_entry n env s t)) = event_id t n"
  by (simp_all add: ring_entry_def Let_def)

lemma ring_run_history:
  "length (history b) \<le> historyCap \<Longrightarrow>
     history (ring_run newest wa caption rs b) = last_n historyCap (history b @ ring_log (nextSeq b) rs)"
proof (induction rs arbitrary: b)
  case (Cons r rs)
  obtain env s t where r: "r = (env, s, t)" by (cases r)
  let ?b = "handle newest wa caption env s t b"
  show ?case
    using Cons handle_history(1) [OF Cons.prems, of newest wa caption env s t]
    by (simp add: r last_n_append_last_n)
qed simp

lemma ring_run_tracks:
  assumes "tracks es b" "wf_log es" "desc_order newest"
    and "sorted_wrt (<) (map (\<lambda>(_, _, t). t) rs)"
    and "\<forall>(env, s, t) \<in> set rs. re_saved env \<and> re_pruned env \<and> int64_range t \<and> (\<forall>h \<in> set es. ev_time (fst h) < t)"
  shows "tracks (es @ ring_log (nextSeq b) rs) (ring_run newest wa caption rs b) \<and> wf_log (es @ ring_log (nextSeq b) rs)"
  using assms
proof (induction rs arbitrary: b es)
  case (Cons r rs)
  obtain env s t where r: "r = (env, s, t)" by (cases r)
  let ?e = "ring_entry (Suc (nextSeq b)) env s t"
  have h: "tracks (es @ [?e]) (handle newest wa caption env s t b)" "wf_log (es @ [?e])"
    using Cons.prems by (auto simp: r intro: handle_tracks wf_log_snoc)
  have "\<forall>(env, s, t) \<in> set rs. re_saved env \<and> re_pruned env \<and> int64_range t \<and> (\<forall>h \<in> set (es @ [?e]). ev_time (fst h) < t)"
    using Cons.prems(4,5) by (auto simp: r)
  from Cons.IH [OF h Cons.prems(3) _ this] Cons.prems(4) show ?case by (simp add: r)
qed simp

lemma find_latest:
  assumes "wf_log es" "history b = last_n historyCap es" "latest b = latest_of es"
  shows "LatestSnapshot s b = (case List.find (\<lambda>h. ev_stream (fst h) = s) (rev (history b)) of
      Some h \<Rightarrow> (snd h, ev_time (fst h), length (snd h) > 0) | None \<Rightarrow> ([], zero_instant, False))"
proof -
  let ?p = "\<lambda>h :: historyEntry. ev_stream (fst h) = s"
  obtain old where old: "es = old @ history b" unfolding assms(2) last_n_def by (metis append_take_drop_id)
  have uniq: "List.find (\<lambda>h. ev_id (fst h) = ev_id (fst g)) (rev (history b)) = (if g \<in> set (history b) then Some g else None)"
    if "g \<in> set es" for g
  proof (cases "List.find (\<lambda>h. ev_id (fst h) = ev_id (fst g)) (rev (history b))")
    case None
    then show ?thesis by (auto simp: find_None_iff2)
  next
    case (Some h)
    then have "h \<in> set (history b)" "ev_id (fst h) = ev_id (fst g)" by (auto dest: find_SomeD)
    then have "h = g" using wf_log_ids_inj [OF assms(1)] that old by auto
    with Some \<open>h \<in> set (history b)\<close> show ?thesis by simp
  qed
  show ?thesis
  proof (cases "List.find ?p (rev es)")
    case None
    then have "List.find ?p (rev (history b)) = None" by (auto simp: old find_None_iff2)
    with None show ?thesis by (simp add: LatestSnapshot_def assms(3) latest_of_def)
  next
    case (Some g)
    then have g: "g \<in> set es" by (auto dest: find_SomeD)
    have "List.find ?p (rev es) = (case List.find ?p (rev (history b)) of Some h \<Rightarrow> Some h | None \<Rightarrow> List.find ?p (rev old))"
      by (simp add: old find_append split: option.split)
    with Some have split: "List.find ?p (rev (history b)) = Some g \<or> List.find ?p (rev (history b)) = None" 
      by (auto split: option.splits)
    have mem: "g \<in> set (history b) \<longleftrightarrow> List.find ?p (rev (history b)) = Some g"
    proof
      assume "g \<in> set (history b)"
      moreover have "?p g" using Some by (auto dest: find_SomeD)
      ultimately have "List.find ?p (rev (history b)) \<noteq> None" by (auto simp: find_None_iff2)
      with split show "List.find ?p (rev (history b)) = Some g" by simp
    qed (auto dest: find_SomeD)
    with split uniq [OF g] Some show ?thesis
      by (auto simp: LatestSnapshot_def SnapshotByEvent_def assms(3) latest_of_def)
  qed
qed

section \<open>What a page is sent\<close>

fun rings_of :: "sse_pick list \<Rightarrow> BellEvent list" where
  "rings_of [] = []"
| "rings_of (SseRing ev # ps) = ev # rings_of ps"
| "rings_of (_ # ps) = rings_of ps"

definition sent_rings :: "BellEvent option list \<Rightarrow> BellEvent list" where
  "sent_rings fs = map the (filter (\<lambda>f. f \<noteq> None) fs)"

lemma sent_rings_simps [simp]:
  "sent_rings [] = []" "sent_rings (None # fs) = sent_rings fs" "sent_rings (Some ev # fs) = ev # sent_rings fs"
  by (simp_all add: sent_rings_def)

lemma subseq_offer: "subseq (offer ev q) (q @ [ev])"
proof -
  have "subseq (tl q @ [ev]) (q @ [ev])" by (cases q) auto
  moreover have "subseq (tl q) (q @ [ev])" by (cases q) (auto intro: subseq_append' list_emb_append2)
  ultimately show ?thesis by (simp add: offer_def Let_def)
qed

lemma subs_broadcast: "subs b ch = Some q \<Longrightarrow> subs (broadcast ev b) ch = Some (offer ev q)"
  by (simp add: broadcast_def)

lemma sse_loop_sends:
  assumes "subs b ch = Some q"
  shows "subseq (sent_rings (fst (sse_loop ch ps b))) (q @ rings_of ps)"
  using assms
proof (induction ch ps b arbitrary: q rule: sse_loop.induct)
  case (3 ch ev ps b)
  have "subseq (sent_rings (fst (sse_loop ch ps (broadcast ev b)))) (offer ev q @ rings_of ps)"
    by (rule "3.IH") (rule subs_broadcast [OF "3.prems"])
  also have "subseq \<dots> ((q @ [ev]) @ rings_of ps)" by (rule list_emb_append_mono [OF subseq_offer]) simp
  finally show ?case by simp
next
  case (4 ch ok ps b)
  then show ?case by (cases ok) (simp_all add: case_prod_unfold)
next
  case (5 ch ok ps b)
  then show ?case
  proof (cases q)
    case (Cons ev q')
    show ?thesis
    proof (cases ok)
      case True
      have "subseq (sent_rings (fst (sse_loop ch ps (b\<lparr>subs := (subs b)(ch \<mapsto> q')\<rparr>)))) (q' @ rings_of ps)"
        by (rule "5.IH"(2) [OF "5.prems" Cons refl True]) simp
      then show ?thesis using Cons True "5.prems" by (simp add: Let_def case_prod_unfold)
    qed (use Cons "5.prems" in \<open>simp add: Let_def\<close>)
  qed (use 5 in simp)
qed simp_all

text \<open>
  Whatever the pace of the page and wherever it stops, it is sent rings that happened while it was
  subscribed, each at most as often as it happened and in order; nothing of its subscription is left.
\<close>

lemma page_is_sent_rings_in_order:
  "subseq (sent_rings (snd (fst (HandleEvents flushes ch ps b)))) (rings_of ps)
   \<and> (flushes \<longrightarrow> subs (snd (HandleEvents flushes ch ps b)) ch = None)"
  using sse_loop_sends [of "Subscribe ch b" ch "[]" ps]
  by (simp add: HandleEvents_def Subscribe_def Unsubscribe_def case_prod_unfold)

lemma prompt_page_is_sent_every_ring:
  "subs b ch = Some [] \<Longrightarrow>
   sent_rings (fst (sse_loop ch (concat (map (\<lambda>ev. [SseRing ev, SseTake True]) evs)) b)) = evs"
proof (induction evs arbitrary: b)
  case (Cons ev evs)
  have "subs (broadcast ev b) ch = Some [ev]" using Cons.prems by (simp add: broadcast_def offer_def subBuffer_def)
  with Cons.IH [of "(broadcast ev b)\<lparr>subs := (subs (broadcast ev b))(ch \<mapsto> [])\<rparr>"]
  show ?case by (simp add: Let_def case_prod_unfold)
qed simp

section \<open>Properties\<close>

text \<open>
  C21: Of any time-ordered rings, the accepted ones of a door are at least the debounce interval
  apart, and every ring is within the interval of an accepted one.
\<close>

theorem bell_is_debounced:
  assumes "sorted (map fst rings)" "\<forall>r \<in> set rings. zero_instant + bellDebounce \<le> fst r"
  shows "sorted_wrt (\<lambda>x y. snd x = snd y \<longrightarrow> bellDebounce \<le> time_sub (fst y) (fst x)) (accepted debounce rings Map.empty)
    \<and> (\<forall>x \<in> set rings. \<exists>y \<in> set (accepted debounce rings Map.empty).
          snd y = snd x \<and> time_sub (fst x) (fst y) < bellDebounce)"
  by (rule bd.accepted_throttled [OF assms])

lemma history_is_the_last_fifty_rings:
  assumes "length (history b) \<le> historyCap"
  shows "history (ring_run newest wa caption rs b) = last_n 50 (history b @ ring_log (nextSeq b) rs)
    \<and> History (ring_run newest wa caption rs b) = map fst (take 50 (rev (history b @ ring_log (nextSeq b) rs)))"
  using ring_run_history [OF assms, of newest wa caption rs]
  by (simp add: History_def historyCap_def rev_map take_rev_last_n [symmetric] flip: rev_map)


lemma slow_subscriber_keeps_newest_events:
  assumes "subs b ch = Some q" "length q \<le> 8"
  shows "subs (fold broadcast evs b) ch = Some (last_n 8 (q @ evs))"
  using assms
proof (induction evs arbitrary: b q)
  case (Cons ev evs)
  have "subs (broadcast ev b) ch = Some (last_n 8 (q @ [ev]))"
    using Cons.prems offer_last_n [of q ev] by (simp add: broadcast_def subBuffer_def)
  from Cons.IH [OF this] have "subs (fold broadcast evs (broadcast ev b)) ch = Some (last_n 8 (last_n 8 (q @ [ev]) @ evs))"
    by simp
  then show ?case by (simp add: last_n_append_last_n)
qed simp

section \<open>Witnesses\<close>

theorem bell_is_debounced_witness:
  "\<exists>y \<in> set (accepted debounce [(0, ''vto1''), (second, ''vto1''), (20 * second, ''vto1'')] Map.empty). snd y = ''vto1''"
proof -
  let ?rings = "[(0, ''vto1''), (second, ''vto1''), (20 * second, ''vto1'')] :: (instant \<times> string) list"
  have "sorted (map fst ?rings)" "\<forall>r \<in> set ?rings. zero_instant + bellDebounce \<le> fst r"
    by (simp_all add: zero_instant_def bellDebounce_def)
  from bell_is_debounced [OF this, THEN conjunct2, THEN bspec, of "(0, ''vto1'')"]
  obtain y where "y \<in> set (accepted debounce ?rings Map.empty)" "snd y = snd (0 :: instant, ''vto1'')" by force
  then show ?thesis by (intro bexI [of _ y]) (simp_all only: snd_conv)
qed

definition by_time_desc :: "bell_row list \<Rightarrow> bell_row list" where
  "by_time_desc rs = rev (sort_key r_at rs)"

lemma by_time_desc_order: "desc_order by_time_desc"
  by (simp add: desc_order_def by_time_desc_def rev_map)

definition quick_ring :: "instant \<Rightarrow> ring" where
  "quick_ring t = (\<lparr>re_snap = Some ''JPEG'', re_saved = True, re_pruned = True\<rparr>, one_stream, t)"

lemma history_is_the_last_fifty_rings_witness:
  "length (history (ring_run by_time_desc False (\<lambda>_ _. []) [quick_ring 5, quick_ring 9]
     (NewBellBus by_time_desc True [one_stream] None))) = 2"
proof -
  have "length (history (NewBellBus by_time_desc True [one_stream] None)) \<le> historyCap"
    by (simp add: NewBellBus_def LoadRecent_def)
  from history_is_the_last_fifty_rings [OF this, of by_time_desc False "\<lambda>_ _. []" "[quick_ring 5, quick_ring 9]", THEN conjunct1]
  show ?thesis by (simp only:) (simp add: quick_ring_def NewBellBus_def LoadRecent_def)
qed


lemma slow_subscriber_keeps_newest_events_witness:
  "subs (fold broadcast [fst (ring_entry 1 \<lparr>re_snap = None, re_saved = True, re_pruned = True\<rparr> one_stream 5)]
      (Subscribe 3 (NewBellBus by_time_desc True [one_stream] None))) 3
   = Some [fst (ring_entry 1 \<lparr>re_snap = None, re_saved = True, re_pruned = True\<rparr> one_stream 5)]"
  by (subst slow_subscriber_keeps_newest_events [of _ _ "[]"]) (simp_all add: Subscribe_def)

end
