(* ===== verification/Wire.thy ===== *)
theory Wire
  imports GoCodec
begin

text \<open>
  Line-oriented reading from a byte stream (\<open>bufio.Reader\<close>), shared by the event stream and
  the RTSP client: the unread input is a byte string, and a read past its end is an error.
\<close>

definition CR :: char where "CR = CHR 0x0D"
definition LF :: char where "LF = CHR 0x0A"

definition eol :: string where "eol = [CR, LF]"

text \<open>\<open>bufio.Reader.ReadString\<close> with a newline delimiter.\<close>

definition read_line :: "string \<Rightarrow> (string \<times> string) option" where
  "read_line s = (if LF \<in> set s
     then Some (takeWhile (\<lambda>c. c \<noteq> LF) s @ [LF], tl (dropWhile (\<lambda>c. c \<noteq> LF) s)) else None)"

definition trim_eol :: "string \<Rightarrow> string" where
  "trim_eol line = trim_right_set {CR, LF} line"

lemma read_line_shorter: "read_line s = Some (l, r) \<Longrightarrow> length r < length s"
proof -
  assume "read_line s = Some (l, r)"
  then have "LF \<in> set s" "r = tl (dropWhile (\<lambda>c. c \<noteq> LF) s)" by (auto simp: read_line_def split: if_splits)
  moreover from this have "dropWhile (\<lambda>c. c \<noteq> LF) s \<noteq> []" by (auto simp: dropWhile_eq_Nil_conv)
  moreover have "length (dropWhile (\<lambda>c. c \<noteq> LF) s) \<le> length s" by (rule length_dropWhile_le)
  ultimately show ?thesis by (cases "dropWhile (\<lambda>c. c \<noteq> LF) s") auto
qed

lemma LF_not_CR [simp]: "LF \<noteq> CR" "CR \<noteq> LF"
  by (simp_all add: LF_def CR_def)

lemma read_line_at: "LF \<notin> set l \<Longrightarrow> read_line (l @ LF # s) = Some (l @ [LF], s)"
proof -
  assume l: "LF \<notin> set l"
  then have "takeWhile (\<lambda>c. c \<noteq> LF) (l @ LF # s) = l" "dropWhile (\<lambda>c. c \<noteq> LF) (l @ LF # s) = LF # s"
    by (induction l) auto
  then show ?thesis by (simp add: read_line_def)
qed

lemma trim_eol_LF: "trim_eol (l @ [LF]) = trim_right_set {CR, LF} l"
  unfolding trim_eol_def by (rule trim_right_set_append) simp

lemma trim_eol_CRLF: "l = [] \<or> last l \<notin> {CR, LF} \<Longrightarrow> trim_eol ((l @ [CR]) @ [LF]) = l"
  unfolding trim_eol_LF using trim_right_set_append [of "[CR]" "{CR, LF}" l] trim_right_set_id [of l "{CR, LF}"] by simp

lemma read_line_eol: "LF \<notin> set l \<Longrightarrow> read_line (l @ eol @ s) = Some (l @ eol, s)"
  using read_line_at [of "l @ [CR]" s] by (simp add: eol_def)

lemma trim_eol_eol: "l = [] \<or> last l \<notin> {CR, LF} \<Longrightarrow> trim_eol (l @ eol) = l"
  using trim_eol_CRLF [of l] by (simp add: eol_def)

lemma format_int_no_eol: "c \<in> set (format_int n) \<Longrightarrow> c \<noteq> LF \<and> c \<noteq> CR \<and> graphic c"
  using format_int_chars [of c n] by (auto simp: is_digit_def graphic_def LF_def CR_def)

end
