(* ===== verification/EventAttach.thy ===== *)
theory EventAttach
  imports Doors Wire
begin

text \<open>
  \<open>eventattach.go\<close>: the long-lived event stream of a door station.  The response body is a
  byte string followed by the end of the connection; a read past it is the error that ends
  the subscription.  \<open>consume\<close> yields the bell codes handed to the bus, in order.
\<close>

definition eventAttachReconnectDelay :: duration where
  "eventAttachReconnectDelay = 5 * second"

section \<open>Reading parts\<close>

definition boundary :: string where
  "boundary = ''--myboundary''"

function skip_to_boundary :: "string \<Rightarrow> string option" where
  "skip_to_boundary s = (case read_line s of
      None \<Rightarrow> None
    | Some (line, r) \<Rightarrow> if trim_eol line = boundary then Some r else skip_to_boundary r)"
  by pat_completeness auto
termination by (relation "measure length") (auto dest: read_line_shorter)

text \<open>The header loop: the last parsable \<open>Content-Length\<close> wins.\<close>

definition header_length :: "string \<Rightarrow> int \<Rightarrow> int" where
  "header_length line n = (case cut CHR '':'' line of (k, v, ok) \<Rightarrow>
     if ok \<and> equal_fold (trim_space k) ''Content-Length''
     then (case parse_int (trim_space v) of None \<Rightarrow> n | Some m \<Rightarrow> m) else n)"

function read_headers :: "int \<Rightarrow> string \<Rightarrow> (int \<times> string) option" where
  "read_headers n s = (case read_line s of
      None \<Rightarrow> None
    | Some (line, r) \<Rightarrow>
        if trim_eol line = [] then Some (n, r) else read_headers (header_length (trim_eol line) n) r)"
  by pat_completeness auto
termination by (relation "measure (\<lambda>(n, s). length s)") (auto dest: read_line_shorter)

declare skip_to_boundary.simps [simp del] read_headers.simps [simp del]

definition readNextPart :: "string \<Rightarrow> (string \<times> string) option" where
  "readNextPart s = (case skip_to_boundary s of
      None \<Rightarrow> None
    | Some r \<Rightarrow> (case read_headers (-1) r of
        None \<Rightarrow> None
      | Some (n, r) \<Rightarrow>
          if n < 0 then None
          else if length r < nat n then None
          else Some (take (nat n) r, drop (nat n) r)))"

section \<open>Events\<close>

definition isHeartbeat :: "string \<Rightarrow> bool" where
  "isHeartbeat body \<longleftrightarrow> trim_space body = ''Heartbeat''"

definition eventCode :: "string \<Rightarrow> string" where
  "eventCode body = (if prefix ''Code='' body
     then takeWhile (\<lambda>c. c \<noteq> CHR '';'' \<and> c \<noteq> CR \<and> c \<noteq> LF) (drop 5 body) else [])"

definition handleEvent :: "string \<Rightarrow> string option" where
  "handleEvent body = (let code = eventCode (trim_space body)
     in if code = ''Invite'' \<or> code = ''CallNoAnswered'' then Some code else None)"

datatype attach_end = AttachCanceled | AttachFailed

text \<open>\<open>consume\<close>: the context is found cancelled at the check numbered \<open>n\<close>.\<close>

fun consume :: "nat \<Rightarrow> string \<Rightarrow> string list \<times> attach_end" where
  "consume 0 s = ([], AttachCanceled)"
| "consume (Suc n) s = (case readNextPart s of
      None \<Rightarrow> ([], AttachFailed)
    | Some (body, r) \<Rightarrow>
        (case consume n r of (codes, e) \<Rightarrow>
          (if isHeartbeat body then codes else (case handleEvent body of None \<Rightarrow> codes | Some c \<Rightarrow> c # codes), e)))"

section \<open>Attaching\<close>

definition attach_target :: "StreamConfig \<Rightarrow> string" where
  "attach_target s = ''http://'' @ host s @ ''/cgi-bin/eventManager.cgi?action=attach&codes=%5BAll%5D&heartbeat=10''"

text \<open>\<open>attachOnce\<close> up to the stream it consumes; the body of the successful reply is the stream.\<close>

definition attach_stream ::
  "(string \<Rightarrow> string) \<Rightarrow> string \<Rightarrow> (string \<Rightarrow> bool) \<Rightarrow> 'w http_send \<Rightarrow> StreamConfig
     \<Rightarrow> 'w \<Rightarrow> string option \<times> 'w" where
  "attach_stream md5 bytes url_ok send s w =
    (let target = attach_target s
     in (case send target [] w of
          (Inl _, w1) \<Rightarrow> (None, w1)
        | (Inr resp, w1) \<Rightarrow>
            if rstatus resp = 200 then (Some (the (rbody resp)), w1)
            else if rstatus resp \<noteq> 401 then (None, w1)
            else (case parseDigestChallenge (rchallenge resp) of
                None \<Rightarrow> (None, w1)
              | Some chal \<Rightarrow> (case request_uri url_ok target of
                  None \<Rightarrow> (None, w1)
                | Some uri \<Rightarrow>
                    (case send target (buildDigestResponse md5 bytes ''GET'' uri (user s) (pass s) chal) w1 of
                       (Inl _, w2) \<Rightarrow> (None, w2)
                     | (Inr authed, w2) \<Rightarrow>
                         if rstatus authed \<noteq> 200 then (None, w2) else (Some (the (rbody authed)), w2))))))"

definition attachOnce ::
  "(string \<Rightarrow> string) \<Rightarrow> string \<Rightarrow> (string \<Rightarrow> bool) \<Rightarrow> 'w http_send \<Rightarrow> nat \<Rightarrow> StreamConfig
     \<Rightarrow> 'w \<Rightarrow> (string list \<times> attach_end) \<times> 'w" where
  "attachOnce md5 bytes url_ok send n s w = (case attach_stream md5 bytes url_ok send s w of
      (None, w') \<Rightarrow> (([], AttachFailed), w')
    | (Some body, w') \<Rightarrow> (consume n body, w'))"

interpretation attach: challenge_client "{401}" "plain_send send (attach_target s)"
    "door_answer md5 bytes url_ok s (attach_target s)" "attach_stream md5 bytes url_ok send s"
  for send md5 bytes url_ok s
  by unfold_locales
    (auto simp: attach_stream_def handshake_def plain_send_def door_answer_def answer_challenge_def Let_def
      split: option.splits prod.splits sum.splits if_splits)

text \<open>
  \<open>subscribeLoop\<close> over the ends of its attempts and whether the context is done during the
  delay after each: the number of attempts made.
\<close>

fun subscribeLoop :: "(attach_end \<times> bool) list \<Rightarrow> nat" where
  "subscribeLoop [] = 0"
| "subscribeLoop ((AttachCanceled, _) # es) = 1"
| "subscribeLoop ((AttachFailed, done) # es) = (if done then 1 else Suc (subscribeLoop es))"

text \<open>\<open>Run\<close>: one loop per stream, side by side; it returns when all have, so at once when there is none.\<close>

definition EventRun :: "(StreamConfig \<Rightarrow> (attach_end \<times> bool) list) \<Rightarrow> StreamConfig list \<Rightarrow> (string \<times> nat) list" where
  "EventRun env ss = map (\<lambda>s. (sid s, subscribeLoop (env s))) ss"

section \<open>A part as the firmware writes it\<close>

definition render_part :: "string \<Rightarrow> string" where
  "render_part body = boundary @ eol @ ''Content-Type: text/plain'' @ eol
     @ ''Content-Length: '' @ format_int (int (length body)) @ eol @ eol @ body"

text \<open>Lines between parts that are not a boundary.\<close>

inductive noise :: "string \<Rightarrow> bool" where
  "noise []"
| "LF \<notin> set l \<Longrightarrow> trim_right_set {CR, LF} l \<noteq> boundary \<Longrightarrow> noise s \<Longrightarrow> noise (l @ LF # s)"

lemma skip_noise: "noise n \<Longrightarrow> skip_to_boundary (n @ s) = skip_to_boundary s"
proof (induction rule: noise.induct)
  case (2 l n)
  have "skip_to_boundary (l @ LF # (n @ s)) = skip_to_boundary (n @ s)"
    by (subst skip_to_boundary.simps) (simp add: read_line_at 2 trim_eol_LF)
  with 2 show ?case by simp
qed simp

lemma header_line:
  assumes "LF \<notin> set l" "l \<noteq> []" "last l \<notin> {CR, LF}"
  shows "read_headers n (l @ eol @ s) = read_headers (header_length l n) s"
proof -
  have "read_line ((l @ [CR]) @ LF # s) = Some ((l @ [CR]) @ [LF], s)"
    using assms(1) by (intro read_line_at) simp
  moreover have "trim_eol ((l @ [CR]) @ [LF]) = l" using assms by (intro trim_eol_CRLF) simp
  ultimately show ?thesis using assms(2) by (subst read_headers.simps) (simp add: eol_def)
qed

lemma content_length_header:
  "int64_range n \<Longrightarrow> header_length (''Content-Length: '' @ format_int n) m = n"
proof -
  assume r: "int64_range n"
  have ne: "format_int n \<noteq> []" by (auto simp: format_int_def)
  have g: "graphic (hd (format_int n))" "graphic (last (format_int n))"
    using format_int_no_eol [OF hd_in_set [OF ne]] format_int_no_eol [OF last_in_set [OF ne]] by simp_all
  have c: "cut CHR '':'' (''Content-Length: '' @ format_int n) = (''Content-Length'', CHR '' '' # format_int n, True)"
    using cut_at [of "CHR '':''" "''Content-Length''"] by simp
  have "trim_space ''Content-Length'' = ''Content-Length''" by (rule trim_space_graphic) (simp_all add: graphic_def)
  with r show ?thesis
    unfolding header_length_def c
    by (simp add: equal_fold_def trim_space_lead [OF ne g] parse_int_format_int)
qed

lemma readNextPart_render:
  assumes "noise n" "int64_range (int (length body))"
  shows "readNextPart (n @ render_part body @ s) = Some (body, s)"
proof -
  let ?hdrs = "''Content-Type: text/plain'' @ eol @ ''Content-Length: '' @ format_int (int (length body)) @ eol @ eol @ body @ s"
  have "skip_to_boundary (n @ render_part body @ s) = skip_to_boundary (boundary @ eol @ ?hdrs)"
    by (simp add: skip_noise [OF assms(1)] render_part_def)
  also have "\<dots> = Some ?hdrs"
  proof -
    have "read_line ((boundary @ [CR]) @ LF # ?hdrs) = Some ((boundary @ [CR]) @ [LF], ?hdrs)"
      by (rule read_line_at) (simp add: boundary_def LF_def CR_def)
    moreover have "trim_eol ((boundary @ [CR]) @ [LF]) = boundary"
      by (rule trim_eol_CRLF) (simp add: boundary_def LF_def CR_def)
    ultimately show ?thesis by (subst skip_to_boundary.simps) (simp add: eol_def)
  qed
  finally have skip: "skip_to_boundary (n @ render_part body @ s) = Some ?hdrs" .
  have ne: "format_int (int (length body)) \<noteq> []" by (auto simp: format_int_def)
  have ct: "header_length ''Content-Type: text/plain'' (-1) = -1"
  proof -
    have "cut CHR '':'' ''Content-Type: text/plain'' = (''Content-Type'', '' text/plain'', True)" by simp
    moreover have "trim_space ''Content-Type'' = ''Content-Type''" by (rule trim_space_graphic) (simp_all add: graphic_def)
    moreover have "\<not> equal_fold ''Content-Type'' ''Content-Length''" by code_simp
    ultimately show ?thesis by (simp only: header_length_def prod.case if_False simp_thms)
  qed
  have "read_headers (-1) ?hdrs
      = read_headers (header_length ''Content-Type: text/plain'' (-1))
          (''Content-Length: '' @ format_int (int (length body)) @ eol @ eol @ body @ s)"
    by (rule header_line) (simp_all add: LF_def CR_def)
  also have "\<dots> = read_headers (-1) ((''Content-Length: '' @ format_int (int (length body))) @ eol @ eol @ body @ s)"
    by (simp only: ct append_assoc)
  also have "\<dots> = read_headers (header_length (''Content-Length: '' @ format_int (int (length body))) (-1)) (eol @ body @ s)"
  proof (rule header_line)
    show "LF \<notin> set (''Content-Length: '' @ format_int (int (length body)))"
      using format_int_no_eol [of LF] by (auto simp: LF_def)
    show "last (''Content-Length: '' @ format_int (int (length body))) \<notin> {CR, LF}"
      using format_int_no_eol [OF last_in_set [OF ne]] ne by simp
  qed simp
  also have "\<dots> = Some (int (length body), body @ s)"
  proof -
    have "read_line ([CR] @ LF # body @ s) = Some ([CR] @ [LF], body @ s)" by (rule read_line_at) simp
    moreover have "trim_eol ([CR] @ [LF]) = []" using trim_eol_CRLF [of "[]"] by simp
    ultimately show ?thesis
      unfolding content_length_header [OF assms(2)]
      by (subst read_headers.simps) (simp add: eol_def)
  qed
  finally show ?thesis by (simp add: readNextPart_def skip)
qed

text \<open>What a sequence of parts means: the codes of its bell events.\<close>

definition bell_codes :: "string list \<Rightarrow> string list" where
  "bell_codes bodies = concat (map (\<lambda>b. if isHeartbeat b then [] else (case handleEvent b of None \<Rightarrow> [] | Some c \<Rightarrow> [c])) bodies)"

section \<open>Properties\<close>


definition ring_body :: string where
  "ring_body = ''Code=Invite;action=Pulse;index=0''"


section \<open>The loop ends with the connection\<close>

lemma skip_to_boundary_shorter: "skip_to_boundary s = Some r \<Longrightarrow> length r < length s"
proof (induction s arbitrary: r rule: skip_to_boundary.induct)
  case (1 s)
  then show ?case
    by (subst (asm) (2) skip_to_boundary.simps)
      (fastforce dest: read_line_shorter split: option.splits prod.splits if_splits)
qed

lemma read_headers_shorter: "read_headers n s = Some (m, r) \<Longrightarrow> length r < length s"
proof (induction n s arbitrary: m r rule: read_headers.induct)
  case (1 n s)
  then show ?case
    by (subst (asm) (2) read_headers.simps)
      (fastforce dest: read_line_shorter split: option.splits prod.splits if_splits)
qed

lemma readNextPart_shorter: "readNextPart s = Some (body, r) \<Longrightarrow> length r < length s"
  by (auto simp: readNextPart_def dest!: skip_to_boundary_shorter read_headers_shorter
      split: option.splits prod.splits if_splits)

lemma consume_enough:
  "length s < n \<Longrightarrow> length s < m \<Longrightarrow>
     consume n s = consume m s \<and> snd (consume n s) = AttachFailed \<and> length (fst (consume n s)) \<le> length s"
proof (induction n arbitrary: m s)
  case (Suc n)
  then obtain k where k: "m = Suc k" by (cases m) auto
  show ?case
  proof (cases "readNextPart s")
    case (Some part)
    obtain body r where part: "part = (body, r)" by fastforce
    have r: "length r < length s" using readNextPart_shorter Some part by simp
    have ih: "consume n r = consume k r \<and> snd (consume n r) = AttachFailed \<and> length (fst (consume n r)) \<le> length r"
      by (rule Suc.IH) (use r Suc.prems k in simp_all)
    obtain codes x where c: "consume k r = (codes, x)" by fastforce
    have same: "consume n r = (codes, AttachFailed)" "x = AttachFailed" "length codes \<le> length r"
      using ih unfolding c by (auto simp: prod_eq_iff)
    show ?thesis using Some part r k c same by (auto split: option.split)
  qed (simp add: k)
qed simp

text \<open>
  On any bytes the loop returns by itself at the end of the connection, after at most one round per byte,
  whether or not its context is ever found cancelled.
\<close>



end
