(* ===== verification/Transcode.thy ===== *)
theory Transcode
  imports Prelude
begin

text \<open>
  \<open>transcode.go\<close>: re-encoding camera audio as PCMA at 8 kHz.  Samples are the \<open>int16\<close> and
  \<open>int32\<close> values of the code as integers (every intermediate value fits its type, which the
  range lemmas show), bytes and header fields are words of their width.
\<close>

section \<open>Packets\<close>

record rtp_packet =
  ssrc :: "32 word"
  payloadType :: "8 word"
  sequenceNumber :: "16 word"
  timestamp :: "32 word"
  marker :: bool
  payload :: "byte list"

section \<open>Companding\<close>

definition cClip :: int where
  "cClip = 32635"

definition alaw_segment :: "int \<Rightarrow> nat" where
  "alaw_segment pcm = (if pcm < 256 then 0 else if pcm < 512 then 1 else if pcm < 1024 then 2
     else if pcm < 2048 then 3 else if pcm < 4096 then 4 else if pcm < 8192 then 5
     else if pcm < 16384 then 6 else 7)"

definition linearToALaw :: "int \<Rightarrow> byte" where
  "linearToALaw pcm0 =
    (let sign = (if pcm0 \<ge> 0 then 0xD5 else 0x55 :: byte);
         pcm1 = (if pcm0 \<ge> 0 then pcm0 else NOT pcm0);
         pcm = (if pcm1 > cClip then cClip else pcm1);
         seg = alaw_segment pcm;
         mantissa = (if seg = 0 then word_of_int (drop_bit 4 pcm AND 0x0F)
                     else word_of_int (drop_bit (seg + 3) pcm AND 0x0F) :: byte)
     in (push_bit 4 (of_nat seg) OR mantissa) XOR sign)"

definition uLawToLinear :: "byte \<Rightarrow> int" where
  "uLawToLinear u0 =
    (let ulaw = NOT u0;
         sample = push_bit (unat (drop_bit 4 (ulaw AND 0x70))) (push_bit 3 (uint (ulaw AND 0x0F)) + 0x84)
     in if ulaw AND 0x80 \<noteq> 0 then 0x84 - sample else sample - 0x84)"

section \<open>Forwarders\<close>

text \<open>A big-endian \<open>int16\<close> sample, and Go's truncating division by two.\<close>

definition be16 :: "byte \<Rightarrow> byte \<Rightarrow> int" where
  "be16 hi lo = sint (word_cat hi lo :: 16 word)"

definition half :: "int \<Rightarrow> int" where
  "half x = (if x \<ge> 0 then x div 2 else - ((- x) div 2))"

fun decimate :: "byte list \<Rightarrow> byte list" where
  "decimate (a # b # c # d # r) = linearToALaw (half (be16 a b + be16 c d)) # decimate r"
| "decimate _ = []"

text \<open>What a forwarder writes for one packet; \<open>None\<close> when it writes nothing.\<close>

definition l16ToPCMA :: "rtp_packet \<Rightarrow> rtp_packet option" where
  "l16ToPCMA p = (if length (payload p) div 2 < 2 then None
     else Some (p\<lparr>timestamp := timestamp p div 2, payload := decimate (payload p)\<rparr>))"

definition uLawToALaw :: "rtp_packet \<Rightarrow> rtp_packet option" where
  "uLawToALaw p = Some (p\<lparr>payload := map (\<lambda>u. linearToALaw (uLawToLinear u)) (payload p)\<rparr>)"

definition audioCodecs :: "string list" where
  "audioCodecs = [''L16'', ''PCMA'', ''PCMU'']"

definition audioForwarder :: "string \<Rightarrow> (rtp_packet \<Rightarrow> rtp_packet option) option" where
  "audioForwarder codec =
    (if codec = ''PCMA'' then Some Some
     else if codec = ''PCMU'' then Some uLawToALaw
     else if codec = ''L16'' then Some l16ToPCMA
     else None)"

section \<open>The reference decoder\<close>

text \<open>G.711 A-law expansion, the inverse the listener applies.\<close>

definition alawToLinear :: "byte \<Rightarrow> int" where
  "alawToLinear b =
    (let a = b XOR 0x55; t = push_bit 4 (uint (a AND 0x0F)); seg = unat (drop_bit 4 (a AND 0x70));
         t = (if seg = 0 then t + 8 else push_bit (seg - 1) (t + 0x108))
     in if a AND 0x80 \<noteq> 0 then t else - t)"

lemma alaw_fields:
  "\<forall>s \<in> set [0..<8]. \<forall>m \<in> set [0..<16]. \<forall>sg \<in> {0xD5, 0x55 :: byte}.
     alawToLinear ((push_bit 4 (of_nat s) OR of_nat m) XOR sg)
     = (if sg = 0xD5 then 1 else -1) * (if s = 0 then 16 * int m + 8 else (16 * int m + 264) * 2 ^ (s - 1))"
  by code_simp

lemma and_15: "(x :: int) AND 15 = x mod 16"
  using take_bit_eq_mask [of 4 x] by (simp add: take_bit_eq_mod mask_eq_exp_minus_1)

lemma segment_error:
  assumes "0 < e" "256 * e \<le> pcm" "pcm < 512 * e"
  shows "\<bar>(16 * (pcm div (16 * e) mod 16) + 264) * e - pcm\<bar> \<le> 8 + pcm div (32 :: int)"
proof -
  define q r where "q = pcm div (16 * e)" and "r = pcm mod (16 * e)"
  have pcm: "pcm = (16 * e) * q + r" "0 \<le> r" "r < 16 * e"
    using assms(1) mult_div_mod_eq [of "16 * e" pcm] by (simp_all add: q_def r_def)
  have "16 \<le> q"
    using zdiv_mono1 [OF assms(2), of "16 * e"] assms(1) by (simp add: q_def)
  moreover have "q < 32"
  proof (rule ccontr)
    assume "\<not> q < 32"
    then have "(16 * e) * 32 \<le> (16 * e) * q" using assms(1) by (intro mult_left_mono) auto
    with pcm assms(3) show False by simp
  qed
  ultimately have qm: "q mod 16 = q - 16" using mod_pos_pos_trivial [of "q - 16" 16] minus_mod_self2 [of q 16] by simp
  have "(16 * (q mod 16) + 264) * e - pcm = 8 * e - r" unfolding qm pcm(1) by (simp add: algebra_simps)
  moreover have "8 * e \<le> pcm div 32" using zdiv_mono1 [OF assms(2), of 32] by simp
  ultimately show ?thesis using pcm(2,3) assms(1) by (simp add: q_def [symmetric])
qed

lemma alaw_magnitude:
  assumes pcm: "0 \<le> pcm" "pcm \<le> cClip" and sg: "sg = 0xD5 \<or> sg = (0x55 :: byte)"
    and s: "s = alaw_segment pcm"
  shows "\<exists>v. alawToLinear ((push_bit 4 (of_nat s)
            OR word_of_int (drop_bit (if s = 0 then 4 else s + 3) pcm AND 0x0F)) XOR sg)
          = (if sg = 0xD5 then 1 else -1) * v \<and> 0 \<le> v \<and> \<bar>v - pcm\<bar> \<le> 8 + pcm div 32"
proof -
  let ?k = "if s = 0 then 4 else s + 3"
  define m where "m = nat ((pcm div 2 ^ ?k) mod 16)"
  have mant: "word_of_int (drop_bit ?k pcm AND 0x0F) = (of_nat m :: byte)"
    by (simp add: m_def and_15 drop_bit_eq_div)
  have m16: "m < 16" by (simp add: m_def nat_less_iff)
  have s8: "s < 8" by (simp add: s alaw_segment_def)
  let ?v = "if s = 0 then 16 * int m + 8 else (16 * int m + 264) * 2 ^ (s - 1)"
  have dec: "alawToLinear ((push_bit 4 (of_nat s) OR of_nat m) XOR sg) = (if sg = 0xD5 then 1 else -1) * ?v"
    by (rule alaw_fields [THEN bspec, THEN bspec, THEN bspec]) (use sg s8 m16 in auto)
  have im: "int m = (pcm div 2 ^ ?k) mod 16" by (simp add: m_def)
  have "\<bar>?v - pcm\<bar> \<le> 8 + pcm div 32"
  proof -
    consider "s = 0" "pcm < 256" | "s = 1" "256 \<le> pcm" "pcm < 512" | "s = 2" "512 \<le> pcm" "pcm < 1024"
      | "s = 3" "1024 \<le> pcm" "pcm < 2048" | "s = 4" "2048 \<le> pcm" "pcm < 4096"
      | "s = 5" "4096 \<le> pcm" "pcm < 8192" | "s = 6" "8192 \<le> pcm" "pcm < 16384" | "s = 7" "16384 \<le> pcm"
      by (cases "pcm < 256", simp add: s alaw_segment_def,
        cases "pcm < 512", simp add: s alaw_segment_def,
        cases "pcm < 1024", simp add: s alaw_segment_def,
        cases "pcm < 2048", simp add: s alaw_segment_def,
        cases "pcm < 4096", simp add: s alaw_segment_def,
        cases "pcm < 8192", simp add: s alaw_segment_def,
        cases "pcm < 16384", simp add: s alaw_segment_def,
        simp add: s alaw_segment_def)
    then show ?thesis
    proof cases
      case 1
      then have "pcm div 16 mod 16 = pcm div 16" using pcm by (intro mod_pos_pos_trivial) auto
      moreover have "16 * (pcm div 16) + pcm mod 16 = pcm" "0 \<le> pcm mod 16" "pcm mod 16 < 16" by simp_all
      ultimately have "\<bar>16 * (pcm div 16 mod 16) + 8 - pcm\<bar> \<le> 8" by linarith
      moreover have "0 \<le> pcm div 32" using pcm(1) by (rule pos_imp_zdiv_nonneg_iff [THEN iffD2, rotated]) simp
      moreover have "?v = 16 * (pcm div 16 mod 16) + 8" unfolding im 1(1) by simp
      ultimately show ?thesis by (simp only:)
    next
      case 2
      have "?v = (16 * (pcm div (16 * 1) mod 16) + 264) * 1" unfolding im 2(1) by simp
      moreover have "\<bar>(16 * (pcm div (16 * 1) mod 16) + 264) * 1 - pcm\<bar> \<le> 8 + pcm div 32"
        by (rule segment_error) (use 2(2,3) in \<open>simp_all\<close>)
      ultimately show ?thesis by (simp only:)
    next
      case 3
      have "?v = (16 * (pcm div (16 * 2) mod 16) + 264) * 2" unfolding im 3(1) by simp
      moreover have "\<bar>(16 * (pcm div (16 * 2) mod 16) + 264) * 2 - pcm\<bar> \<le> 8 + pcm div 32"
        by (rule segment_error) (use 3(2,3) in \<open>simp_all\<close>)
      ultimately show ?thesis by (simp only:)
    next
      case 4
      have "?v = (16 * (pcm div (16 * 4) mod 16) + 264) * 4" unfolding im 4(1) by simp
      moreover have "\<bar>(16 * (pcm div (16 * 4) mod 16) + 264) * 4 - pcm\<bar> \<le> 8 + pcm div 32"
        by (rule segment_error) (use 4(2,3) in \<open>simp_all\<close>)
      ultimately show ?thesis by (simp only:)
    next
      case 5
      have "?v = (16 * (pcm div (16 * 8) mod 16) + 264) * 8" unfolding im 5(1) by simp
      moreover have "\<bar>(16 * (pcm div (16 * 8) mod 16) + 264) * 8 - pcm\<bar> \<le> 8 + pcm div 32"
        by (rule segment_error) (use 5(2,3) in \<open>simp_all\<close>)
      ultimately show ?thesis by (simp only:)
    next
      case 6
      have "?v = (16 * (pcm div (16 * 16) mod 16) + 264) * 16" unfolding im 6(1) by simp
      moreover have "\<bar>(16 * (pcm div (16 * 16) mod 16) + 264) * 16 - pcm\<bar> \<le> 8 + pcm div 32"
        by (rule segment_error) (use 6(2,3) in \<open>simp_all\<close>)
      ultimately show ?thesis by (simp only:)
    next
      case 7
      have "?v = (16 * (pcm div (16 * 32) mod 16) + 264) * 32" unfolding im 7(1) by simp
      moreover have "\<bar>(16 * (pcm div (16 * 32) mod 16) + 264) * 32 - pcm\<bar> \<le> 8 + pcm div 32"
        by (rule segment_error) (use 7(2,3) in \<open>simp_all\<close>)
      ultimately show ?thesis by (simp only:)
    next
      case 8
      have "?v = (16 * (pcm div (16 * 64) mod 16) + 264) * 64" unfolding im 8(1) by simp
      moreover have "\<bar>(16 * (pcm div (16 * 64) mod 16) + 264) * 64 - pcm\<bar> \<le> 8 + pcm div 32"
        by (rule segment_error) (use 8(2) pcm(2) in \<open>simp_all add: cClip_def\<close>)
      ultimately show ?thesis by (simp only:)
    qed
  qed
  moreover have "0 \<le> ?v" by simp
  ultimately show ?thesis unfolding mant using dec by blast
qed

lemma not_int: "NOT (x :: int) = - x - 1"
  by (simp add: not_int_def)

lemma alaw_error:
  assumes "- 32768 \<le> x" "x \<le> 32767"
  shows "\<bar>alawToLinear (linearToALaw x) - x\<bar> \<le> 9 + \<bar>x\<bar> div 32 + (if \<bar>x\<bar> > cClip then 132 else 0)"
proof -
  define m where "m = (if x \<ge> 0 then x else - x - 1)"
  define c where "c = (if m > cClip then cClip else m)"
  define sg where "sg = (if x \<ge> 0 then 0xD5 else 0x55 :: byte)"
  have enc: "linearToALaw x = (push_bit 4 (of_nat (alaw_segment c))
      OR word_of_int (drop_bit (if alaw_segment c = 0 then 4 else alaw_segment c + 3) c AND 0x0F)) XOR sg"
    by (simp add: linearToALaw_def Let_def c_def m_def sg_def not_int)
  have m0: "0 \<le> m" by (simp add: m_def)
  then have "0 \<le> c" "c \<le> cClip" by (auto simp: c_def cClip_def)
  moreover have "sg = 0xD5 \<or> sg = 0x55" by (simp add: sg_def)
  ultimately obtain v where v: "alawToLinear (linearToALaw x) = (if sg = 0xD5 then 1 else -1) * v"
    "0 \<le> v" "\<bar>v - c\<bar> \<le> 8 + c div 32"
    using alaw_magnitude [of c sg "alaw_segment c"] unfolding enc by blast
  have cm: "c \<le> m" "m - c \<le> (if \<bar>x\<bar> > cClip then 132 else 0)"
    using assms by (auto simp: c_def m_def cClip_def)
  have "c div 32 \<le> \<bar>x\<bar> div 32" using cm(1) m0 by (intro zdiv_mono1) (auto simp: m_def split: if_splits)
  with v cm show ?thesis by (cases "x \<ge> 0") (auto simp: sg_def m_def abs_if split: if_splits)
qed

section \<open>Ranges and lengths\<close>

lemma be16_range: "- 32768 \<le> be16 hi lo \<and> be16 hi lo \<le> 32767"
  using sint_greater_eq [of "word_cat hi lo :: 16 word"] sint_less [of "word_cat hi lo :: 16 word"] by (simp add: be16_def)

lemma half_range:
  "- 32768 \<le> a \<Longrightarrow> a \<le> 32767 \<Longrightarrow> - 32768 \<le> b \<Longrightarrow> b \<le> 32767 \<Longrightarrow> - 32768 \<le> half (a + b) \<and> half (a + b) \<le> 32767"
  by (auto simp: half_def)

lemma unat_lt2p_byte: "unat (u :: byte) < 256"
  using unsigned_less [of u, where 'a = nat] by simp

lemma uLaw_range: "\<bar>uLawToLinear u\<bar> \<le> 32124"
proof -
  have "\<forall>n \<in> set [0..<256]. \<bar>uLawToLinear (of_nat n)\<bar> \<le> 32124" by code_simp
  moreover have "unat u \<in> set [0..<256]" using unat_lt2p_byte [of u] by simp
  ultimately have "\<bar>uLawToLinear (of_nat (unat u))\<bar> \<le> 32124" by blast
  then show ?thesis by simp
qed

lemma length_decimate: "length (decimate xs) = length xs div 4"
  by (induction xs rule: decimate.induct) auto

section \<open>Properties\<close>

text \<open>What a listener hears of one sample: the A-law quantisation error of the reference decoder.\<close>

lemma companding_error_is_bounded:
  "(\<forall>x. - 32768 \<le> x \<and> x \<le> 32767 \<longrightarrow>
      \<bar>alawToLinear (linearToALaw x) - x\<bar> \<le> 9 + \<bar>x\<bar> div 32 + (if \<bar>x\<bar> > cClip then 132 else 0))
   \<and> (\<forall>u. \<bar>alawToLinear (linearToALaw (uLawToLinear u)) - uLawToLinear u\<bar> \<le> 9 + \<bar>uLawToLinear u\<bar> div 32)"
proof -
  have "\<bar>alawToLinear (linearToALaw (uLawToLinear u)) - uLawToLinear u\<bar> \<le> 9 + \<bar>uLawToLinear u\<bar> div 32" for u
    using alaw_error [of "uLawToLinear u"] uLaw_range [of u] by (simp add: cClip_def)
  with alaw_error show ?thesis by blast
qed

lemma forwarded_audio_is_eight_kilohertz_pcma:
  assumes "audioForwarder codec = Some fwd" "fwd p = Some q"
  shows "codec \<in> set audioCodecs \<and> ssrc q = ssrc p \<and> sequenceNumber q = sequenceNumber p \<and> marker q = marker p
    \<and> (if codec = ''L16''
       then length (payload q) = length (payload p) div 4 \<and> payload q \<noteq> [] \<and> timestamp q = timestamp p div 2
       else length (payload q) = length (payload p) \<and> timestamp q = timestamp p)"
proof -
  have ne: "length (payload p) div 2 \<ge> 2 \<Longrightarrow> decimate (payload p) \<noteq> []"
    using length_decimate [of "payload p"] by (metis div_greater_zero_iff div_mult2_eq length_greater_0_conv mult_2 numeral_Bit0 numeral_eq_Suc zero_less_numeral)
  from assms ne show ?thesis
    by (auto simp: audioForwarder_def audioCodecs_def uLawToALaw_def l16ToPCMA_def length_decimate split: if_splits)
qed

text \<open>
  Halving the timestamp is not a clock across the 32-bit wrap: two samples later in the
  source is one in the output everywhere except there.
\<close>

lemma halved_clock_jumps_at_wrap:
  "(0xFFFFFFFE + 2 :: 32 word) div 2 - 0xFFFFFFFE div 2 \<noteq> (1 :: 32 word)
   \<and> (0x00001000 + 2 :: 32 word) div 2 - 0x00001000 div 2 = (1 :: 32 word)"
  by code_simp

definition voice_packet :: rtp_packet where
  "voice_packet = \<lparr>ssrc = 7, payloadType = 97, sequenceNumber = 3, timestamp = 640, marker = False,
     payload = [1, 0, 1, 2, 0xFF, 0x9C, 0xFF, 0x38]\<rparr>"

lemma companding_error_is_bounded_witness:
  "\<bar>alawToLinear (linearToALaw 1000) - 1000\<bar> \<le> 40"
  using companding_error_is_bounded [THEN conjunct1, THEN spec, of 1000] by (simp add: cClip_def)

lemma forwarded_audio_is_eight_kilohertz_pcma_witness:
  "length (payload (the (l16ToPCMA voice_packet))) = 2"
proof -
  have "audioForwarder ''L16'' = Some l16ToPCMA" by (simp add: audioForwarder_def)
  moreover have "l16ToPCMA voice_packet = Some (the (l16ToPCMA voice_packet))"
    by (simp add: l16ToPCMA_def voice_packet_def)
  ultimately show ?thesis
    using forwarded_audio_is_eight_kilohertz_pcma by (fastforce simp: voice_packet_def)
qed

end
