(* ===== verification/Srtp.thy ===== *)
theory Srtp
  imports Transcode
begin

text \<open>
  \<open>hksrtp.go\<close>: restamping a camera's packets onto the identity HomeKit negotiated.  SRTP
  encryption and the socket are arguments, their outcome part of each packet's \<open>send_env\<close>.
\<close>

record srtpForwarder =
  f_ssrc :: "32 word"
  f_payloadType :: "8 word"
  f_mtu :: int
  f_seq :: "16 word"
  f_sent :: nat
  f_closed :: bool
  f_warnedMTU :: bool

text \<open>One packet's environment: its marshalled length (\<open>None\<close>: marshalling fails), encryption, socket.\<close>

record send_env =
  se_length :: "nat option"
  se_encrypted :: bool
  se_written :: bool

definition newSRTPForwarder :: "bool \<Rightarrow> 32 word \<Rightarrow> 8 word \<Rightarrow> int \<Rightarrow> 16 word \<Rightarrow> srtpForwarder option" where
  "newSRTPForwarder context_ok ss pt mtu seq0 = (if context_ok
     then Some \<lparr>f_ssrc = ss, f_payloadType = pt, f_mtu = mtu, f_seq = seq0, f_sent = 0,
       f_closed = False, f_warnedMTU = False\<rparr> else None)"

text \<open>
  The random helpers over the bytes the random source delivers; \<open>newSRTPForwarder\<close> takes its first
  sequence number from \<open>randomUint16\<close>.
\<close>

definition randomUint16 :: "byte \<Rightarrow> byte \<Rightarrow> 16 word" where
  "randomUint16 b0 b1 = word_cat b0 b1"

definition randomUint32 :: "byte \<Rightarrow> byte \<Rightarrow> byte \<Rightarrow> byte \<Rightarrow> 32 word" where
  "randomUint32 b0 b1 b2 b3 = word_cat (word_cat b0 b1 :: 16 word) (word_cat b2 b3 :: 16 word)"

definition randomSRTPKeySalt :: "(nat \<Rightarrow> byte) \<Rightarrow> byte list \<times> byte list" where
  "randomSRTPKeySalt rand = (map rand [0..<16], map rand [16..<30])"

text \<open>Every first sequence number can be drawn: the stream may start right before the 16-bit wrap.\<close>

lemma randomUint16_surj: "\<exists>b0 b1. randomUint16 b0 b1 = w"
proof -
  obtain b0 b1 where "word_split w = (b0 :: byte, b1 :: byte)" by fastforce
  then have "word_cat b0 b1 = w" by (rule word_cat_split_alt [rotated]) (simp add: word_size)
  then show ?thesis by (auto simp: randomUint16_def)
qed

text \<open>Result: success, the packet put on the wire if any, whether the MTU warning was logged.\<close>

definition WriteRTP ::
  "send_env \<Rightarrow> rtp_packet \<Rightarrow> srtpForwarder \<Rightarrow> (bool \<times> rtp_packet option \<times> bool) \<times> srtpForwarder" where
  "WriteRTP env p f =
    (if f_closed f then ((True, None, False), f)
     else (let pkt = p\<lparr>ssrc := f_ssrc f, payloadType := f_payloadType f, sequenceNumber := f_seq f\<rparr>;
               f = f\<lparr>f_seq := f_seq f + 1\<rparr>
           in case se_length env of
                None \<Rightarrow> ((False, None, False), f)
              | Some n \<Rightarrow>
                  (let warn = (f_mtu f > 0 \<and> int n > f_mtu f \<and> \<not> f_warnedMTU f);
                       f = (if warn then f\<lparr>f_warnedMTU := True\<rparr> else f)
                   in if \<not> se_encrypted env then ((False, None, warn), f)
                      else if \<not> se_written env then ((False, None, warn), f)
                      else ((True, Some pkt, warn), f\<lparr>f_sent := Suc (f_sent f)\<rparr>))))"

definition CloseForwarder :: "srtpForwarder \<Rightarrow> srtpForwarder" where
  "CloseForwarder f = (if f_closed f then f else f\<lparr>f_closed := True\<rparr>)"

definition sentPackets :: "srtpForwarder \<Rightarrow> nat" where
  "sentPackets f = f_sent f"

datatype fwd_op = Write send_env rtp_packet | CloseIt

text \<open>A run: what reached the socket with the index of the write, and the warnings logged.\<close>

fun fwd_run :: "nat \<Rightarrow> fwd_op list \<Rightarrow> srtpForwarder \<Rightarrow> (nat \<times> rtp_packet \<times> rtp_packet) list \<times> nat \<times> srtpForwarder" where
  "fwd_run i [] f = ([], 0, f)"
| "fwd_run i (CloseIt # ops) f = fwd_run i ops (CloseForwarder f)"
| "fwd_run i (Write env p # ops) f = (case WriteRTP env p f of
      ((ok, out, warn), f') \<Rightarrow> (case fwd_run (Suc i) ops f' of
         (outs, w, f'') \<Rightarrow> ((case out of None \<Rightarrow> outs | Some q \<Rightarrow> (i, p, q) # outs), of_bool warn + w, f'')))"

lemma WriteRTP_fields:
  assumes "WriteRTP env p f = ((ok, out, warn), f')"
  shows "f_ssrc f' = f_ssrc f" "f_payloadType f' = f_payloadType f" "f_closed f' = f_closed f"
    "f_sent f' = f_sent f + (if out = None then 0 else 1)"
    "\<not> f_closed f \<Longrightarrow> f_seq f' = f_seq f + 1"
    "f_closed f \<Longrightarrow> out = None \<and> \<not> warn \<and> f' = f"
    "warn \<Longrightarrow> \<not> f_warnedMTU f" "f_warnedMTU f' \<longleftrightarrow> f_warnedMTU f \<or> warn"
    "out = Some q \<Longrightarrow> q = p\<lparr>ssrc := f_ssrc f, payloadType := f_payloadType f, sequenceNumber := f_seq f\<rparr>"
  using assms by (auto simp: WriteRTP_def Let_def split: if_splits option.splits)

lemma fwd_run_closed: "f_closed f \<Longrightarrow> fwd_run i ops f = ([], 0, f)"
proof (induction ops arbitrary: i)
  case (Cons op ops)
  then show ?case
    by (cases op) (simp_all add: CloseForwarder_def WriteRTP_def)
qed simp

lemma fwd_run_outputs:
  assumes "fwd_run i ops f = (outs, w, f')"
  shows "(\<forall>(j, p, q) \<in> set outs. i \<le> j
        \<and> q = p\<lparr>ssrc := f_ssrc f, payloadType := f_payloadType f, sequenceNumber := f_seq f + of_nat (j - i)\<rparr>)
    \<and> sorted_wrt (<) (map fst outs) \<and> w \<le> (if f_warnedMTU f then 0 else 1) \<and> f_sent f' = f_sent f + length outs"
  using assms
proof (induction ops arbitrary: i f outs w f')
  case (Cons op ops)
  show ?case
  proof (cases op)
    case CloseIt
    have "fwd_run i ops (CloseForwarder f) = ([], 0, CloseForwarder f)"
      by (rule fwd_run_closed) (simp add: CloseForwarder_def)
    with Cons.prems CloseIt show ?thesis by (auto simp: CloseForwarder_def split: if_splits)
  next
    case (Write env p)
    show ?thesis
    proof (cases "f_closed f")
      case True
      with Cons.prems fwd_run_closed show ?thesis by auto
    next
      case False
      obtain ok out warn f1 where w1: "WriteRTP env p f = ((ok, out, warn), f1)" by (metis prod_cases3 surj_pair)
      obtain outs2 w2 f2 where r: "fwd_run (Suc i) ops f1 = (outs2, w2, f2)" by (metis prod_cases3)
      note fl = WriteRTP_fields [OF w1]
      from Cons.IH [OF r] have IH: "\<forall>(j, p, q) \<in> set outs2. Suc i \<le> j
        \<and> q = p\<lparr>ssrc := f_ssrc f, payloadType := f_payloadType f, sequenceNumber := f_seq f + 1 + of_nat (j - Suc i)\<rparr>"
        "sorted_wrt (<) (map fst outs2)" "w2 \<le> (if f_warnedMTU f1 then 0 else 1)" "f_sent f2 = f_sent f1 + length outs2"
        using fl False by auto
      have later: "\<forall>(j, p, q) \<in> set outs2. i \<le> j
        \<and> q = p\<lparr>ssrc := f_ssrc f, payloadType := f_payloadType f, sequenceNumber := f_seq f + of_nat (j - i)\<rparr>"
      proof -
        have "f_seq f + 1 + of_nat (j - Suc i) = f_seq f + of_nat (j - i)" if "Suc i \<le> j" for j
        proof -
          have "j - i = Suc (j - Suc i)" using that by simp
          then show ?thesis by (simp add: algebra_simps)
        qed
        with IH(1) show ?thesis by fastforce
      qed
      have ge: "\<forall>x \<in> set outs2. i < fst x" using IH(1) by fastforce
      have res: "outs = (case out of None \<Rightarrow> outs2 | Some q \<Rightarrow> (i, p, q) # outs2)" "w = of_bool warn + w2" "f' = f2"
        using Cons.prems Write w1 r by auto
      have warns: "w \<le> (if f_warnedMTU f then 0 else 1)"
        using IH(3) fl(7,8) res(2) by (cases warn; cases "f_warnedMTU f") auto
      show ?thesis
      proof (cases out)
        case None
        with res later IH(2,4) fl(4) warns show ?thesis by simp
      next
        case (Some q)
        from fl(9) [OF Some] later IH(2,4) fl(4) warns res Some ge show ?thesis by auto
      qed
    qed
  qed
qed simp

section \<open>Properties\<close>

lemma srtp_identity_and_numbering:
  assumes "fwd_run 0 ops f = (outs, warnings, f')"
  shows "(\<forall>(j, p, q) \<in> set outs. q = p\<lparr>ssrc := f_ssrc f, payloadType := f_payloadType f,
        sequenceNumber := f_seq f + of_nat j\<rparr>)
    \<and> sorted_wrt (<) (map fst outs) \<and> warnings \<le> 1 \<and> sentPackets f' = sentPackets f + length outs
    \<and> fst (fwd_run i ops' (CloseForwarder f')) = []"
proof -
  have "fwd_run i ops' (CloseForwarder f') = ([], 0, CloseForwarder f')"
    by (rule fwd_run_closed) (simp add: CloseForwarder_def)
  with fwd_run_outputs [OF assms] show ?thesis by (auto simp: sentPackets_def split: if_splits)
qed

definition good_send :: send_env where
  "good_send = \<lparr>se_length = Some 1400, se_encrypted = True, se_written = True\<rparr>"

lemma srtp_identity_and_numbering_witness:
  "sentPackets (snd (snd (fwd_run 0 [Write good_send voice_packet, Write good_send voice_packet]
     (the (newSRTPForwarder True 99 96 1378 0xFFFF))))) = 2"
proof -
  let ?f = "the (newSRTPForwarder True 99 96 1378 0xFFFF)" and ?ops = "[Write good_send voice_packet, Write good_send voice_packet]"
  obtain outs w f' where run: "fwd_run 0 ?ops ?f = (outs, w, f')" by (metis prod_cases3)
  have "length outs = 2" using run
    by (simp add: newSRTPForwarder_def good_send_def WriteRTP_def) auto
  with srtp_identity_and_numbering [OF run] have "sentPackets f' = 2"
    by (simp add: sentPackets_def newSRTPForwarder_def)
  then show ?thesis by (simp only: run snd_conv)
qed

end
