(* ===== verification/Rtsp.thy ===== *)
theory Rtsp
  imports Wire Transcode Digest
begin

text \<open>
  \<open>rtsp.go\<close>: the RTSP client of one camera.  A connection holds the bytes the camera has sent
  and not been read yet, and the requests written to it; a read past the end of the input is the
  error a closed or timed-out socket gives.  \<open>url.Parse\<close>, the RTP unmarshaller of the media
  library, MD5, the random source, the socket's writes and the iteration order of Go's header
  maps are arguments.
\<close>

datatype rtsp_error = ReadError | WriteError | BadStatusLine | BadStatusCode | BadContentLength
  | BadChallenge | BadStatus int | NoSession | NoVideo | NoControl | ForwardError nat
  | BadURL | BadScheme | DialError

definition rtspDefaultPort :: string where
  "rtspDefaultPort = ''554''"

definition minBackoff :: duration where "minBackoff = second"
definition maxBackoff :: duration where "maxBackoff = 30 * second"

definition chanVideoRTP :: nat where "chanVideoRTP = 0"
definition chanVideoRTCP :: nat where "chanVideoRTCP = 1"
definition chanAudioRTP :: nat where "chanAudioRTP = 2"
definition chanAudioRTCP :: nat where "chanAudioRTCP = 3"

section \<open>Responses\<close>

record rtspResponse =
  statusCode :: int
  headers :: "string \<rightharpoonup> string"
  body :: string

definition header :: "rtspResponse \<Rightarrow> string \<Rightarrow> string" where
  "header r name = get_param (headers r) (to_lower name)"

definition response_header :: "string \<Rightarrow> (string \<rightharpoonup> string) \<Rightarrow> (string \<rightharpoonup> string)" where
  "response_header line m = (case cut CHR '':'' line of (before, after, ok) \<Rightarrow>
     if ok then m(to_lower (trim_space before) \<mapsto> trim_space after) else m)"

function response_headers :: "(string \<rightharpoonup> string) \<Rightarrow> string \<Rightarrow> ((string \<rightharpoonup> string) \<times> string) option" where
  "response_headers m s = (case read_line s of
      None \<Rightarrow> None
    | Some (line, r) \<Rightarrow>
        if trim_eol line = [] then Some (m, r) else response_headers (response_header (trim_eol line) m) r)"
  by pat_completeness auto
termination by (relation "measure (\<lambda>(m, s). length s)") (auto dest: read_line_shorter)

declare response_headers.simps [simp del]

text \<open>\<open>strings.SplitN(line, " ", 3)\<close>: the first two parts, when there are two.\<close>

definition status_code :: "string \<Rightarrow> rtsp_error + int" where
  "status_code line = (case cut CHR '' '' line of (p0, after, ok) \<Rightarrow>
     if \<not> ok \<or> \<not> prefix ''RTSP/'' p0 then Inl BadStatusLine
     else (case parse_int (fst (cut CHR '' '' after)) of None \<Rightarrow> Inl BadStatusCode | Some c \<Rightarrow> Inr c))"

definition response_body :: "int \<Rightarrow> (string \<rightharpoonup> string) \<Rightarrow> string \<Rightarrow> (rtsp_error + rtspResponse) \<times> string" where
  "response_body code m s =
    (let cl = get_param m ''content-length'' in
     if cl = [] then (Inr \<lparr>statusCode = code, headers = m, body = []\<rparr>, s)
     else (case parse_int cl of
         None \<Rightarrow> (Inl BadContentLength, s)
       | Some n \<Rightarrow>
           if n > 0
           then (if length s < nat n then (Inl ReadError, [])
                 else (Inr \<lparr>statusCode = code, headers = m, body = take (nat n) s\<rparr>, drop (nat n) s))
           else (Inr \<lparr>statusCode = code, headers = m, body = []\<rparr>, s)))"

text \<open>The second component is the input left to read.\<close>

definition readResponse :: "string \<Rightarrow> (rtsp_error + rtspResponse) \<times> string" where
  "readResponse s = (case read_line s of
      None \<Rightarrow> (Inl ReadError, [])
    | Some (line, r) \<Rightarrow> (case status_code (trim_eol line) of
        Inl e \<Rightarrow> (Inl e, r)
      | Inr code \<Rightarrow> (case response_headers Map.empty r of
          None \<Rightarrow> (Inl ReadError, [])
        | Some (m, r) \<Rightarrow> response_body code m r)))"

definition sessionIDOnly :: "string \<Rightarrow> string" where
  "sessionIDOnly value = trim_space (fst (cut CHR '';'' value))"

lemma response_headers_shorter: "response_headers m s = Some (m', r) \<Longrightarrow> length r < length s"
proof (induction m s rule: response_headers.induct)
  case (1 m s)
  then show ?case
    by (subst (asm) (2) response_headers.simps)
      (fastforce dest: read_line_shorter split: option.splits prod.splits if_splits)
qed

lemma readResponse_shorter: "readResponse s = (Inr resp, r) \<Longrightarrow> length r < length s"
  by (auto simp: readResponse_def response_body_def Let_def
      dest!: read_line_shorter response_headers_shorter split: option.splits sum.splits prod.splits if_splits)

section \<open>Interleaved frames\<close>

function readInterleaved :: "string \<Rightarrow> (rtsp_error + nat \<times> string) \<times> string" where
  "readInterleaved s = (case s of
      [] \<Rightarrow> (Inl ReadError, [])
    | first # r \<Rightarrow>
        if first = CHR ''$''
        then (case r of
            ch # hi # lo # r \<Rightarrow> (let n = 256 * ord hi + ord lo in
              if length r < n then (Inl ReadError, []) else (Inr (ord ch, take n r), drop n r))
          | _ \<Rightarrow> (Inl ReadError, []))
        else (case readResponse s of
            (Inl e, r) \<Rightarrow> (Inl e, r)
          | (Inr _, r) \<Rightarrow> readInterleaved r))"
  by pat_completeness auto
termination by (relation "measure length") (auto dest!: sym [THEN readResponse_shorter])

declare readInterleaved.simps [simp del]

lemma readInterleaved_shorter: "readInterleaved s = (Inr f, r) \<Longrightarrow> length r < length s"
proof (induction s rule: readInterleaved.induct)
  case (1 s)
  show ?case
  proof (cases s)
    case Nil
    with 1 show ?thesis by (subst (asm) (2) readInterleaved.simps) simp
  next
    case (Cons c t)
    show ?thesis
    proof (cases "c = CHR ''$''")
      case True
      with 1(2) Cons show ?thesis
        by (subst (asm) readInterleaved.simps) (auto simp: Let_def split: list.splits if_splits)
    next
      case False
      obtain x u where x: "readResponse s = (x, u)" by (cases "readResponse s")
      with 1(2) Cons False obtain resp where "x = Inr resp" "readInterleaved u = (Inr f, r)"
        by (subst (asm) readInterleaved.simps) (auto split: sum.splits)
      with 1(1) [OF Cons False x [symmetric]] x show ?thesis using readResponse_shorter [of s resp u] by auto
    qed
  qed
qed

text \<open>
  What \<open>readPackets\<close> hands to the tracks, and the error that ends it.  \<open>aw\<close> is the audio
  writer chosen by the handshake, \<open>wok\<close> whether the write numbered \<open>i\<close> succeeds.
\<close>

datatype sink = VideoTrack | AudioTrack

definition route ::
  "(string \<Rightarrow> rtp_packet option) \<Rightarrow> (rtp_packet \<Rightarrow> rtp_packet option) option \<Rightarrow> nat \<Rightarrow> string
     \<Rightarrow> (sink \<times> rtp_packet) option" where
  "route unmarshal aw ch data =
    (if ch = chanVideoRTP then map_option (\<lambda>p. (VideoTrack, p)) (unmarshal data)
     else if ch = chanAudioRTP
     then (case aw of None \<Rightarrow> None
           | Some f \<Rightarrow> (case unmarshal data of None \<Rightarrow> None
               | Some p \<Rightarrow> map_option (\<lambda>q. (AudioTrack, q)) (f p)))
     else None)"

function readPackets ::
  "(string \<Rightarrow> rtp_packet option) \<Rightarrow> (rtp_packet \<Rightarrow> rtp_packet option) option \<Rightarrow> (nat \<Rightarrow> bool) \<Rightarrow> nat \<Rightarrow> string
     \<Rightarrow> (sink \<times> rtp_packet) list \<times> rtsp_error" where
  "readPackets unmarshal aw wok i s = (case readInterleaved s of
      (Inl e, _) \<Rightarrow> ([], e)
    | (Inr (ch, data), r) \<Rightarrow>
        (case route unmarshal aw ch data of
           None \<Rightarrow> readPackets unmarshal aw wok i r
         | Some o1 \<Rightarrow>
             if wok i then (case readPackets unmarshal aw wok (Suc i) r of (os, e) \<Rightarrow> (o1 # os, e))
             else ([], ForwardError ch)))"
  by pat_completeness auto
termination
  by (relation "measure (\<lambda>(u, aw, wok, i, s). length s)") (auto dest!: sym [THEN readInterleaved_shorter])

declare readPackets.simps [simp del]

section \<open>Session descriptions\<close>

record rtspMedia =
  kind :: string
  mcodec :: string
  controlURL :: string

record rawMedia =
  rkind :: string
  pts :: "string list"
  codecs :: "string \<rightharpoonup> string"
  control :: string

text \<open>
  \<open>url.Parse(control)\<close> gives an absolute URL: the parser accepts it (\<open>url_ok\<close>) and finds a scheme,
  a letter and then letters, digits, \<open>+\<close>, \<open>-\<close> and \<open>.\<close> up to the first colon.
\<close>

definition scheme_char :: "char \<Rightarrow> bool" where
  "scheme_char c \<longleftrightarrow> is_digit c \<or> (65 \<le> ord c \<and> ord c \<le> 90) \<or> (97 \<le> ord c \<and> ord c \<le> 122) \<or> c \<in> set ''+-.''"

definition has_scheme :: "string \<Rightarrow> bool" where
  "has_scheme u = (case cut CHR '':'' u of (s, _, ok) \<Rightarrow>
     ok \<and> s \<noteq> [] \<and> list_all scheme_char s \<and> \<not> is_digit (hd s) \<and> hd s \<notin> set ''+-.'')"

definition resolveControl :: "(string \<Rightarrow> bool) \<Rightarrow> string \<Rightarrow> string \<Rightarrow> string" where
  "resolveControl url_ok base c =
    (if c = [] \<or> c = ''*'' then base
     else if url_ok c \<and> has_scheme c then c
     else (if suffix ''/'' base then base else base @ ''/'') @ c)"

text \<open>One line of the description; the state is the finished media and the one being read.\<close>

definition add_media :: "rawMedia list \<times> rawMedia option \<Rightarrow> rawMedia list" where
  "add_media st = (case st of (ms, None) \<Rightarrow> ms | (ms, Some m) \<Rightarrow> ms @ [m])"

definition sdp_line :: "string \<Rightarrow> rawMedia list \<times> rawMedia option \<Rightarrow> rawMedia list \<times> rawMedia option" where
  "sdp_line raw st =
    (let line = trim_right_set {CR} raw in
     if prefix ''m='' line
     then (let fs = Fields (drop 2 line) in
       (add_media st, Some \<lparr>rkind = (if fs \<noteq> [] then hd fs else []),
          pts = (if length fs \<ge> 4 then drop 3 fs else []), codecs = Map.empty, control = []\<rparr>))
     else (case st of
         (ms, None) \<Rightarrow> st
       | (ms, Some m) \<Rightarrow>
           if prefix ''a=control:'' line then (ms, Some (m\<lparr>control := drop 10 line\<rparr>))
           else if prefix ''a=rtpmap:'' line
           then (case cut CHR '' '' (drop 9 line) of (pt, rest, ok) \<Rightarrow>
             if \<not> ok then st
             else (ms, Some (m\<lparr>codecs := (codecs m)(pt \<mapsto> to_upper (fst (cut CHR ''/'' rest)))\<rparr>)))
           else st))"

definition sdp_medias :: "string \<Rightarrow> rawMedia list" where
  "sdp_medias sdp = add_media (fold sdp_line (split_on LF sdp) ([], None))"

definition pick :: "rawMedia \<Rightarrow> string list \<Rightarrow> string" where
  "pick m want = (case List.find (\<lambda>pt. get_param (codecs m) pt \<in> set want) (pts m) of
      None \<Rightarrow> [] | Some pt \<Rightarrow> get_param (codecs m) pt)"

definition media_of :: "(string \<Rightarrow> bool) \<Rightarrow> string \<Rightarrow> string \<Rightarrow> string \<Rightarrow> rawMedia \<Rightarrow> rtspMedia" where
  "media_of url_ok baseURI k c m = \<lparr>kind = k, mcodec = c, controlURL = resolveControl url_ok baseURI (control m)\<rparr>"

definition videoCodecs :: "string list" where
  "videoCodecs = [''H264'', ''H265'']"

fun choose_media ::
  "(string \<Rightarrow> bool) \<Rightarrow> string \<Rightarrow> rawMedia list \<Rightarrow> rtspMedia option \<Rightarrow> rtspMedia option
     \<Rightarrow> rtsp_error + rtspMedia \<times> rtspMedia option" where
  "choose_media ok u [] v a = (case v of None \<Rightarrow> Inl NoVideo | Some vm \<Rightarrow> Inr (vm, a))"
| "choose_media ok u (m # ms) v a =
    (if rkind m = ''video''
     then (if v \<noteq> None then choose_media ok u ms v a
           else (let c = pick m videoCodecs in
             if c = [] then choose_media ok u ms v a
             else if control m = [] then Inl NoControl
             else choose_media ok u ms (Some (media_of ok u ''video'' c m)) a))
     else if rkind m = ''audio''
     then (if a \<noteq> None then choose_media ok u ms v a
           else (let c = pick m audioCodecs in
             if c = [] \<or> control m = [] then choose_media ok u ms v a
             else choose_media ok u ms v (Some (media_of ok u ''audio'' c m))))
     else choose_media ok u ms v a)"

definition findMedia :: "(string \<Rightarrow> bool) \<Rightarrow> string \<Rightarrow> string \<Rightarrow> rtsp_error + rtspMedia \<times> rtspMedia option" where
  "findMedia url_ok sdp baseURI = choose_media url_ok baseURI (sdp_medias sdp) None None"

section \<open>The control connection\<close>

record rtsp_url =
  uscheme :: string
  uhost :: string
  uuser :: string
  upass :: string
  uclean :: string   \<comment> \<open>the URL without its user information\<close>

record rtsp_conn =
  requestURI :: string
  cuser :: string
  cpass :: string
  cseq :: int
  csession :: string
  inbox :: string
  outbox :: "(string \<times> string \<times> (string \<times> string) list) list"   \<comment> \<open>method, URI and header lines written\<close>
  audioWriter :: "(rtp_packet \<Rightarrow> rtp_packet option) option"
  videoCodec :: string

text \<open>The environment of a connection: which writes succeed (by sequence number), and map iteration order.\<close>

record rtsp_env =
  e_write_ok :: "int \<Rightarrow> bool"
  e_order :: "(string \<times> string) list \<Rightarrow> (string \<times> string) list"

definition newRTSPConn :: "string \<Rightarrow> rtsp_url \<Rightarrow> rtsp_conn" where
  "newRTSPConn bytes u = \<lparr>requestURI = uclean u, cuser = uuser u, cpass = upass u, cseq = 0, csession = [],
     inbox = bytes, outbox = [], audioWriter = None, videoCodec = []\<rparr>"

definition request_lines :: "rtsp_env \<Rightarrow> int \<Rightarrow> string \<Rightarrow> (string \<times> string) list \<Rightarrow> (string \<times> string) list" where
  "request_lines env n ses hs =
    [(''CSeq'', format_int n), (''User-Agent'', ''camonitor/1'')]
    @ (if ses \<noteq> [] \<and> get_param (map_of hs) ''Session'' = [] then [(''Session'', ses)] else [])
    @ e_order env hs"

text \<open>The bytes of a request on the wire.\<close>

definition request_text :: "string \<times> string \<times> (string \<times> string) list \<Rightarrow> string" where
  "request_text q = (case q of (meth, uri, hs) \<Rightarrow>
     meth @ '' '' @ uri @ '' RTSP/1.0'' @ eol @ concat (map (\<lambda>(k, v). k @ '': '' @ v @ eol) hs) @ eol)"

definition send :: "rtsp_env \<Rightarrow> string \<Rightarrow> string \<Rightarrow> (string \<times> string) list \<Rightarrow> rtsp_conn
     \<Rightarrow> (rtsp_error + rtspResponse) \<times> rtsp_conn" where
  "send env meth uri hs rc =
    (let rc = rc\<lparr>cseq := cseq rc + 1\<rparr> in
     if \<not> e_write_ok env (cseq rc) then (Inl WriteError, rc)
     else (let rc = rc\<lparr>outbox := outbox rc @ [(meth, uri, request_lines env (cseq rc) (csession rc) hs)]\<rparr>
           in case readResponse (inbox rc) of (r, rest) \<Rightarrow> (r, rc\<lparr>inbox := rest\<rparr>)))"

definition sendKeepalive :: "rtsp_env \<Rightarrow> rtsp_conn \<Rightarrow> bool \<times> rtsp_conn" where
  "sendKeepalive env rc =
    (let rc = rc\<lparr>cseq := cseq rc + 1\<rparr> in
     if \<not> e_write_ok env (cseq rc) then (False, rc)
     else (True, rc\<lparr>outbox := outbox rc @ [(''OPTIONS'', requestURI rc,
        [(''CSeq'', format_int (cseq rc))] @ (if csession rc \<noteq> [] then [(''Session'', csession rc)] else [])
        @ [(''User-Agent'', ''camonitor/1'')])]\<rparr>))"

text \<open>\<open>do\<close>: one request, and one retry that answers a challenge.\<close>

definition do_request ::
  "(string \<Rightarrow> string) \<Rightarrow> string \<Rightarrow> rtsp_env \<Rightarrow> string \<Rightarrow> string \<Rightarrow> (string \<times> string) list \<Rightarrow> rtsp_conn
     \<Rightarrow> (rtsp_error + rtspResponse) \<times> rtsp_conn" where
  "do_request md5 bytes env meth uri hs rc =
    (case send env meth uri hs rc of
       (Inl e, rc1) \<Rightarrow> (Inl e, rc1)
     | (Inr resp, rc1) \<Rightarrow>
         (if statusCode resp = 401 \<and> cuser rc1 \<noteq> []
          then (case parseDigestChallenge (header resp ''WWW-Authenticate'') of
              None \<Rightarrow> (Inl BadChallenge, rc1)
            | Some chal \<Rightarrow>
                (case send env meth uri (hs @ [(''Authorization'',
                    buildDigestResponse md5 bytes meth uri (cuser rc1) (cpass rc1) chal)]) rc1 of
                   (Inl e, rc2) \<Rightarrow> (Inl e, rc2)
                 | (Inr resp2, rc2) \<Rightarrow>
                     if statusCode resp2 \<noteq> 200 then (Inl (BadStatus (statusCode resp2)), rc2) else (Inr resp2, rc2)))
          else if statusCode resp \<noteq> 200 then (Inl (BadStatus (statusCode resp)), rc1)
          else (Inr resp, rc1)))"

definition transport :: "nat \<Rightarrow> nat \<Rightarrow> (string \<times> string) list" where
  "transport a b = [(''Transport'', ''RTP/AVP/TCP;unicast;interleaved='' @ format_int (int a) @ ''-'' @ format_int (int b))]"

text \<open>A step that stops the handshake when it fails.\<close>

definition then_do :: "('e + 'a) \<times> 's \<Rightarrow> ('a \<Rightarrow> 's \<Rightarrow> ('e + 'b) \<times> 's) \<Rightarrow> ('e + 'b) \<times> 's" where
  "then_do m f = (case m of (Inl e, s) \<Rightarrow> (Inl e, s) | (Inr x, s) \<Rightarrow> f x s)"

lemma then_doE:
  assumes "then_do m f = (Inr y, s')"
  obtains x s where "m = (Inr x, s)" "f x s = (Inr y, s')"
  using assms by (auto simp: then_do_def split: prod.splits sum.splits)

definition audio_choice :: "bool \<Rightarrow> rtspMedia option \<Rightarrow> (rtspMedia \<times> (rtp_packet \<Rightarrow> rtp_packet option)) option" where
  "audio_choice want audio = (case audio of None \<Rightarrow> None
     | Some a \<Rightarrow> if want then map_option (\<lambda>f. (a, f)) (audioForwarder (mcodec a)) else None)"

text \<open>A failed audio \<open>SETUP\<close> only leaves the stream without audio.\<close>

definition setup_audio ::
  "(string \<Rightarrow> string) \<Rightarrow> string \<Rightarrow> rtsp_env \<Rightarrow> (rtspMedia \<times> (rtp_packet \<Rightarrow> rtp_packet option)) option \<Rightarrow> rtsp_conn \<Rightarrow> rtsp_conn" where
  "setup_audio md5 bytes env choice rc = (case choice of
      None \<Rightarrow> rc
    | Some (a, f) \<Rightarrow> (case do_request md5 bytes env ''SETUP'' (controlURL a)
          (transport chanAudioRTP chanAudioRTCP) rc of
        (Inl _, rc) \<Rightarrow> rc | (Inr _, rc) \<Rightarrow> rc\<lparr>audioWriter := Some f\<rparr>))"

definition play_session ::
  "(string \<Rightarrow> string) \<Rightarrow> (nat \<Rightarrow> string) \<Rightarrow> rtsp_env \<Rightarrow> bool \<Rightarrow> string \<Rightarrow> rtspMedia option \<Rightarrow> rtspResponse \<Rightarrow> rtsp_conn
     \<Rightarrow> (rtsp_error + unit) \<times> rtsp_conn" where
  "play_session md5 bytes env wantAudio sessionURI audio setup rc =
    (let rc = rc\<lparr>csession := sessionIDOnly (header setup ''Session'')\<rparr> in
     if csession rc = [] then (Inl NoSession, rc)
     else
       let rc = setup_audio md5 (bytes 3) env (audio_choice wantAudio audio) rc
       in then_do (do_request md5 (bytes 4) env ''PLAY'' sessionURI [(''Range'', ''npt=0-'')] rc)
            (\<lambda>_ rc. (Inr (), rc)))"

definition setup_media ::
  "(string \<Rightarrow> string) \<Rightarrow> (nat \<Rightarrow> string) \<Rightarrow> rtsp_env \<Rightarrow> bool \<Rightarrow> string \<Rightarrow> rtspMedia \<Rightarrow> rtspMedia option \<Rightarrow> rtsp_conn
     \<Rightarrow> (rtsp_error + unit) \<times> rtsp_conn" where
  "setup_media md5 bytes env wantAudio sessionURI video audio rc =
    then_do (do_request md5 (bytes 2) env ''SETUP'' (controlURL video) (transport chanVideoRTP chanVideoRTCP)
               (rc\<lparr>videoCodec := mcodec video\<rparr>))
      (play_session md5 bytes env wantAudio sessionURI audio)"

definition rtsp_handshake ::
  "(string \<Rightarrow> string) \<Rightarrow> (nat \<Rightarrow> string) \<Rightarrow> rtsp_env \<Rightarrow> (string \<Rightarrow> bool) \<Rightarrow> bool \<Rightarrow> rtsp_conn
     \<Rightarrow> (rtsp_error + unit) \<times> rtsp_conn" where
  "rtsp_handshake md5 bytes env url_ok wantAudio rc =
    then_do (do_request md5 (bytes 0) env ''OPTIONS'' (requestURI rc) [] rc) (\<lambda>_ rc.
    then_do (do_request md5 (bytes 1) env ''DESCRIBE'' (requestURI rc) [(''Accept'', ''application/sdp'')] rc) (\<lambda>desc rc.
      let sessionURI = (if header desc ''Content-Base'' \<noteq> [] then header desc ''Content-Base'' else requestURI rc)
      in case findMedia url_ok (body desc) sessionURI of
           Inl e \<Rightarrow> (Inl e, rc)
         | Inr (video, audio) \<Rightarrow> setup_media md5 bytes env wantAudio sessionURI video audio rc))"

section \<open>One attempt, and the retry loop\<close>

definition dial_target :: "rtsp_url \<Rightarrow> string" where
  "dial_target u = (if SplitHostPort (uhost u) = None then JoinHostPort (uhost u) rtspDefaultPort else uhost u)"

text \<open>
  \<open>streamOnce\<close> on the camera's URL: the packets forwarded and the error that ended it.  \<open>dial\<close>
  gives the bytes the peer at an address will send.
\<close>

definition streamOnce ::
  "(string \<Rightarrow> string) \<Rightarrow> (nat \<Rightarrow> string) \<Rightarrow> rtsp_env \<Rightarrow> (string \<Rightarrow> bool) \<Rightarrow> (string \<Rightarrow> rtsp_url option)
     \<Rightarrow> (string \<Rightarrow> string option) \<Rightarrow> (string \<Rightarrow> rtp_packet option) \<Rightarrow> (nat \<Rightarrow> bool) \<Rightarrow> bool \<Rightarrow> string
     \<Rightarrow> (sink \<times> rtp_packet) list \<times> rtsp_error" where
  "streamOnce md5 bytes env url_ok parse_url dial unmarshal wok wantAudio raw =
    (case parse_url raw of
       None \<Rightarrow> ([], BadURL)
     | Some u \<Rightarrow>
         if uscheme u \<noteq> ''rtsp'' then ([], BadScheme)
         else (case dial (dial_target u) of
             None \<Rightarrow> ([], DialError)
           | Some input \<Rightarrow>
               (case rtsp_handshake md5 bytes env url_ok wantAudio (newRTSPConn input u) of
                  (Inl e, _) \<Rightarrow> ([], e)
                | (Inr _, rc) \<Rightarrow> readPackets unmarshal (audioWriter rc) wok 0 (inbox rc))))"

text \<open>
  \<open>runRTSPReader\<close>: the waits between attempts.  Each attempt says whether the context is done
  before it, after it, and during the wait.
\<close>

fun runRTSPReader :: "duration \<Rightarrow> (bool \<times> bool \<times> bool) list \<Rightarrow> duration list" where
  "runRTSPReader backoff [] = []"
| "runRTSPReader backoff ((before, after, waiting) # as) =
     (if before \<or> after then []
      else backoff # (if waiting then []
        else runRTSPReader (if backoff * 2 > maxBackoff then maxBackoff else backoff * 2) as))"

section \<open>What a camera writes\<close>

datatype rtsp_msg = Frame nat string | Reply int string "(string \<times> string) list" string

definition header_text :: "string \<times> string \<Rightarrow> string" where
  "header_text h = fst h @ '': '' @ snd h"

definition reply_headers :: "(string \<times> string) list \<Rightarrow> string \<Rightarrow> (string \<times> string) list" where
  "reply_headers hs b = hs @ (if b = [] then [] else [(''Content-Length'', format_int (int (length b)))])"

fun render_msg :: "rtsp_msg \<Rightarrow> string" where
  "render_msg (Frame ch d) = ''$'' @ [char_of ch, char_of (length d div 256), char_of (length d mod 256)] @ d"
| "render_msg (Reply c reason hs b) = (''RTSP/1.0 '' @ format_int c @ '' '' @ reason) @ eol
     @ concat (map (\<lambda>h. header_text h @ eol) (reply_headers hs b)) @ eol @ b"

definition one_line :: "string \<Rightarrow> bool" where
  "one_line s \<longleftrightarrow> CR \<notin> set s \<and> LF \<notin> set s"

definition wf_header :: "string \<times> string \<Rightarrow> bool" where
  "wf_header h \<longleftrightarrow> fst h \<noteq> [] \<and> (\<forall>c \<in> set (fst h). graphic c) \<and> CHR '':'' \<notin> set (fst h)
     \<and> snd h \<noteq> [] \<and> graphic (hd (snd h)) \<and> graphic (last (snd h)) \<and> one_line (snd h)"

fun wf_msg :: "rtsp_msg \<Rightarrow> bool" where
  "wf_msg (Frame ch d) \<longleftrightarrow> ch < 256 \<and> length d < 65536"
| "wf_msg (Reply c reason hs b) \<longleftrightarrow> int64_range c \<and> one_line reason \<and> list_all wf_header hs
     \<and> int64_range (int (length b)) \<and> (\<forall>h \<in> set hs. to_lower (fst h) \<noteq> ''content-length'')"

definition header_map :: "(string \<times> string) list \<Rightarrow> (string \<rightharpoonup> string) \<Rightarrow> (string \<rightharpoonup> string)" where
  "header_map hs m = fold (\<lambda>h m. m(to_lower (fst h) \<mapsto> snd h)) hs m"

lemma graphic_one_line: "\<forall>c \<in> set s. graphic c \<Longrightarrow> one_line s"
  by (auto simp: one_line_def graphic_def CR_def LF_def)

lemma one_line_last: "one_line s \<Longrightarrow> s = [] \<or> last s \<notin> {CR, LF}"
  unfolding one_line_def by (metis empty_iff insert_iff last_in_set)

lemma response_headers_line:
  assumes "one_line l" "l \<noteq> []"
  shows "response_headers m (l @ eol @ s) = response_headers (response_header l m) s"
  using assms read_line_eol [of l s] trim_eol_eol [of l] one_line_last [of l]
  by (subst response_headers.simps) (simp add: one_line_def)

lemma wf_header_text:
  assumes "wf_header h"
  shows "one_line (header_text h)" "header_text h \<noteq> []"
    "response_header (header_text h) m = m(to_lower (fst h) \<mapsto> snd h)"
proof -
  have k: "fst h \<noteq> []" "\<forall>c \<in> set (fst h). graphic c" "CHR '':'' \<notin> set (fst h)" using assms by (auto simp: wf_header_def)
  then have "trim_space (fst h) = fst h" by (intro trim_space_graphic) auto
  moreover have "trim_space (CHR '' '' # snd h) = snd h"
    using assms by (intro trim_space_lead) (auto simp: wf_header_def)
  moreover have "cut CHR '':'' (header_text h) = (fst h, CHR '' '' # snd h, True)"
    using cut_at [OF k(3)] by (simp add: header_text_def)
  ultimately show "response_header (header_text h) m = m(to_lower (fst h) \<mapsto> snd h)"
    by (simp add: response_header_def)
  show "one_line (header_text h)" "header_text h \<noteq> []"
    using assms graphic_one_line [OF k(2)] by (auto simp: header_text_def wf_header_def one_line_def CR_def LF_def)
qed

lemma response_headers_render:
  "list_all wf_header hs \<Longrightarrow>
     response_headers m (concat (map (\<lambda>h. header_text h @ eol) hs) @ eol @ s) = Some (header_map hs m, s)"
proof (induction hs arbitrary: m)
  case Nil
  have "read_line ([] @ eol @ s) = Some ([] @ eol, s)" by (rule read_line_eol) simp
  then show ?case using trim_eol_eol [of "[]"] by (subst response_headers.simps) (simp add: header_map_def)
next
  case (Cons h hs)
  then show ?case
    using wf_header_text [of h] by (simp add: response_headers_line header_map_def)
qed

lemma header_map_other: "k \<notin> (\<lambda>h. to_lower (fst h)) ` set hs \<Longrightarrow> header_map hs m k = m k"
  unfolding header_map_def by (induction hs arbitrary: m) auto

lemma wf_content_length:
  "b \<noteq> [] \<Longrightarrow> wf_header (''Content-Length'', format_int (int (length b)))"
proof -
  have ne: "format_int (int (length b)) \<noteq> []" by (auto simp: format_int_def)
  have g: "\<forall>c \<in> set (format_int (int (length b))). graphic c" using format_int_no_eol by blast
  then have "one_line (format_int (int (length b)))" by (rule graphic_one_line)
  with ne g show "wf_header (''Content-Length'', format_int (int (length b)))"
    by (auto simp: wf_header_def graphic_def)
qed

lemma status_code_render:
  assumes "int64_range c"
  shows "status_code (''RTSP/1.0 '' @ format_int c @ '' '' @ reason) = Inr c"
proof -
  have "CHR '' '' \<notin> set (format_int c)" using format_int_no_eol [of "CHR '' ''" c] by (auto simp: graphic_def)
  then have "cut CHR '' '' (format_int c @ CHR '' '' # reason) = (format_int c, reason, True)" by (rule cut_at)
  moreover have "cut CHR '' '' (''RTSP/1.0'' @ CHR '' '' # format_int c @ '' '' @ reason)
      = (''RTSP/1.0'', format_int c @ '' '' @ reason, True)" by (rule cut_at) simp
  ultimately show ?thesis using assms by (simp add: status_code_def parse_int_format_int)
qed

lemma readResponse_render:
  assumes "wf_msg (Reply c reason hs b)"
  shows "readResponse (render_msg (Reply c reason hs b) @ s)
    = (Inr \<lparr>statusCode = c, headers = header_map (reply_headers hs b) Map.empty, body = b\<rparr>, s)"
proof -
  let ?l = "''RTSP/1.0 '' @ format_int c @ '' '' @ reason"
  let ?r = "concat (map (\<lambda>h. header_text h @ eol) (reply_headers hs b)) @ eol @ (b @ s)"
  have "one_line (format_int c)" using format_int_no_eol by (intro graphic_one_line) blast
  with assms have ol: "one_line ?l" by (auto simp: one_line_def CR_def LF_def)
  have line: "read_line (?l @ eol @ ?r) = Some (?l @ eol, ?r)"
    by (rule read_line_eol) (use ol in \<open>simp add: one_line_def\<close>)
  have code: "status_code (trim_eol (?l @ eol)) = Inr c"
    using assms trim_eol_eol [OF one_line_last [OF ol]] status_code_render [of c reason] by simp
  have hs: "response_headers Map.empty ?r = Some (header_map (reply_headers hs b) Map.empty, b @ s)"
    using assms wf_content_length [of b] by (intro response_headers_render) (auto simp: reply_headers_def)
  have cl: "get_param (header_map (reply_headers hs b) Map.empty) ''content-length''
      = (if b = [] then [] else format_int (int (length b)))"
  proof (cases "b = []")
    case True
    have "''content-length'' \<notin> (\<lambda>h. to_lower (fst h)) ` set hs" using assms by auto
    from header_map_other [OF this, of Map.empty] True show ?thesis
      by (simp add: reply_headers_def get_param_def)
  next
    case False
    have "to_lower ''Content-Length'' = ''content-length''" by code_simp
    with False show ?thesis by (simp add: reply_headers_def header_map_def get_param_def)
  qed
  have "response_body c (header_map (reply_headers hs b) Map.empty) (b @ s)
      = (Inr \<lparr>statusCode = c, headers = header_map (reply_headers hs b) Map.empty, body = b\<rparr>, s)"
  proof (cases "b = []")
    case False
    moreover have "format_int (int (length b)) \<noteq> []" by (auto simp: format_int_def)
    ultimately show ?thesis using assms by (simp add: response_body_def cl parse_int_format_int)
  qed (use cl in \<open>simp add: response_body_def\<close>)
  then show ?thesis
    using line code hs by (simp add: readResponse_def del: append_assoc) (simp add: append_assoc)
qed

lemma readInterleaved_frame:
  assumes "ch < 256" "length d < 65536"
  shows "readInterleaved (render_msg (Frame ch d) @ s) = (Inr (ch, d), s)"
proof -
  have "length d div 256 < 256" using assms(2) by (simp add: less_mult_imp_div_less)
  then have "256 * ord (char_of (length d div 256) :: char) + ord (char_of (length d mod 256) :: char) = length d"
    by (simp add: of_char_of)
  with assms(1) show ?thesis by (subst readInterleaved.simps) (simp add: of_char_of Let_def)
qed

lemma readInterleaved_reply:
  assumes "wf_msg (Reply c reason hs b)"
  shows "readInterleaved (render_msg (Reply c reason hs b) @ s) = readInterleaved s"
proof -
  obtain t where t: "render_msg (Reply c reason hs b) @ s = CHR ''R'' # t" by simp
  show ?thesis
    by (subst readInterleaved.simps) (simp only: t list.case readResponse_render [OF assms, of s, unfolded t], simp)
qed

fun route_msg ::
  "(string \<Rightarrow> rtp_packet option) \<Rightarrow> (rtp_packet \<Rightarrow> rtp_packet option) option \<Rightarrow> rtsp_msg \<Rightarrow> (sink \<times> rtp_packet) list" where
  "route_msg unmarshal aw (Frame ch d) = (case route unmarshal aw ch d of None \<Rightarrow> [] | Some x \<Rightarrow> [x])"
| "route_msg unmarshal aw (Reply _ _ _ _) = []"

section \<open>The requests of a handshake\<close>

text \<open>
  What one call of \<open>do\<close> adds to the requests written: one or two of the same method and URI, each
  numbered by the counter and carrying the session.
\<close>

definition numbered :: "int \<Rightarrow> int \<Rightarrow> (string \<times> string \<times> (string \<times> string) list) list \<Rightarrow> bool" where
  "numbered lo hi reqs \<longleftrightarrow> (\<exists>ns. sorted_wrt (<) ns \<and> (\<forall>n \<in> set ns. lo < n \<and> n \<le> hi) \<and> lo \<le> hi
     \<and> map (\<lambda>(_, _, hs). hd hs) reqs = map (\<lambda>n. (''CSeq'', format_int n)) ns)"

definition exchange :: "string \<Rightarrow> string \<Rightarrow> string \<Rightarrow> (string \<times> string \<times> (string \<times> string) list) list \<Rightarrow> bool" where
  "exchange meth uri ses reqs \<longleftrightarrow> length reqs \<le> 2
     \<and> (\<forall>(m, u, hs) \<in> set reqs. m = meth \<and> u = uri \<and> (ses \<noteq> [] \<longrightarrow> (''Session'', ses) \<in> set hs))"

definition same_session :: "rtsp_conn \<Rightarrow> rtsp_conn \<Rightarrow> bool" where
  "same_session rc rc' \<longleftrightarrow> requestURI rc' = requestURI rc \<and> cuser rc' = cuser rc \<and> cpass rc' = cpass rc
     \<and> csession rc' = csession rc \<and> audioWriter rc' = audioWriter rc \<and> videoCodec rc' = videoCodec rc"

lemma numbered_append:
  "numbered a b xs \<Longrightarrow> numbered b c ys \<Longrightarrow> numbered a c (xs @ ys)"
proof -
  assume "numbered a b xs" "numbered b c ys"
  then obtain ns ms where ns: "sorted_wrt (<) ns" "\<forall>n \<in> set ns. a < n \<and> n \<le> b" "a \<le> b"
      "map (\<lambda>(_, _, hs). hd hs) xs = map (\<lambda>n. (''CSeq'', format_int n)) ns"
    and ms: "sorted_wrt (<) ms" "\<forall>n \<in> set ms. b < n \<and> n \<le> c" "b \<le> c"
      "map (\<lambda>(_, _, hs). hd hs) ys = map (\<lambda>n. (''CSeq'', format_int n)) ms"
    unfolding numbered_def by blast
  then show ?thesis
    unfolding numbered_def by (intro exI [of _ "ns @ ms"]) (fastforce simp: sorted_wrt_append)
qed

lemma send_trace:
  assumes "send env meth uri hs rc = (r, rc')" "get_param (map_of hs) ''Session'' = []"
  shows "\<exists>reqs. outbox rc' = outbox rc @ reqs \<and> length reqs \<le> 1 \<and> exchange meth uri (csession rc) reqs
    \<and> numbered (cseq rc) (cseq rc') reqs \<and> (is_ok r \<longrightarrow> reqs \<noteq> [])
    \<and> same_session rc rc'"
proof (cases "e_write_ok env (cseq rc + 1)")
  case False
  with assms show ?thesis
    by (intro exI [of _ "[]"]) (auto simp: send_def exchange_def numbered_def same_session_def Let_def intro: exI [of _ "[]"])
next
  case True
  obtain r1 rest where "readResponse (inbox rc) = (r1, rest)" by (cases "readResponse (inbox rc)")
  with True assms show ?thesis
    by (intro exI [of _ "[(meth, uri, request_lines env (cseq rc + 1) (csession rc) hs)]"])
      (auto simp: send_def exchange_def numbered_def same_session_def Let_def request_lines_def intro!: exI [of _ "[cseq rc + 1]"])
qed

lemma do_request_sends:
  assumes "do_request md5 bytes env meth uri hs rc = (r, rc')" "send env meth uri hs rc = (r1, rc1)"
  shows "rc' = rc1 \<or> is_ok r1 \<and> (\<exists>a r2. send env meth uri (hs @ [(''Authorization'', a)]) rc1 = (r2, rc'))"
proof (cases r1)
  case (Inr resp)
  show ?thesis
  proof (cases "parseDigestChallenge (header resp ''WWW-Authenticate'')")
    case (Some chal)
    let ?a = "buildDigestResponse md5 bytes meth uri (cuser rc1) (cpass rc1) chal"
    obtain r2 rc2 where "send env meth uri (hs @ [(''Authorization'', ?a)]) rc1 = (r2, rc2)" by fastforce
    with assms Inr Some show ?thesis by (auto simp: do_request_def split: if_splits sum.splits)
  qed (use assms Inr in \<open>auto simp: do_request_def split: if_splits\<close>)
qed (use assms in \<open>simp add: do_request_def\<close>)

lemma do_request_trace:
  assumes "do_request md5 bytes env meth uri hs rc = (r, rc')" "get_param (map_of hs) ''Session'' = []"
  shows "\<exists>reqs. outbox rc' = outbox rc @ reqs \<and> exchange meth uri (csession rc) reqs
    \<and> numbered (cseq rc) (cseq rc') reqs \<and> (is_ok r \<longrightarrow> reqs \<noteq> [])
    \<and> same_session rc rc'"
proof -
  obtain r1 rc1 where s1: "send env meth uri hs rc = (r1, rc1)" by (cases "send env meth uri hs rc")
  from send_trace [OF s1 assms(2)] obtain q1 where q1: "outbox rc1 = outbox rc @ q1" "length q1 \<le> 1"
    "exchange meth uri (csession rc) q1" "numbered (cseq rc) (cseq rc1) q1" "is_ok r1 \<longrightarrow> q1 \<noteq> []"
    "same_session rc rc1" by blast
  show ?thesis
  proof (cases "rc' = rc1")
    case True
    have "is_ok r \<longrightarrow> is_ok r1" using assms(1) s1 by (auto simp: do_request_def split: sum.splits)
    with q1 True show ?thesis by blast
  next
    case False
    with do_request_sends [OF assms(1) s1] obtain a r2 where r1: "is_ok r1"
      and s3: "send env meth uri (hs @ [(''Authorization'', a)]) rc1 = (r2, rc')" by blast
    have g: "get_param (map_of (hs @ [(''Authorization'', x)])) ''Session'' = []" for x
      using assms(2) by (auto simp: get_param_def map_add_def split: option.splits)
    have same: "csession rc1 = csession rc" using q1(6) by (simp add: same_session_def)
    from send_trace [OF s3 g] obtain q2 where q2: "outbox rc' = outbox rc1 @ q2" "length q2 \<le> 1"
      "exchange meth uri (csession rc1) q2" "numbered (cseq rc1) (cseq rc') q2"
      "same_session rc1 rc'" by blast
    have "exchange meth uri (csession rc) (q1 @ q2)" using q1(2,3) q2(2,3) same by (auto simp: exchange_def)
    moreover have "same_session rc rc'"
      using q1(6) q2(5) by (simp add: same_session_def)
    ultimately show ?thesis
      using q1 q2 r1 numbered_append by (intro exI [of _ "q1 @ q2"]) auto
  qed
qed

lemma pick_in: "pick m want = [] \<or> pick m want \<in> set want"
  by (auto simp: pick_def split: option.split dest: find_SomeD)

lemma choose_media_codec:
  "choose_media ok u ms v a = Inr (vm, am) \<Longrightarrow> (\<forall>x. v = Some x \<longrightarrow> mcodec x \<in> set videoCodecs)
     \<Longrightarrow> mcodec vm \<in> set videoCodecs"
proof (induction ok u ms v a rule: choose_media.induct)
  case (2 ok u m ms v a)
  then show ?case
    using pick_in [of m videoCodecs] by (auto simp: Let_def media_of_def split: if_splits)
qed (auto split: option.splits)

lemma setup_audio_trace:
  "\<exists>reqs au. outbox (setup_audio md5 bytes env choice rc) = outbox rc @ reqs \<and> exchange ''SETUP'' au (csession rc) reqs
    \<and> numbered (cseq rc) (cseq (setup_audio md5 bytes env choice rc)) reqs
    \<and> csession (setup_audio md5 bytes env choice rc) = csession rc
    \<and> videoCodec (setup_audio md5 bytes env choice rc) = videoCodec rc
    \<and> (audioWriter (setup_audio md5 bytes env choice rc) \<noteq> audioWriter rc \<longrightarrow> choice \<noteq> None \<and> reqs \<noteq> [])"
proof (cases choice)
  case None
  then show ?thesis
    by (intro exI [of _ "[]"]) (auto simp: setup_audio_def exchange_def numbered_def intro: exI [of _ "[]"])
next
  case (Some af)
  obtain a f where af: "af = (a, f)" by (cases af)
  obtain r rc' where d: "do_request md5 bytes env ''SETUP'' (controlURL a) (transport chanAudioRTP chanAudioRTCP) rc = (r, rc')"
    by fastforce
  have "get_param (map_of (transport chanAudioRTP chanAudioRTCP)) ''Session'' = []"
    by (simp add: transport_def get_param_def)
  from do_request_trace [OF d this] d Some af show ?thesis
    by (cases r) (auto simp: setup_audio_def same_session_def)
qed

lemma no_session: "get_param (map_of []) ''Session'' = []" "get_param (map_of [(''Accept'', x)]) ''Session'' = []"
  "get_param (map_of [(''Range'', x)]) ''Session'' = []" "get_param (map_of (transport a b)) ''Session'' = []"
  by (simp_all add: get_param_def transport_def)

lemma play_session_trace:
  assumes "play_session md5 bytes env want su audio setup rc = (Inr (), rc')"
  shows "\<exists>a p au. outbox rc' = outbox rc @ a @ p \<and> p \<noteq> []
    \<and> exchange ''SETUP'' au (csession rc') a \<and> exchange ''PLAY'' su (csession rc') p \<and> csession rc' \<noteq> []
    \<and> numbered (cseq rc) (cseq rc') (a @ p) \<and> videoCodec rc' = videoCodec rc
    \<and> (audioWriter rc' \<noteq> audioWriter rc \<longrightarrow> want \<and> a \<noteq> [])"
proof -
  let ?ra = "rc\<lparr>csession := sessionIDOnly (header setup ''Session'')\<rparr>"
  let ?rb = "setup_audio md5 (bytes 3) env (audio_choice want audio) ?ra"
  have ne: "csession ?ra \<noteq> []" using assms by (auto simp: play_session_def Let_def split: if_splits)
  have "then_do (do_request md5 (bytes 4) env ''PLAY'' su [(''Range'', ''npt=0-'')] ?rb) (\<lambda>_ rc. (Inr (), rc)) = (Inr (), rc')"
    using assms ne by (simp add: play_session_def Let_def)
  then obtain x where d: "do_request md5 (bytes 4) env ''PLAY'' su [(''Range'', ''npt=0-'')] ?rb = (Inr x, rc')"
    by (auto elim!: then_doE)
  from do_request_trace [OF d no_session(3)] obtain p where p: "outbox rc' = outbox ?rb @ p" "exchange ''PLAY'' su (csession ?rb) p"
    "numbered (cseq ?rb) (cseq rc') p" "p \<noteq> []" "same_session ?rb rc'" by auto
  from setup_audio_trace [of md5 "bytes 3" env "audio_choice want audio" ?ra] obtain a au where
    a: "outbox ?rb = outbox rc @ a" "exchange ''SETUP'' au (csession ?ra) a" "numbered (cseq rc) (cseq ?rb) a"
      "csession ?rb = csession ?ra" "videoCodec ?rb = videoCodec rc"
      "audioWriter ?rb \<noteq> audioWriter rc \<longrightarrow> audio_choice want audio \<noteq> None \<and> a \<noteq> []" by auto
  have "audio_choice want audio \<noteq> None \<longrightarrow> want" by (auto simp: audio_choice_def split: option.splits if_splits)
  with p a ne numbered_append [OF a(3) p(3)] show ?thesis
    by (intro exI [of _ a] exI [of _ p] exI [of _ au]) (auto simp: same_session_def)
qed

lemma handshake_trace:
  assumes "rtsp_handshake md5 bytes env ok want (newRTSPConn input u) = (Inr (), rc)"
  shows "\<exists>o1 d s a p vu au su. outbox rc = o1 @ d @ s @ a @ p \<and> o1 \<noteq> [] \<and> d \<noteq> [] \<and> s \<noteq> [] \<and> p \<noteq> []
    \<and> exchange ''OPTIONS'' (uclean u) [] o1 \<and> exchange ''DESCRIBE'' (uclean u) [] d \<and> exchange ''SETUP'' vu [] s
    \<and> exchange ''SETUP'' au (csession rc) a \<and> exchange ''PLAY'' su (csession rc) p
    \<and> csession rc \<noteq> [] \<and> numbered 0 (cseq rc) (outbox rc) \<and> videoCodec rc \<in> set videoCodecs
    \<and> (audioWriter rc \<noteq> None \<longrightarrow> want \<and> a \<noteq> [])"
proof -
  let ?ca = "newRTSPConn input u"
  from assms obtain x1 c1 where d1: "do_request md5 (bytes 0) env ''OPTIONS'' (requestURI ?ca) [] ?ca = (Inr x1, c1)"
    and r1: "then_do (do_request md5 (bytes 1) env ''DESCRIBE'' (requestURI c1) [(''Accept'', ''application/sdp'')] c1) (\<lambda>desc rc.
      let sessionURI = (if header desc ''Content-Base'' \<noteq> [] then header desc ''Content-Base'' else requestURI rc)
      in case findMedia ok (body desc) sessionURI of
           Inl e \<Rightarrow> (Inl e, rc)
         | Inr (video, audio) \<Rightarrow> setup_media md5 bytes env want sessionURI video audio rc) = (Inr (), rc)"
    unfolding rtsp_handshake_def by (rule then_doE)
  from r1 obtain desc c2 su video audio where
    d2: "do_request md5 (bytes 1) env ''DESCRIBE'' (requestURI c1) [(''Accept'', ''application/sdp'')] c1 = (Inr desc, c2)"
    and media: "findMedia ok (body desc) su = Inr (video, audio)"
    and r2: "setup_media md5 bytes env want su video audio c2 = (Inr (), rc)"
    by (auto elim!: then_doE simp: Let_def split: sum.splits prod.splits)
  let ?cv = "c2\<lparr>videoCodec := mcodec video\<rparr>"
  from r2 obtain st c3 where
    d3: "do_request md5 (bytes 2) env ''SETUP'' (controlURL video) (transport chanVideoRTP chanVideoRTCP) ?cv = (Inr st, c3)"
    and r3: "play_session md5 bytes env want su audio st c3 = (Inr (), rc)"
    unfolding setup_media_def by (rule then_doE)
  from do_request_trace [OF d1 no_session(1)] obtain o1 where o1: "outbox c1 = o1" "exchange ''OPTIONS'' (uclean u) [] o1"
    "numbered 0 (cseq c1) o1" "o1 \<noteq> []" "same_session ?ca c1" by (auto simp: newRTSPConn_def)
  from do_request_trace [OF d2 no_session(2)] o1(5) obtain d where d: "outbox c2 = outbox c1 @ d"
    "exchange ''DESCRIBE'' (uclean u) [] d" "numbered (cseq c1) (cseq c2) d" "d \<noteq> []" "same_session c1 c2"
    by (auto simp: same_session_def newRTSPConn_def)
  from do_request_trace [OF d3 no_session(4)] d(5) o1(5) obtain s where s: "outbox c3 = outbox c2 @ s"
    "exchange ''SETUP'' (controlURL video) [] s" "numbered (cseq c2) (cseq c3) s" "s \<noteq> []"
    "videoCodec c3 = mcodec video" "audioWriter c3 = None"
    by (auto simp: same_session_def newRTSPConn_def)
  have codec: "mcodec video \<in> set videoCodecs"
    using choose_media_codec [of ok su _ None None video audio] media by (simp add: findMedia_def)
  from play_session_trace [OF r3] obtain a p au where p: "outbox rc = outbox c3 @ a @ p" "p \<noteq> []"
    "exchange ''SETUP'' au (csession rc) a" "exchange ''PLAY'' su (csession rc) p" "csession rc \<noteq> []"
    "numbered (cseq c3) (cseq rc) (a @ p)" "videoCodec rc = videoCodec c3"
    "audioWriter rc \<noteq> audioWriter c3 \<longrightarrow> want \<and> a \<noteq> []" by blast
  have "numbered 0 (cseq rc) (o1 @ d @ s @ a @ p)"
    using numbered_append [OF o1(3) numbered_append [OF d(3) numbered_append [OF s(3) p(6)]]] .
  moreover have ob: "outbox rc = o1 @ d @ s @ a @ p" by (simp only: p(1) s(1) d(1) o1(1) append_assoc)
  ultimately have num: "numbered 0 (cseq rc) (outbox rc)" by (simp only:)
  have vc: "videoCodec rc \<in> set videoCodecs" using codec p(7) s(5) by simp
  have aw: "audioWriter rc \<noteq> None \<longrightarrow> want \<and> a \<noteq> []" using p(8) s(6) by simp
  show ?thesis
    by (intro exI [of _ o1] exI [of _ d] exI [of _ s] exI [of _ a] exI [of _ p]
        exI [of _ "controlURL video"] exI [of _ au] exI [of _ su] conjI)
      (rule ob o1(4) d(4) s(4) p(2) o1(2) d(2) s(2) p(3) p(4) p(5) num vc aw)+
qed

end
