(* ===== verification/RtspSpec.thy ===== *)
theory RtspSpec
  imports Rtsp
begin

text \<open>
  What the RTSP client promises: the frames of a mixed stream reach their tracks in order, a session
  description is read back as the media it lists, the handshake walks the methods in order with
  increasing sequence numbers, and the waits between attempts are bounded.
\<close>

section \<open>Session descriptions as a camera writes them\<close>

record sdp_media =
  d_kind :: string
  d_port :: string
  d_proto :: string
  d_pts :: "string list"
  d_maps :: "(string \<times> string \<times> string) list"   \<comment> \<open>payload type, codec name, clock rate\<close>
  d_control :: string

definition map_line :: "string \<times> string \<times> string \<Rightarrow> string" where
  "map_line x = (case x of (pt, c, rate) \<Rightarrow> ''a=rtpmap:'' @ pt @ '' '' @ c @ ''/'' @ rate)"

definition media_lines :: "sdp_media \<Rightarrow> string list" where
  "media_lines m = [''m='' @ join '' '' (d_kind m # d_port m # d_proto m # d_pts m)]
     @ map map_line (d_maps m) @ (if d_control m = [] then [] else [''a=control:'' @ d_control m])"

definition lines_text :: "string list \<Rightarrow> string" where
  "lines_text ls = concat (map (\<lambda>l. l @ eol) ls)"

definition sdp_text :: "string list \<Rightarrow> sdp_media list \<Rightarrow> string" where
  "sdp_text pre ms = lines_text (pre @ concat (map media_lines ms))"

definition word_ok :: "string \<Rightarrow> bool" where
  "word_ok w \<longleftrightarrow> w \<noteq> [] \<and> (\<forall>c \<in> set w. graphic c)"

definition wf_media :: "sdp_media \<Rightarrow> bool" where
  "wf_media m \<longleftrightarrow> (\<forall>w \<in> set (d_kind m # d_port m # d_proto m # d_pts m). word_ok w) \<and> d_pts m \<noteq> []
     \<and> (\<forall>(pt, c, rate) \<in> set (d_maps m). one_line pt \<and> CHR '' '' \<notin> set pt \<and> one_line c \<and> CHR ''/'' \<notin> set c
          \<and> one_line rate)
     \<and> one_line (d_control m)"

definition add_codec :: "string \<times> string \<times> string \<Rightarrow> (string \<rightharpoonup> string) \<Rightarrow> (string \<rightharpoonup> string)" where
  "add_codec x mp = mp(fst x \<mapsto> to_upper (fst (snd x)))"

definition raw_of :: "sdp_media \<Rightarrow> rawMedia" where
  "raw_of m = \<lparr>rkind = d_kind m, pts = d_pts m,
     codecs = fold add_codec (d_maps m) Map.empty, control = d_control m\<rparr>"

lemma fold_sdp_lines:
  "list_all one_line ls \<Longrightarrow>
     fold sdp_line (split_on LF (lines_text ls)) st = fold sdp_line (map (\<lambda>l. l @ [CR]) ls) st"
proof (induction ls arbitrary: st)
  case Nil
  have "\<not> prefix ''m='' []" "\<not> prefix ''a=control:'' []" "\<not> prefix ''a=rtpmap:'' []" by simp_all
  then show ?case
    by (simp add: lines_text_def sdp_line_def trim_right_set_def split: prod.splits option.splits)
next
  case (Cons l ls)
  have "split_on LF ((l @ [CR]) @ LF # lines_text ls) = (l @ [CR]) # split_on LF (lines_text ls)"
    using Cons.prems by (intro split_on_append) (simp add: one_line_def)
  then show ?case using Cons by (simp add: lines_text_def eol_def)
qed

lemma trim_line: "one_line l \<Longrightarrow> trim_right_set {CR} (l @ [CR]) = l"
  using trim_right_set_append [of "[CR]" "{CR}" l] trim_right_set_id [of l "{CR}"] one_line_last [of l] by auto

lemma join_chars: "c \<in> set (join '' '' xs) \<Longrightarrow> c = CHR '' '' \<or> (\<exists>x \<in> set xs. c \<in> set x)"
  by (induction "'' ''" xs rule: join.induct) auto

lemma not_graphic: "\<not> graphic CR" "\<not> graphic LF" "CR \<noteq> CHR '' ''" "LF \<noteq> CHR '' ''"
  by (simp_all add: graphic_def CR_def LF_def)

lemma sdp_line_media:
  assumes "wf_media m"
  shows "sdp_line ((''m='' @ join '' '' (d_kind m # d_port m # d_proto m # d_pts m)) @ [CR]) st
    = (add_media st, Some \<lparr>rkind = d_kind m, pts = d_pts m, codecs = Map.empty, control = []\<rparr>)"
proof -
  let ?ws = "d_kind m # d_port m # d_proto m # d_pts m"
  have ws: "\<forall>w \<in> set ?ws. w \<noteq> [] \<and> (\<forall>c \<in> set w. graphic c)"
    using assms unfolding wf_media_def word_ok_def by blast
  have "\<forall>c \<in> set (join '' '' ?ws). c = CHR '' '' \<or> graphic c" using join_chars ws by blast
  then have "one_line (join '' '' ?ws)" unfolding one_line_def using not_graphic by blast
  then have "one_line (''m='' @ join '' '' ?ws)" by (simp only: one_line_def) (simp add: CR_def LF_def)
  then have tl: "trim_right_set {CR} ((''m='' @ join '' '' ?ws) @ [CR]) = ''m='' @ join '' '' ?ws" by (rule trim_line)
  have "drop 2 (''m='' @ join '' '' ?ws) = join '' '' ?ws" by simp
  then have "Fields (drop 2 (''m='' @ join '' '' ?ws)) = ?ws" using Fields_join [OF ws] by (simp only:)
  moreover have "prefix ''m='' (''m='' @ join '' '' ?ws)" by simp
  moreover have "d_pts m \<noteq> []" using assms by (simp add: wf_media_def)
  ultimately show ?thesis
    by (simp only: sdp_line_def tl Let_def if_True) (cases "d_pts m"; simp)
qed

lemma sdp_line_map:
  assumes "one_line pt" "CHR '' '' \<notin> set pt" "one_line c" "CHR ''/'' \<notin> set c" "one_line rate"
  shows "sdp_line (map_line (pt, c, rate) @ [CR]) (ms, Some m)
    = (ms, Some (m\<lparr>codecs := add_codec (pt, c, rate) (codecs m)\<rparr>))"
proof -
  have "one_line (map_line (pt, c, rate))" using assms by (simp add: map_line_def one_line_def CR_def LF_def)
  note line = trim_line [OF this]
  have "drop 9 (map_line (pt, c, rate)) = pt @ CHR '' '' # c @ CHR ''/'' # rate" by (simp add: map_line_def)
  then have c1: "cut CHR '' '' (drop 9 (map_line (pt, c, rate))) = (pt, c @ CHR ''/'' # rate, True)"
    using cut_at [OF assms(2)] by simp
  have c2: "cut CHR ''/'' (c @ CHR ''/'' # rate) = (c, rate, True)" by (rule cut_at [OF assms(4)])
  have "prefix ''a=rtpmap:'' (map_line (pt, c, rate))" "\<not> prefix ''m='' (map_line (pt, c, rate))"
    "\<not> prefix ''a=control:'' (map_line (pt, c, rate))" by (simp_all add: map_line_def)
  then show ?thesis by (simp add: sdp_line_def line c1 c2 Let_def add_codec_def)
qed

lemma sdp_line_control:
  assumes "one_line c"
  shows "sdp_line ((''a=control:'' @ c) @ [CR]) (ms, Some m) = (ms, Some (m\<lparr>control := c\<rparr>))"
proof -
  have "one_line (''a=control:'' @ c)" using assms by (simp add: one_line_def CR_def LF_def)
  from trim_line [OF this] show ?thesis by (simp add: sdp_line_def)
qed

lemma fold_maps:
  assumes "\<forall>(pt, c, rate) \<in> set maps. one_line pt \<and> CHR '' '' \<notin> set pt \<and> one_line c \<and> CHR ''/'' \<notin> set c \<and> one_line rate"
  shows "fold sdp_line (map (\<lambda>l. l @ [CR]) (map map_line maps)) (ms, Some m)
    = (ms, Some (m\<lparr>codecs := fold add_codec maps (codecs m)\<rparr>))"
  using assms
proof (induction maps arbitrary: m)
  case (Cons x maps)
  then show ?case by (cases x) (simp add: sdp_line_map)
qed simp

lemma fold_media:
  assumes "wf_media m"
  shows "fold sdp_line (map (\<lambda>l. l @ [CR]) (media_lines m)) st = (add_media st, Some (raw_of m))"
proof -
  have maps: "\<forall>(pt, c, rate) \<in> set (d_maps m). one_line pt \<and> CHR '' '' \<notin> set pt \<and> one_line c
      \<and> CHR ''/'' \<notin> set c \<and> one_line rate" and ctl: "one_line (d_control m)"
    using assms by (simp_all add: wf_media_def)
  have "media_lines m = (''m='' @ join '' '' (d_kind m # d_port m # d_proto m # d_pts m)) # map map_line (d_maps m)
     @ (if d_control m = [] then [] else [''a=control:'' @ d_control m])"
    by (simp add: media_lines_def)
  then show ?thesis
    using fold_maps [OF maps] sdp_line_control [OF ctl] sdp_line_media [OF assms]
    by (simp only: map_append list.map fold_append fold_Cons o_apply) (auto simp: raw_of_def)
qed

lemma fold_medias:
  "\<forall>m \<in> set ms. wf_media m \<Longrightarrow>
     add_media (fold sdp_line (map (\<lambda>l. l @ [CR]) (concat (map media_lines ms))) st) = add_media st @ map raw_of ms"
proof (induction ms arbitrary: st)
  case (Cons m ms)
  then show ?case by (simp add: fold_media add_media_def)
qed simp

lemma fold_preamble:
  "\<forall>l \<in> set pre. one_line l \<and> \<not> prefix ''m='' l \<Longrightarrow>
     fold sdp_line (map (\<lambda>l. l @ [CR]) pre) ([], None) = ([], None)"
  by (induction pre) (auto simp: sdp_line_def trim_line)

lemma one_line_media: "wf_media m \<Longrightarrow> list_all one_line (media_lines m)"
proof -
  assume w: "wf_media m"
  have "\<forall>w \<in> set (d_kind m # d_port m # d_proto m # d_pts m). \<forall>c \<in> set w. graphic c"
    using w unfolding wf_media_def word_ok_def by blast
  then have "\<forall>c \<in> set (join '' '' (d_kind m # d_port m # d_proto m # d_pts m)). c = CHR '' '' \<or> graphic c"
    using join_chars by blast
  then have "one_line (join '' '' (d_kind m # d_port m # d_proto m # d_pts m))"
    unfolding one_line_def using not_graphic by blast
  then have "one_line (''m='' @ join '' '' (d_kind m # d_port m # d_proto m # d_pts m))"
    by (simp add: one_line_def CR_def LF_def)
  moreover have "\<forall>x \<in> set (d_maps m). one_line (map_line x)"
    using w by (auto simp: wf_media_def map_line_def one_line_def CR_def LF_def)
  moreover have "one_line (''a=control:'' @ d_control m)"
    using w by (simp add: wf_media_def one_line_def CR_def LF_def)
  ultimately show ?thesis by (auto simp: media_lines_def list_all_iff)
qed

lemma sdp_medias_text:
  assumes "\<forall>l \<in> set pre. one_line l \<and> \<not> prefix ''m='' l" "\<forall>m \<in> set ms. wf_media m"
  shows "sdp_medias (sdp_text pre ms) = map raw_of ms"
proof -
  have "list_all one_line (pre @ concat (map media_lines ms))"
    using assms one_line_media by (fastforce simp: list_all_iff)
  from fold_sdp_lines [OF this, of "([], None)"] show ?thesis
    using fold_preamble [OF assms(1)] fold_medias [OF assms(2), of "([], None)"]
    by (simp add: sdp_medias_def sdp_text_def add_media_def)
qed

section \<open>Which media are chosen\<close>

definition is_video :: "rawMedia \<Rightarrow> bool" where
  "is_video m \<longleftrightarrow> rkind m = ''video'' \<and> pick m videoCodecs \<noteq> []"

definition is_audio :: "rawMedia \<Rightarrow> bool" where
  "is_audio m \<longleftrightarrow> rkind m = ''audio'' \<and> pick m audioCodecs \<noteq> [] \<and> control m \<noteq> []"

definition the_audio :: "(string \<Rightarrow> bool) \<Rightarrow> string \<Rightarrow> rawMedia list \<Rightarrow> rtspMedia option" where
  "the_audio ok u ms = map_option (\<lambda>m. media_of ok u ''audio'' (pick m audioCodecs) m) (List.find is_audio ms)"

lemma choose_media_spec:
  "choose_media ok u ms v a =
    (case v of
       Some vm \<Rightarrow> Inr (vm, (case a of None \<Rightarrow> the_audio ok u ms | Some _ \<Rightarrow> a))
     | None \<Rightarrow> (case List.find is_video ms of
           None \<Rightarrow> Inl NoVideo
         | Some m \<Rightarrow> if control m = [] then Inl NoControl
             else Inr (media_of ok u ''video'' (pick m videoCodecs) m,
                       (case a of None \<Rightarrow> the_audio ok u ms | Some _ \<Rightarrow> a))))"
proof (induction ok u ms v a rule: choose_media.induct)
  case (1 ok u v a)
  then show ?case by (auto simp: the_audio_def split: option.splits)
next
  case (2 ok u m ms v a)
  then show ?case
    by (auto simp: the_audio_def is_video_def is_audio_def Let_def split: option.splits)
qed

section \<open>Waits between attempts\<close>

lemma reader_waits:
  "0 < b \<Longrightarrow> b \<le> maxBackoff \<Longrightarrow> n < length (runRTSPReader b as)
     \<Longrightarrow> runRTSPReader b as ! n = min (b * 2 ^ n) maxBackoff"
proof (induction b as arbitrary: n rule: runRTSPReader.induct)
  case (2 b before after waiting as)
  show ?case
  proof (cases n)
    case 0
    with 2 show ?thesis by (auto split: if_splits)
  next
    case (Suc m)
    let ?b = "if b * 2 > maxBackoff then maxBackoff else b * 2"
    have c: "\<not> (before \<or> after)" "\<not> waiting" using 2 Suc by (auto split: if_splits)
    have bounds: "0 < ?b" "?b \<le> maxBackoff" "m < length (runRTSPReader ?b as)"
      using 2 Suc c by (auto simp: maxBackoff_def)
    from "2.IH" [OF c bounds] have "runRTSPReader ?b as ! m = min (?b * 2 ^ m) maxBackoff" .
    moreover have "min (?b * 2 ^ m) maxBackoff = min (b * 2 ^ Suc m) maxBackoff"
    proof (cases "b * 2 > maxBackoff")
      case True
      have "maxBackoff * 1 \<le> maxBackoff * 2 ^ m" by (intro mult_left_mono) (auto simp: maxBackoff_def)
      moreover have "b * 2 * 1 \<le> b * 2 * 2 ^ m" using 2(2) by (intro mult_left_mono) auto
      ultimately show ?thesis using True by simp
    qed simp
    ultimately show ?thesis using c Suc by simp
  qed
qed simp

section \<open>Properties\<close>

text \<open>
  C29: Reading the rendering of any sequence of interleaved frames and replies hands exactly the RTP
  packets of the video and audio channels to their writers, in order, and ends with the error of
  what follows.
\<close>

theorem interleaved_stream_roundtrip:
  assumes "\<forall>m \<in> set msgs. wf_msg m" "readInterleaved rest = (Inl e, r)"
  shows "readPackets unmarshal aw (\<lambda>_. True) i (concat (map render_msg msgs) @ rest)
    = (concat (map (route_msg unmarshal aw) msgs), e)"
  using assms(1)
proof (induction msgs arbitrary: i)
  case Nil
  with assms(2) show ?case by (subst readPackets.simps) simp
next
  case (Cons m msgs)
  let ?s = "concat (map render_msg msgs) @ rest"
  show ?case
  proof (cases m)
    case (Frame ch d)
    have "readInterleaved (render_msg m @ ?s) = (Inr (ch, d), ?s)"
      using Cons.prems unfolding Frame by (intro readInterleaved_frame) auto
    moreover have "readPackets unmarshal aw (\<lambda>_. True) j ?s = (concat (map (route_msg unmarshal aw) msgs), e)" for j
      using Cons by simp
    ultimately show ?thesis
      by (subst readPackets.simps) (simp add: Frame split: option.split)
  next
    case (Reply c reason hs b)
    have "readInterleaved (render_msg m @ ?s) = readInterleaved ?s"
      using Cons.prems unfolding Reply by (intro readInterleaved_reply) simp
    then have "readPackets unmarshal aw (\<lambda>_. True) i (render_msg m @ ?s) = readPackets unmarshal aw (\<lambda>_. True) i ?s"
      by (subst (1 2) readPackets.simps) (simp only:)
    with Cons Reply show ?thesis by simp
  qed
qed

text \<open>
  C30: Reading a rendered session description finds the first video medium and the audio with their
  control URLs and codecs, and reports exactly the descriptions without video or without its
  control.
\<close>

theorem session_description_roundtrip:
  assumes "\<forall>l \<in> set pre. one_line l \<and> \<not> prefix ''m='' l" "\<forall>m \<in> set ms. wf_media m"
  shows "findMedia url_ok (sdp_text pre ms) base =
    (case List.find is_video (map raw_of ms) of
       None \<Rightarrow> Inl NoVideo
     | Some v \<Rightarrow> if control v = [] then Inl NoControl
         else Inr (media_of url_ok base ''video'' (pick v videoCodecs) v, the_audio url_ok base (map raw_of ms)))"
  unfolding findMedia_def sdp_medias_text [OF assms] choose_media_spec [of url_ok base "map raw_of ms" None None]
  by (simp split: option.split)


lemma reconnect_waits_are_bounded:
  assumes "n < length (runRTSPReader minBackoff attempts)"
  shows "runRTSPReader minBackoff attempts ! n = min (second * 2 ^ n) (30 * second)
    \<and> second \<le> runRTSPReader minBackoff attempts ! n \<and> runRTSPReader minBackoff attempts ! n \<le> 30 * second"
proof -
  have "second * 1 \<le> second * 2 ^ n" by (intro mult_left_mono) auto
  with reader_waits [OF _ _ assms] show ?thesis by (simp add: minBackoff_def maxBackoff_def)
qed

section \<open>Witnesses\<close>

definition cam_video :: sdp_media where
  "cam_video = \<lparr>d_kind = ''video'', d_port = ''0'', d_proto = ''RTP/AVP'', d_pts = [''96''],
     d_maps = [(''96'', ''h264'', ''90000'')], d_control = ''trackID=0''\<rparr>"

definition cam_audio :: sdp_media where
  "cam_audio = \<lparr>d_kind = ''audio'', d_port = ''0'', d_proto = ''RTP/AVP'', d_pts = [''8''],
     d_maps = [(''8'', ''PCMA'', ''8000'')], d_control = ''trackID=1''\<rparr>"

lemma cam_raw:
  "raw_of cam_video = \<lparr>rkind = ''video'', pts = [''96''], codecs = [''96'' \<mapsto> ''H264''], control = ''trackID=0''\<rparr>"
  "raw_of cam_audio = \<lparr>rkind = ''audio'', pts = [''8''], codecs = [''8'' \<mapsto> ''PCMA''], control = ''trackID=1''\<rparr>"
proof -
  have "to_upper ''h264'' = ''H264''" "to_upper ''PCMA'' = ''PCMA''" by code_simp+
  then show "raw_of cam_video = \<lparr>rkind = ''video'', pts = [''96''], codecs = [''96'' \<mapsto> ''H264''], control = ''trackID=0''\<rparr>"
    "raw_of cam_audio = \<lparr>rkind = ''audio'', pts = [''8''], codecs = [''8'' \<mapsto> ''PCMA''], control = ''trackID=1''\<rparr>"
    by (simp_all add: raw_of_def cam_video_def cam_audio_def add_codec_def)
qed

lemma cam_media: "wf_media cam_video" "wf_media cam_audio"
  by (simp_all add: cam_video_def cam_audio_def wf_media_def word_ok_def graphic_def one_line_def CR_def LF_def)

theorem interleaved_stream_roundtrip_witness:
  "readPackets (\<lambda>d. Some (voice_packet\<lparr>timestamp := of_nat (length d)\<rparr>)) (audioForwarder ''PCMA'') (\<lambda>_. True) 0
     (concat (map render_msg [Frame 0 ''abc'', Reply 200 ''OK'' [(''CSeq'', ''7'')] [], Frame 1 ''rtcp'', Frame 2 ''x'']) @ [])
   = ([(VideoTrack, voice_packet\<lparr>timestamp := 3\<rparr>), (AudioTrack, voice_packet\<lparr>timestamp := 1\<rparr>)], ReadError)"
proof -
  have r: "readInterleaved [] = (Inl ReadError, [])" by (subst readInterleaved.simps) simp
  have "to_lower ''CSeq'' \<noteq> ''content-length''" by code_simp
  then have wf: "\<forall>m \<in> set [Frame 0 ''abc'', Reply 200 ''OK'' [(''CSeq'', ''7'')] [], Frame 1 ''rtcp'', Frame 2 ''x'']. wf_msg m"
    by (simp add: wf_header_def one_line_def graphic_def CR_def LF_def int64_range_def)
  show ?thesis
    unfolding interleaved_stream_roundtrip [OF wf r]
    by (simp add: route_def chanVideoRTP_def chanAudioRTP_def audioForwarder_def)
qed

theorem session_description_roundtrip_witness:
  "findMedia (\<lambda>_. True) (sdp_text [''v=0'', ''a=control:*''] [cam_video, cam_audio]) ''rtsp://cam/s''
   = Inr (\<lparr>kind = ''video'', mcodec = ''H264'', controlURL = ''rtsp://cam/s/trackID=0''\<rparr>,
          Some \<lparr>kind = ''audio'', mcodec = ''PCMA'', controlURL = ''rtsp://cam/s/trackID=1''\<rparr>)"
proof -
  have pre: "\<forall>l \<in> set [''v=0'', ''a=control:*'']. one_line l \<and> \<not> prefix ''m='' l"
    by (simp add: one_line_def CR_def LF_def)
  have ms: "\<forall>m \<in> set [cam_video, cam_audio]. wf_media m" by (simp add: cam_media)
  have "\<not> has_scheme ''trackID=0''" "\<not> has_scheme ''trackID=1''" "\<not> suffix ''/'' ''rtsp://cam/s''" by code_simp+
  then show ?thesis
    unfolding session_description_roundtrip [OF pre ms]
    by (simp add: cam_raw is_video_def is_audio_def pick_def get_param_def videoCodecs_def audioCodecs_def media_of_def
      the_audio_def resolveControl_def)
qed

definition quiet_env :: rtsp_env where
  "quiet_env = \<lparr>e_write_ok = (\<lambda>_. True), e_order = id\<rparr>"

definition cam_url :: rtsp_url where
  "cam_url = \<lparr>uscheme = ''rtsp'', uhost = ''cam'', uuser = [], upass = [], uclean = ''rtsp://cam/s''\<rparr>"

lemma do_request_reply:
  assumes "inbox rc = render_msg (Reply 200 reason hs b) @ s" "wf_msg (Reply 200 reason hs b)" "e_write_ok env (cseq rc + 1)"
  shows "do_request md5 bytes env meth uri h rc
    = (Inr \<lparr>statusCode = 200, headers = header_map (reply_headers hs b) Map.empty, body = b\<rparr>,
       rc\<lparr>cseq := cseq rc + 1, outbox := outbox rc @ [(meth, uri, request_lines env (cseq rc + 1) (csession rc) h)],
         inbox := s\<rparr>)"
proof -
  have "send env meth uri h rc
    = (Inr \<lparr>statusCode = 200, headers = header_map (reply_headers hs b) Map.empty, body = b\<rparr>,
       rc\<lparr>cseq := cseq rc + 1, outbox := outbox rc @ [(meth, uri, request_lines env (cseq rc + 1) (csession rc) h)],
         inbox := s\<rparr>)"
    unfolding send_def Let_def using assms readResponse_render [OF assms(2), of s] by simp
  then show ?thesis by (simp add: do_request_def)
qed

definition cam_reply :: "(string \<times> string) list \<Rightarrow> string \<Rightarrow> string" where
  "cam_reply hs b = render_msg (Reply 200 ''OK'' hs b)"

definition cam_input :: string where
  "cam_input = cam_reply [] [] @ cam_reply [] (sdp_text [] [cam_video]) @ cam_reply [(''Session'', ''7;timeout=60'')] []
     @ cam_reply [] []"


lemma reconnect_waits_are_bounded_witness:
  "runRTSPReader minBackoff (replicate 7 (False, False, False)) ! 6 = 30 * second"
  using reconnect_waits_are_bounded [of 6 "replicate 7 (False, False, False)"]
  by (simp add: minBackoff_def maxBackoff_def numeral_eq_Suc)

end
