(* ===== verification/Sip.thy ===== *)
theory Sip
  imports Bell Digest "HOL-Library.Signed_Division"
begin

text \<open>
  \<open>sip.go\<close>: registering the door extensions and turning an incoming call into a ring.  The SIP
  stack is the argument \<open>transact\<close> (a request, and what its transaction then delivers); network
  interfaces and random tags are arguments.
\<close>

definition sipRegisterExpiry :: duration where "sipRegisterExpiry = 3600 * second"
definition sipRegisterRefresh :: duration where "sipRegisterRefresh = 1800 * second"
definition retryWait :: duration where "retryWait = 30 * second"

section \<open>Refreshing\<close>

definition refreshInterval :: "int \<Rightarrow> duration" where
  "refreshInterval granted =
    (if granted \<le> 0 then sipRegisterRefresh
     else (let d = wrap64 (granted * second) sdiv 2
       in if d < 15 * second then 15 * second
          else if d > sipRegisterRefresh then sipRegisterRefresh else d))"

text \<open>
  \<open>registerLoop\<close> over the results of its attempts and whether the context is done during the wait
  after each: what it waits for.
\<close>

datatype reg_result = RegCanceled | RegFailed | RegGranted int

fun registerLoop :: "(reg_result \<times> bool) list \<Rightarrow> (reg_result \<times> duration) list" where
  "registerLoop [] = []"
| "registerLoop ((RegCanceled, stop) # rs) = []"
| "registerLoop ((RegFailed, stop) # rs) = (RegFailed, retryWait) # (if stop then [] else registerLoop rs)"
| "registerLoop ((RegGranted n, stop) # rs) =
     (RegGranted n, refreshInterval n) # (if stop then [] else registerLoop rs)"

section \<open>One registration\<close>

record sip_reply =
  scode :: nat
  www_authenticate :: "string option"
  proxy_authenticate :: "string option"
  expires_header :: "string option"

record sip_register =
  q_target :: string
  q_user :: string
  q_contact :: "string \<times> string \<times> int"
  q_expires :: string
  q_tag :: string
  q_authorization :: "string option"

definition expiresFromResponse :: "sip_reply \<Rightarrow> int" where
  "expiresFromResponse resp = (case expires_header resp of
      None \<Rightarrow> 0
    | Some v \<Rightarrow> (case parse_int (trim_space v) of None \<Rightarrow> 0 | Some n \<Rightarrow> if n < 0 then 0 else n))"

text \<open>What a transaction delivers; \<open>do\<close> drops provisional responses.\<close>

datatype tx_event = TxResponse sip_reply | TxClosed | TxDone

fun sip_do :: "tx_event list \<Rightarrow> sip_reply option" where
  "sip_do [] = None"
| "sip_do (TxDone # es) = None"
| "sip_do (TxClosed # es) = None"
| "sip_do (TxResponse r # es) = (if scode r < 200 then sip_do es else Some r)"

type_synonym 'w transactor = "sip_register \<Rightarrow> 'w \<Rightarrow> tx_event list option \<times> 'w"

definition sip_send :: "'w transactor \<Rightarrow> sip_register \<Rightarrow> 'w \<Rightarrow> sip_reply option \<times> 'w" where
  "sip_send transact q w = (case transact q w of
      (None, w') \<Rightarrow> (None, w') | (Some es, w') \<Rightarrow> (sip_do es, w'))"

record sip_server =
  sip_bind :: string
  sip_streams :: "StreamConfig list"
  streamsByHost :: "string \<rightharpoonup> string"
  contactHost :: string
  contactPort :: int

definition build_register :: "sip_server \<Rightarrow> StreamConfig \<Rightarrow> string \<Rightarrow> string \<Rightarrow> sip_register" where
  "build_register srv st tag authHeader =
    \<lparr>q_target = ''sip:'' @ host st, q_user = sipExt st, q_contact = (sipExt st, contactHost srv, contactPort srv),
     q_expires = format_int (sipRegisterExpiry div second), q_tag = tag,
     q_authorization = (if authHeader \<noteq> [] then Some authHeader else None)\<rparr>"

definition challenge_header :: "sip_reply \<Rightarrow> string option" where
  "challenge_header r = (case www_authenticate r of None \<Rightarrow> proxy_authenticate r | Some h \<Rightarrow> Some h)"

definition registerOnce ::
  "(string \<Rightarrow> string) \<Rightarrow> string \<Rightarrow> string \<Rightarrow> string \<Rightarrow> 'w transactor \<Rightarrow> sip_server \<Rightarrow> StreamConfig
     \<Rightarrow> 'w \<Rightarrow> int option \<times> 'w" where
  "registerOnce md5 bytes tag1 tag2 transact srv st w =
    (case sip_send transact (build_register srv st tag1 []) w of
       (None, w1) \<Rightarrow> (None, w1)
     | (Some resp, w1) \<Rightarrow>
         if scode resp = 200 then (Some (expiresFromResponse resp), w1)
         else if scode resp \<noteq> 401 \<and> scode resp \<noteq> 407 then (None, w1)
         else (case challenge_header resp of
             None \<Rightarrow> (None, w1)
           | Some h \<Rightarrow> (case parseDigestChallenge h of
               None \<Rightarrow> (None, w1)
             | Some chal \<Rightarrow>
                 (case sip_send transact (build_register srv st tag2
                     (buildDigestResponse md5 bytes ''REGISTER'' (''sip:'' @ host st) (sipExt st) (sipPass st) chal)) w1 of
                    (None, w2) \<Rightarrow> (None, w2)
                  | (Some resp2, w2) \<Rightarrow>
                      if scode resp2 \<noteq> 200 then (None, w2) else (Some (expiresFromResponse resp2), w2)))))"

text \<open>The registration is a client of the challenge exchange.\<close>

definition sip_reply_of :: "sip_reply \<Rightarrow> sip_reply device_reply" where
  "sip_reply_of r = \<lparr>rstatus = scode r, rchallenge = (case challenge_header r of None \<Rightarrow> [] | Some h \<Rightarrow> h), rbody = r\<rparr>"

definition register_send ::
  "string \<Rightarrow> string \<Rightarrow> 'w transactor \<Rightarrow> sip_server \<Rightarrow> StreamConfig \<Rightarrow> string \<Rightarrow> 'w \<Rightarrow> sip_reply device_reply option \<times> 'w" where
  "register_send tag1 tag2 transact srv st auth w =
    (case sip_send transact (build_register srv st (if auth = [] then tag1 else tag2) auth) w of
       (r, w') \<Rightarrow> (map_option sip_reply_of r, w'))"

definition register_answer :: "(string \<Rightarrow> string) \<Rightarrow> string \<Rightarrow> StreamConfig \<Rightarrow> string \<Rightarrow> string option" where
  "register_answer md5 bytes st =
     answer_challenge md5 bytes ''REGISTER'' (Some (''sip:'' @ host st)) (sipExt st) (sipPass st)"

lemma no_empty_challenge: "parseDigestChallenge [] = None"
  by (simp add: parseDigestChallenge_def)

lemma digest_response_nonempty: "buildDigestResponse md5 bytes m u us p c \<noteq> []"
  by (simp add: buildDigestResponse_def)

lemma registerOnce_handshake:
  "registerOnce md5 bytes tag1 tag2 transact srv st w =
    (case handshake {401, 407} (register_send tag1 tag2 transact srv st) (register_answer md5 bytes st) w of
       (r, w') \<Rightarrow> (map_option (\<lambda>r. expiresFromResponse (rbody r)) r, w'))"
proof (cases "sip_send transact (build_register srv st tag1 []) w")
  case (Pair r w1)
  show ?thesis
  proof (cases r)
    case (Some resp)
    show ?thesis
    proof (cases "challenge_header resp")
      case None
      with Pair Some show ?thesis
        by (simp add: registerOnce_def handshake_def register_send_def sip_reply_of_def register_answer_def
          answer_challenge_def no_empty_challenge)
    next
      case (Some h)
      show ?thesis
      proof (cases "parseDigestChallenge h")
        case None
        with Pair Some \<open>r = Some resp\<close> show ?thesis
          by (simp add: registerOnce_def handshake_def register_send_def sip_reply_of_def register_answer_def
            answer_challenge_def)
      next
        case (Some chal)
        let ?q = "build_register srv st tag2
          (buildDigestResponse md5 bytes ''REGISTER'' (''sip:'' @ host st) (sipExt st) (sipPass st) chal)"
        obtain r2 w2 where s2: "sip_send transact ?q w1 = (r2, w2)" by fastforce
        from Pair Some \<open>r = Some resp\<close> \<open>challenge_header resp = Some h\<close> s2 show ?thesis
          by (cases r2) (simp_all add: registerOnce_def handshake_def register_send_def sip_reply_of_def
            register_answer_def answer_challenge_def digest_response_nonempty)
      qed
    qed
  qed (simp add: Pair registerOnce_def handshake_def register_send_def)
qed

interpretation reg: challenge_client "{401, 407}" "register_send tag1 tag2 transact srv st"
    "register_answer md5 bytes st" "registerOnce md5 bytes tag1 tag2 transact srv st"
  for tag1 tag2 transact srv st md5 bytes
  by unfold_locales (auto simp: registerOnce_handshake split: prod.splits)

section \<open>The server\<close>

record SIPConfig =
  cfgBind :: string
  cfgContactHost :: string
  cfgContactPort :: int

datatype sip_error = NoContactHost | BadBind | StackFailed

definition portFromBind :: "string \<Rightarrow> int option" where
  "portFromBind bind = (case SplitHostPort bind of None \<Rightarrow> None | Some (_, p) \<Rightarrow> parse_int p)"

text \<open>Network interfaces: up, loopback, and their addresses (\<open>None\<close>: listing failed; an address that
  is not an IPv4 one is \<open>[]\<close>).\<close>

record iface =
  if_up :: bool
  if_loopback :: bool
  if_addrs :: "nat list list option"

definition usable_ip4 :: "nat list \<Rightarrow> bool" where
  "usable_ip4 ip \<longleftrightarrow> length ip = 4 \<and> hd ip \<noteq> 127"

definition ip4_text :: "nat list \<Rightarrow> string" where
  "ip4_text ip = join ''.'' (map (\<lambda>n. format_int (int n)) ip)"

fun detectLocalIPv4 :: "iface list \<Rightarrow> string option" where
  "detectLocalIPv4 [] = None"
| "detectLocalIPv4 (i # is) =
    (if \<not> if_up i \<or> if_loopback i then detectLocalIPv4 is
     else (case if_addrs i of
         None \<Rightarrow> detectLocalIPv4 is
       | Some as \<Rightarrow> (case List.find usable_ip4 as of
           None \<Rightarrow> detectLocalIPv4 is
         | Some ip \<Rightarrow> Some (ip4_text ip))))"

text \<open>\<open>Inr None\<close> is the disabled server; \<open>stack_ok\<close> says whether the SIP library comes up.\<close>

definition NewSIPServer ::
  "iface list option \<Rightarrow> bool \<Rightarrow> SIPConfig \<Rightarrow> StreamConfig list \<Rightarrow> sip_error + sip_server option" where
  "NewSIPServer ifaces stack_ok cfg ss =
    (let enabled = filter (\<lambda>s. sipExt s \<noteq> []) ss in
     if enabled = [] then Inr None
     else
       let bind = (if cfgBind cfg = [] then '':5060'' else cfgBind cfg) in
       (case (if cfgContactHost cfg = [] then (case ifaces of None \<Rightarrow> None | Some is \<Rightarrow> detectLocalIPv4 is)
              else Some (cfgContactHost cfg)) of
          None \<Rightarrow> Inl NoContactHost
        | Some ch \<Rightarrow> (case (if cfgContactPort cfg = 0 then portFromBind bind else Some (cfgContactPort cfg)) of
            None \<Rightarrow> Inl BadBind
          | Some cp \<Rightarrow>
              if \<not> stack_ok then Inl StackFailed
              else Inr (Some \<lparr>sip_bind = bind, sip_streams = enabled,
                streamsByHost = fold (\<lambda>s m. m(host s \<mapsto> sid s)) enabled Map.empty,
                contactHost = ch, contactPort = cp\<rparr>))))"

section \<open>Calls\<close>

definition sourceHost :: "string \<Rightarrow> string" where
  "sourceHost src = (case SplitHostPort src of None \<Rightarrow> src | Some (h, _) \<Rightarrow> h)"

text \<open>The status of the answer, the ring handed on, and the bus.\<close>

definition handleInvite ::
  "instant \<Rightarrow> string \<Rightarrow> sip_server \<Rightarrow> bell_bus \<Rightarrow> (nat \<times> (StreamConfig \<times> instant) option) \<times> bell_bus" where
  "handleInvite now src srv b = (case streamsByHost srv (sourceHost src) of
      None \<Rightarrow> ((404, None), b)
    | Some streamID \<Rightarrow> (case Fire now streamID b of (ring, b') \<Rightarrow> ((486, ring), b')))"

definition handleCancel :: "nat" where
  "handleCancel = 200"

lemma by_host_lookup:
  "fold (\<lambda>s m. m(host s \<mapsto> sid s)) ss m0 h =
     (case List.find (\<lambda>s. host s = h) (rev ss) of None \<Rightarrow> m0 h | Some s \<Rightarrow> Some (sid s))"
  by (induction ss arbitrary: m0) (auto simp: find_append split: option.splits)

lemma by_id_lookup:
  "fold (\<lambda>s m. m(sid s \<mapsto> s)) ss m0 i =
     (case List.find (\<lambda>s. sid s = i) (rev ss) of None \<Rightarrow> m0 i | Some s \<Rightarrow> Some s)"
  by (induction ss arbitrary: m0) (auto simp: find_append split: option.splits)

lemma by_id_distinct:
  "distinct (map sid ss) \<Longrightarrow> s \<in> set ss \<Longrightarrow> fold (\<lambda>s m. m(sid s \<mapsto> s)) ss m0 (sid s) = Some s"
  unfolding by_id_lookup
  by (auto split: option.splits dest!: find_SomeD simp: find_None_iff2 distinct_map inj_on_def)

section \<open>The running server\<close>

text \<open>
  \<open>Run\<close> and the goroutines it starts: the listener, one registration loop per stream, and the wait for
  either the context or the listener, then for every loop.  A registration loop ends only on a done
  context (\<open>registerLoop\<close> goes on after every other result); the log of requests is who registered.
\<close>

record sip_running =
  sr_done :: bool                 \<comment> \<open>the context\<close>
  sr_listening :: bool
  sr_loops :: "StreamConfig list"
  sr_waiting :: bool              \<comment> \<open>past the \<open>select\<close>, in \<open>wg.Wait\<close>\<close>
  sr_returned :: bool
  sr_log :: "string list"

definition sip_run_start :: "sip_server \<Rightarrow> sip_running" where
  "sip_run_start srv = \<lparr>sr_done = False, sr_listening = True, sr_loops = sip_streams srv, sr_waiting = False,
     sr_returned = False, sr_log = []\<rparr>"

inductive sip_run_step :: "sip_running \<Rightarrow> sip_running \<Rightarrow> bool" where
  Cancel: "sip_run_step s (s\<lparr>sr_done := True\<rparr>)"
| ListenerReturns: "sr_listening s \<Longrightarrow> sip_run_step s (s\<lparr>sr_listening := False\<rparr>)"
| Attempt: "st \<in> set (sr_loops s) \<Longrightarrow> sip_run_step s (s\<lparr>sr_log := sr_log s @ [sid st]\<rparr>)"
| LoopEnds: "st \<in> set (sr_loops s) \<Longrightarrow> sr_done s \<Longrightarrow> sip_run_step s (s\<lparr>sr_loops := remove1 st (sr_loops s)\<rparr>)"
| Selected: "\<not> sr_waiting s \<Longrightarrow> sr_done s \<or> \<not> sr_listening s \<Longrightarrow> sip_run_step s (s\<lparr>sr_waiting := True\<rparr>)"
| Returns: "sr_waiting s \<Longrightarrow> sr_loops s = [] \<Longrightarrow> sip_run_step s (s\<lparr>sr_returned := True\<rparr>)"

inductive_cases sip_run_stepE: "sip_run_step s s'"

inductive sip_run_reach :: "sip_server \<Rightarrow> sip_running \<Rightarrow> bool" for srv where
  Started: "sip_run_reach srv (sip_run_start srv)"
| Goes_on: "sip_run_reach srv s \<Longrightarrow> sip_run_step s s' \<Longrightarrow> sip_run_reach srv s'"

lemma run_loops_until_done:
  "sip_run_reach srv s \<Longrightarrow> (sr_done s \<or> sr_loops s = sip_streams srv)
     \<and> (sr_returned s \<longrightarrow> sr_waiting s \<and> sr_loops s = [])"
  by (induction rule: sip_run_reach.induct) (auto simp: sip_run_start_def elim!: sip_run_stepE)

text \<open>
  \<open>Run\<close> returns only after the context is done, even when its listener ended long before: without a
  cancellation every loop of a configured stream keeps registering for calls nobody receives.
\<close>

lemma run_outlives_its_listener:
  assumes "sip_run_reach srv s" "\<not> sr_done s" "sip_streams srv \<noteq> []"
  shows "\<not> sr_returned s \<and> (\<forall>st \<in> set (sip_streams srv). sip_run_step s (s\<lparr>sr_log := sr_log s @ [sid st]\<rparr>))
    \<and> (\<exists>s'. sip_run_reach srv s' \<and> \<not> sr_listening s' \<and> \<not> sr_done s' \<and> sr_log s' = sr_log s)"
proof (intro conjI ballI)
  have loops: "sr_loops s = sip_streams srv" using run_loops_until_done [OF assms(1)] assms(2) by simp
  then show "\<not> sr_returned s" using run_loops_until_done [OF assms(1)] assms(3) by auto
  show "sip_run_step s (s\<lparr>sr_log := sr_log s @ [sid st]\<rparr>)" if "st \<in> set (sip_streams srv)" for st
    by (rule Attempt) (simp add: loops that)
  show "\<exists>s'. sip_run_reach srv s' \<and> \<not> sr_listening s' \<and> \<not> sr_done s' \<and> sr_log s' = sr_log s"
  proof (cases "sr_listening s")
    case True
    have "sip_run_reach srv (s\<lparr>sr_listening := False\<rparr>)" by (rule Goes_on [OF assms(1) ListenerReturns [OF True]])
    with assms(2) show ?thesis by (intro exI [of _ "s\<lparr>sr_listening := False\<rparr>"]) simp
  qed (use assms in blast)
qed

text \<open>After a cancellation it can always return.\<close>

lemma run_returns_once_done:
  assumes "sip_run_reach srv s" "sr_done s"
  shows "\<exists>s'. sip_run_reach srv s' \<and> sr_returned s'"
  using assms
proof (induction "length (sr_loops s)" arbitrary: s)
  case 0
  define s1 where "s1 = s\<lparr>sr_waiting := True\<rparr>"
  have "s1 = s" if "sr_waiting s" using that by (cases s) (simp add: s1_def)
  moreover have "sip_run_reach srv s1" if "\<not> sr_waiting s"
    unfolding s1_def by (rule Goes_on [OF "0.prems"(1) Selected]) (use that "0.prems" in simp_all)
  ultimately have "sip_run_reach srv s1" using "0.prems"(1) by metis
  then have "sip_run_reach srv (s1\<lparr>sr_returned := True\<rparr>)"
    by (rule Goes_on) (rule Returns; use 0 in \<open>simp add: s1_def\<close>)
  then show ?case by (rule exI [where P = "\<lambda>s'. sip_run_reach srv s' \<and> sr_returned s'", OF conjI]) simp
next
  case (Suc n)
  then obtain st rest where l: "sr_loops s = st # rest" by (cases "sr_loops s") auto
  have "sip_run_reach srv (s\<lparr>sr_loops := remove1 st (sr_loops s)\<rparr>)"
    by (rule Goes_on [OF Suc.prems(1)]) (rule LoopEnds; use l Suc.prems in simp)
  then show ?case by (rule Suc.hyps(1) [rotated]) (use l Suc in simp_all)
qed

section \<open>Properties\<close>

lemma call_rings_the_door_it_came_from:
  assumes "NewSIPServer ifaces stack_ok cfg ss = Inr (Some srv)" "distinct (map sid ss)"
    and "bstreams b = fold (\<lambda>s m. m(sid s \<mapsto> s)) ss Map.empty"
    and "handleInvite now src srv b = ((status, ring), b')"
  shows "case List.find (\<lambda>s. host s = sourceHost src) (rev (filter (\<lambda>s. sipExt s \<noteq> []) ss)) of
      None \<Rightarrow> status = 404 \<and> ring = None \<and> b' = b
    | Some s \<Rightarrow> status = 486 \<and> (ring, b') = Fire now (sid s) b \<and> ring \<in> {None, Some (s, now)}
        \<and> (ring = None \<longleftrightarrow> \<not> fst (debounce now (sid s) (lastFire b)))"
proof -
  let ?en = "filter (\<lambda>s. sipExt s \<noteq> []) ss"
  have byh: "streamsByHost srv = fold (\<lambda>s m. m(host s \<mapsto> sid s)) ?en Map.empty"
    using assms(1) by (auto simp: NewSIPServer_def Let_def split: if_splits option.splits)
  show ?thesis
  proof (cases "List.find (\<lambda>s. host s = sourceHost src) (rev ?en)")
    case None
    with assms(4) show ?thesis by (simp add: handleInvite_def byh by_host_lookup)
  next
    case (Some s)
    then have "s \<in> set ss" by (auto dest: find_SomeD)
    then have "bstreams b (sid s) = Some s" unfolding assms(3) by (rule by_id_distinct [OF assms(2)])
    with Some assms(4) show ?thesis
      by (auto simp: handleInvite_def byh by_host_lookup Fire_def split: prod.splits if_splits)
  qed
qed

lemma registration_never_lapses_while_it_succeeds:
  assumes "(r, wait) \<in> set (registerLoop results)"
  shows "15 * second \<le> wait \<and> wait \<le> sipRegisterRefresh
    \<and> (\<forall>n. r = RegGranted n \<longrightarrow> 30 \<le> n \<longrightarrow> n \<le> 9223372036 \<longrightarrow> 2 * wait \<le> n * second)"
proof -
  have small: "wrap64 (n * second) = n * second" if "0 < n" "n \<le> 9223372036" for n
    using that by (intro wrap64_id) auto
  have half: "wrap64 (n * second) sdiv 2 = n * second div 2" if "0 < n" "n \<le> 9223372036" for n
    using that small [OF that] by (simp add: signed_divide_int_def)
  have bounds: "15 * second \<le> refreshInterval n \<and> refreshInterval n \<le> sipRegisterRefresh" for n
    by (auto simp: refreshInterval_def sipRegisterRefresh_def Let_def)
  have lapse: "2 * refreshInterval n \<le> n * second" if "30 \<le> n" "n \<le> 9223372036" for n
    using that half [of n] by (auto simp: refreshInterval_def sipRegisterRefresh_def Let_def)
  have "(\<exists>n. r = RegGranted n \<and> wait = refreshInterval n) \<or> r = RegFailed \<and> wait = retryWait"
    using assms by (induction results rule: registerLoop.induct) (auto split: if_splits)
  then show ?thesis using bounds lapse by (auto simp: retryWait_def sipRegisterRefresh_def)
qed

lemma registration_protocol:
  assumes "registerOnce md5 bytes tag1 tag2 transact srv st w = (r, w')"
  shows "(r \<noteq> None \<longleftrightarrow> fst (handshake {401, 407} (register_send tag1 tag2 transact srv st) (register_answer md5 bytes st) w) \<noteq> None)
    \<and> (\<forall>n. r = Some n \<longrightarrow> 0 \<le> n)
    \<and> (w' = snd (register_send tag1 tag2 transact srv st [] w)
       \<or> (\<exists>reply c. fst (register_send tag1 tag2 transact srv st [] w) = Some reply \<and> rstatus reply \<in> {401, 407}
            \<and> parseDigestChallenge (rchallenge reply) = Some c
            \<and> w' = snd (sip_send transact (build_register srv st tag2
                  (buildDigestResponse md5 bytes ''REGISTER'' (''sip:'' @ host st) (sipExt st) (sipPass st) c))
                (snd (register_send tag1 tag2 transact srv st [] w)))))"
proof -
  have n: "0 \<le> expiresFromResponse x" for x by (auto simp: expiresFromResponse_def split: option.split)
  have a: "(r \<noteq> None \<longleftrightarrow> fst (handshake {401, 407} (register_send tag1 tag2 transact srv st) (register_answer md5 bytes st) w) \<noteq> None)
      \<and> (\<forall>n. r = Some n \<longrightarrow> 0 \<le> n)"
    using assms n by (auto simp: registerOnce_handshake split: prod.splits)
  have "snd (registerOnce md5 bytes tag1 tag2 transact srv st w) = w'" using assms by simp
  with reg.two_requests_at_most [of md5 bytes tag1 tag2 transact srv st w] have
    "w' = snd (register_send tag1 tag2 transact srv st [] w)
     \<or> (\<exists>reply auth. fst (register_send tag1 tag2 transact srv st [] w) = Some reply \<and> rstatus reply \<in> {401, 407}
        \<and> register_answer md5 bytes st (rchallenge reply) = Some auth
        \<and> w' = snd (register_send tag1 tag2 transact srv st auth (snd (register_send tag1 tag2 transact srv st [] w))))"
    by simp
  with a show ?thesis
    by (fastforce simp: register_answer_def answer_challenge_def register_send_def digest_response_nonempty
      split: option.splits prod.splits)
qed

section \<open>Witnesses\<close>

definition sip_stream :: StreamConfig where
  "sip_stream = one_stream\<lparr>host := ''10.0.0.7'', sipExt := ''9901'', sipPass := ''pw''\<rparr>"

definition sip_cfg :: SIPConfig where
  "sip_cfg = \<lparr>cfgBind = [], cfgContactHost = ''10.0.0.2'', cfgContactPort = 0\<rparr>"

definition sip_srv :: sip_server where
  "sip_srv = \<lparr>sip_bind = '':5060'', sip_streams = [sip_stream], streamsByHost = [''10.0.0.7'' \<mapsto> sid sip_stream],
     contactHost = ''10.0.0.2'', contactPort = 5060\<rparr>"

definition sip_bus :: bell_bus where
  "sip_bus = NewBellBus id True [sip_stream] None"

lemma call_rings_the_door_it_came_from_witness:
  "fst (handleInvite 0 ''10.0.0.7:5060'' sip_srv sip_bus) = (486, Some (sip_stream, 0))"
proof -
  have port: "portFromBind '':5060'' = Some 5060" by code_simp
  have src: "sourceHost ''10.0.0.7:5060'' = ''10.0.0.7''" by code_simp
  have new: "NewSIPServer None True sip_cfg [sip_stream] = Inr (Some sip_srv)"
    by (simp add: NewSIPServer_def sip_cfg_def sip_stream_def port sip_srv_def)
  have bs: "bstreams sip_bus = fold (\<lambda>s m. m(sid s \<mapsto> s)) [sip_stream] Map.empty"
    by (simp add: sip_bus_def NewBellBus_def Let_def)
  have first: "fst (debounce 0 (sid sip_stream) (lastFire sip_bus))"
    by (simp add: debounce_def sip_bus_def NewBellBus_def Let_def zero_instant_def time_sub_def bellDebounce_def)
  obtain status ring b' where inv: "handleInvite 0 ''10.0.0.7:5060'' sip_srv sip_bus = ((status, ring), b')"
    by (metis prod.collapse)
  have "List.find (\<lambda>s. host s = sourceHost ''10.0.0.7:5060'') (rev (filter (\<lambda>s. sipExt s \<noteq> []) [sip_stream])) = Some sip_stream"
    unfolding src by (simp add: sip_stream_def)
  with call_rings_the_door_it_came_from [OF new _ bs inv] first inv show ?thesis by auto
qed

lemma registration_never_lapses_while_it_succeeds_witness:
  "2 * refreshInterval 60 \<le> 60 * second"
  using registration_never_lapses_while_it_succeeds
    [of "RegGranted 60" "refreshInterval 60" "[(RegGranted 60, True)]"] by simp

definition silent_stack :: "nat transactor" where
  "silent_stack q w = (if q_authorization q = None
     then (Some [TxResponse \<lparr>scode = 100, www_authenticate = None, proxy_authenticate = None, expires_header = None\<rparr>,
             TxResponse \<lparr>scode = 200, www_authenticate = None, proxy_authenticate = None, expires_header = Some ''60''\<rparr>], Suc w)
     else (None, Suc w))"

lemma registration_protocol_witness:
  "registerOnce (\<lambda>_. []) [] [] [] silent_stack sip_srv sip_stream 0 = (Some 60, 1)
   \<and> fst (handshake {401, 407} (register_send [] [] silent_stack sip_srv sip_stream)
       (register_answer (\<lambda>_. []) [] sip_stream) 0) \<noteq> None"
proof -
  have "parse_int (trim_space ''60'') = Some 60" by code_simp
  then have r: "registerOnce (\<lambda>_. []) [] [] [] silent_stack sip_srv sip_stream 0 = (Some 60, 1)"
    by (simp add: registerOnce_def sip_send_def silent_stack_def build_register_def expiresFromResponse_def)
  from registration_protocol [OF r] r show ?thesis by auto
qed

end
