(* ===== verification/CentsysPackets.thy ===== *)
theory CentsysPackets
  imports GoLib
begin

text \<open>
  \<open>centsys_packets.go\<close>: the packets that drive the gate operator.  Bytes are 8-bit words and the
  phone words 32-bit, as in the code; a phone number is a byte string.
\<close>

definition activationTRG :: "16 word" where
  "activationTRG = 34"

definition centsysBaseKey :: "byte list" where
  "centsysBaseKey = [0x38, 0x98, 0x3f, 0xba, 0x4d, 0xbf, 0xab, 0x9c]"

definition centsysKey :: "byte list \<Rightarrow> byte list" where
  "centsysKey mac4 = map (\<lambda>i. if i < 4 then (centsysBaseKey ! i) XOR (mac4 ! i) else centsysBaseKey ! i) [0..<8]"

definition centsysXOR :: "byte list \<Rightarrow> byte list \<Rightarrow> byte list" where
  "centsysXOR ds key = map (\<lambda>i. (ds ! i) XOR (key ! (i mod length key))) [0..<length ds]"

definition centsysHeader :: "byte \<Rightarrow> byte list" where
  "centsysHeader packetType = [1, 1, packetType, 0]"

text \<open>\<open>binary.LittleEndian\<close> on 16 and 32-bit values.\<close>

definition le16 :: "16 word \<Rightarrow> byte list" where
  "le16 v = [ucast v, ucast (drop_bit 8 v)]"

definition le32 :: "32 word \<Rightarrow> byte list" where
  "le32 v = [ucast v, ucast (drop_bit 8 v), ucast (drop_bit 16 v), ucast (drop_bit 24 v)]"

definition read_le16 :: "byte list \<Rightarrow> 16 word" where
  "read_le16 bs = ucast (bs ! 0) OR push_bit 8 (ucast (bs ! 1))"

section \<open>The phone number\<close>

definition phone_digit :: "string \<Rightarrow> nat \<Rightarrow> 32 word" where
  "phone_digit s idx = ucast (of_nat (ord (s ! idx)) - of_nat (ord CHR ''0'') :: byte)"

text \<open>One of the three loops: the digits \<open>lo\<close> to \<open>lo + 7\<close> counted from the right.\<close>

definition phone_word :: "string \<Rightarrow> nat \<Rightarrow> 32 word" where
  "phone_word s lo = fold (\<lambda>i acc. if i < length s
     then acc OR push_bit (((lo + 7 - i) * 4) mod 32) (phone_digit s (length s - i - 1)) else acc) [lo..<lo + 8] 0"

definition phoneParts :: "string \<Rightarrow> 32 word \<times> 32 word \<times> 32 word" where
  "phoneParts phone = (let s = filter (\<lambda>c. c \<noteq> CHR ''+'') phone
     in (phone_word s 16, phone_word s 8, phone_word s 0))"

section \<open>Commands\<close>

definition buildCmd01 :: "string \<Rightarrow> byte list \<Rightarrow> byte list" where
  "buildCmd01 phone mac4 = (let (lo, mid, up) = phoneParts phone
     in centsysHeader 1 @ centsysXOR (le32 lo @ le32 mid @ le32 up) (centsysKey mac4))"

text \<open>The local time of day and date; \<open>c_weekday\<close> counts from Sunday, \<open>c_month\<close> from January = 1.\<close>

record civil_time =
  c_second :: int
  c_minute :: int
  c_hour :: int
  c_weekday :: int
  c_day :: int
  c_month :: int
  c_year :: int

definition buildCmd05 :: "byte list \<Rightarrow> civil_time \<Rightarrow> byte list" where
  "buildCmd05 mac4 t = centsysHeader 5 @ centsysXOR
     [word_of_int (c_second t), word_of_int (c_minute t), word_of_int (c_hour t),
      word_of_int ((c_weekday t + 6) mod 7), word_of_int (c_day t), word_of_int (c_month t - 1),
      word_of_int (c_year t - 2000), 0] (centsysKey mac4)"

definition buildCmd03Prefix :: "byte list \<Rightarrow> byte \<Rightarrow> byte list" where
  "buildCmd03Prefix mac4 configVersion =
     centsysHeader 3 @ centsysXOR ([configVersion, 0] @ le16 activationTRG) (centsysKey mac4)"

definition activationOK :: byte where "activationOK = 1"
definition activationConfigurationMismatch :: byte where "activationConfigurationMismatch = 7"

definition decodeCmd04 :: "byte list \<Rightarrow> byte list \<Rightarrow> (byte \<times> byte) option" where
  "decodeCmd04 mac4 data = (if length data < 6 then None
     else (let body = centsysXOR (drop 4 data) (centsysKey mac4) in Some (body ! 1, body ! 0)))"

section \<open>Telemetry\<close>

datatype gateStatus = gateOpen | gateClosed | gateOpening | gateClosing | gateStopped | gateUnknown

text \<open>A map entry that is missing reads as the zero value, which is \<open>gateOpen\<close>.\<close>

definition sliderStatus :: "byte \<Rightarrow> gateStatus" where
  "sliderStatus b = (case map_of [(0, gateOpen), (1, gateClosed), (2, gateStopped), (3, gateStopped),
     (4, gateOpening), (5, gateClosing)] b of None \<Rightarrow> gateOpen | Some s \<Rightarrow> s)"

definition garageStatus :: "byte \<Rightarrow> gateStatus" where
  "garageStatus b = (case map_of [(1, gateOpen), (2, gateOpening), (3, gateClosed), (4, gateClosing),
     (5, gateStopped)] b of None \<Rightarrow> gateOpen | Some s \<Rightarrow> s)"

definition decodeOverview :: "byte list \<Rightarrow> gateStatus" where
  "decodeOverview data = (if length data < 4 then gateUnknown
     else (let body = drop 4 data in
       if length body = 24 then garageStatus (body ! 12)
       else if length body \<ge> 36 then sliderStatus (body ! 22)
       else gateUnknown))"

section \<open>Lemmas\<close>

lemma length_centsysKey [simp]: "length (centsysKey mac4) = 8"
  by (simp add: centsysKey_def)

lemma length_centsysXOR [simp]: "length (centsysXOR ds key) = length ds"
  by (simp add: centsysXOR_def)

lemma centsysXOR_involution [simp]: "centsysXOR (centsysXOR ds key) key = ds"
  by (rule nth_equalityI) (simp_all add: centsysXOR_def)

lemma read_le16_le16 [simp]: "read_le16 (le16 v) = v"
  unfolding read_le16_def le16_def
  by (rule bit_word_eqI) (auto simp: bit_simps)

text \<open>The activation id a command carries, as the gate reads it.\<close>

definition activation_id :: "byte list \<Rightarrow> byte list \<Rightarrow> 16 word" where
  "activation_id mac4 packet = read_le16 (drop 2 (centsysXOR (take 4 (drop 4 packet)) (centsysKey mac4)))"

lemma activation_id_Cmd03:
  "activation_id mac4 (buildCmd03Prefix mac4 cv @ challenge) = activationTRG"
proof -
  let ?b = "[cv, 0] @ le16 activationTRG"
  have len: "length (centsysXOR ?b (centsysKey mac4)) = 4" by (simp add: le16_def)
  have "take 4 (drop 4 (buildCmd03Prefix mac4 cv @ challenge)) = centsysXOR ?b (centsysKey mac4)"
    using len by (simp add: buildCmd03Prefix_def centsysHeader_def del: length_centsysXOR)
  then show ?thesis by (simp add: activation_id_def)
qed

text \<open>One nibble of a phone word.\<close>

definition nibble :: "32 word \<Rightarrow> nat \<Rightarrow> 32 word" where
  "nibble w p = take_bit 4 (drop_bit (4 * p) w)"

lemma bit_or_fold:
  "bit (fold (\<lambda>i acc. if P i then acc OR push_bit (sh i) (g i) else acc) is a) b
     \<longleftrightarrow> bit (a :: 32 word) b \<or> (\<exists>i \<in> set is. P i \<and> bit (push_bit (sh i) (g i)) b)"
  by (induction "is" arbitrary: a) (auto simp: bit_or_iff)

lemma small_word_bit:
  assumes "(w :: 32 word) < 16" "bit w m"
  shows "m < 4"
proof -
  have "unat w < 2 ^ 4" using assms(1) by (simp add: word_less_nat_alt)
  then have "take_bit 4 (unat w) = unat w" by (rule take_bit_nat_eq_self)
  moreover have "bit (unat w) m" using assms(2) by (simp add: bit_unsigned_iff)
  ultimately show ?thesis by (metis bit_take_bit_iff)
qed

lemma phone_digit_val:
  assumes "is_digit (s ! k)"
  shows "phone_digit s k = of_nat (digit_val (s ! k))" "phone_digit s k < 16"
proof -
  have d: "48 \<le> ord (s ! k)" "ord (s ! k) \<le> 57" using assms by (auto simp: is_digit_def)
  have "of_nat (ord (s ! k)) - of_nat (ord CHR ''0'') = (of_nat (digit_val (s ! k)) :: byte)"
    using d(1) by (simp add: digit_val_def of_nat_diff)
  moreover have "digit_val (s ! k) < 10" using d by (simp add: digit_val_def)
  ultimately show "phone_digit s k = of_nat (digit_val (s ! k))"
    by (simp add: phone_digit_def unsigned_of_nat take_bit_nat_eq_self)
  with \<open>digit_val (s ! k) < 10\<close> show "phone_digit s k < 16"
    by (simp add: word_less_nat_alt unsigned_of_nat take_bit_nat_eq_self)
qed

lemma phone_word_nibble:
  assumes s: "list_all is_digit s" and i: "lo \<le> i" "i < lo + 8"
  shows "nibble (phone_word s lo) (lo + 7 - i) = (if i < length s then phone_digit s (length s - i - 1) else 0)"
proof (rule bit_word_eqI)
  fix m assume "m < LENGTH(32)"
  have small: "phone_digit s (length s - j - 1) < 16" if "j < length s" for j
    using s that by (intro phone_digit_val) (simp add: list_all_length)
  have "bit (nibble (phone_word s lo) (lo + 7 - i)) m
      \<longleftrightarrow> m < 4 \<and> (\<exists>j \<in> {lo..<lo + 8}. j < length s
            \<and> bit (push_bit ((lo + 7 - j) * 4 mod 32) (phone_digit s (length s - j - 1))) (4 * (lo + 7 - i) + m))"
    by (auto simp: nibble_def phone_word_def bit_take_bit_iff bit_drop_bit_eq bit_or_fold)
  also have "\<dots> \<longleftrightarrow> m < 4 \<and> i < length s \<and> bit (phone_digit s (length s - i - 1)) m"
  proof -
    have "j = i \<and> bit (phone_digit s (length s - i - 1)) m"
      if m4: "m < 4" and j: "lo \<le> j" "j < lo + 8" "j < length s"
        "bit (push_bit ((lo + 7 - j) * 4 mod 32) (phone_digit s (length s - j - 1))) (4 * (lo + 7 - i) + m)" for j
    proof -
      have sh: "(lo + 7 - j) * 4 mod 32 = (lo + 7 - j) * 4" using j by simp
      have le: "(lo + 7 - j) * 4 \<le> 4 * (lo + 7 - i) + m"
        and bt: "bit (phone_digit s (length s - j - 1)) (4 * (lo + 7 - i) + m - (lo + 7 - j) * 4)"
        using j(4) by (auto simp: sh bit_push_bit_iff)
      have "4 * (lo + 7 - i) + m - (lo + 7 - j) * 4 < 4" by (rule small_word_bit [OF small [OF j(3)] bt])
      with le m4 i j have "j = i" by linarith
      with bt show ?thesis by simp
    qed
    moreover have "bit (push_bit ((lo + 7 - i) * 4 mod 32) (phone_digit s (length s - i - 1))) (4 * (lo + 7 - i) + m)"
      if "m < 4" "bit (phone_digit s (length s - i - 1)) m"
      using that i by (simp add: bit_push_bit_iff)
    ultimately show ?thesis using i by (metis atLeastLessThan_iff)
  qed
  also have "\<dots> \<longleftrightarrow> bit (if i < length s then phone_digit s (length s - i - 1) else 0) m"
    using small_word_bit [OF small] by auto
  finally show "bit (nibble (phone_word s lo) (lo + 7 - i)) m
      \<longleftrightarrow> bit (if i < length s then phone_digit s (length s - i - 1) else 0) m" .
qed

section \<open>Properties\<close>

lemma phone_number_is_packed_digit_by_digit:
  assumes "filter (\<lambda>c. c \<noteq> CHR ''+'') phone = s" "list_all is_digit s" "phoneParts phone = (lower, mid, upper)"
    and "i < 24"
  shows "nibble ([upper, mid, lower] ! (i div 8)) (7 - i mod 8)
    = (if i < length s then of_nat (digit_val (s ! (length s - i - 1))) else 0)"
proof -
  have w: "[upper, mid, lower] ! (i div 8) = phone_word s (8 * (i div 8))"
  proof -
    consider "i div 8 = 0" | "i div 8 = 1" | "i div 8 = 2" using assms(4) by linarith
    then show ?thesis using assms(1,3) by cases (simp_all add: phoneParts_def)
  qed
  have "7 - i mod 8 = 8 * (i div 8) + 7 - i" by (simp add: minus_mult_div_eq_mod [symmetric])
  then have "nibble ([upper, mid, lower] ! (i div 8)) (7 - i mod 8)
      = (if i < length s then phone_digit s (length s - i - 1) else 0)"
    unfolding w by (simp only:) (rule phone_word_nibble [OF assms(2)]; linarith)
  moreover have "phone_digit s (length s - i - 1) = of_nat (digit_val (s ! (length s - i - 1)))" if "i < length s"
    using that assms(2) by (intro phone_digit_val) (simp add: list_all_length)
  ultimately show ?thesis by simp
qed

text \<open>
  The decoder's promise for a frame it cannot place holds for its length, but not for its status
  byte: an unlisted one reads as the first status, an open gate.
\<close>

lemma overview_status_of_unlisted_byte:
  "(decodeOverview data = gateUnknown \<longleftrightarrow> length data < 28 \<or> (28 < length data \<and> length data < 40))
   \<and> (length data = 28 \<longrightarrow> data ! 16 \<notin> {1, 2, 3, 4, 5} \<longrightarrow> decodeOverview data = gateOpen)
   \<and> (40 \<le> length data \<longrightarrow> data ! 26 \<notin> {0, 1, 2, 3, 4, 5} \<longrightarrow> decodeOverview data = gateOpen)"
  by (auto simp: decodeOverview_def garageStatus_def sliderStatus_def Let_def)

lemma overview_status_of_unlisted_byte_witness:
  "decodeOverview (replicate 28 9) = gateOpen"
  using overview_status_of_unlisted_byte [of "replicate 28 9"] by simp

lemma phone_number_is_packed_digit_by_digit_witness:
  "nibble (fst (snd (phoneParts ''+9701234567890''))) 7 = 2"
proof -
  let ?ph = "''+9701234567890''"
  obtain lo mid up where ph: "phoneParts ?ph = (lo, mid, up)" by (metis prod_cases3)
  have "list_all is_digit (filter (\<lambda>c. c \<noteq> CHR ''+'') ?ph)" by code_simp
  from phone_number_is_packed_digit_by_digit [OF refl this ph, of 8] have "nibble mid 7 = 2"
    by (simp add: digit_val_def)
  with ph show ?thesis by simp
qed

end
