(* ===== verification/Centsys.thy ===== *)
theory Centsys
  imports CentsysPackets GoCodec
begin

text \<open>
  \<open>centsys.go\<close>: the gate controller.  The MQTT broker is the argument \<open>broker\<close>: what publishing a
  message does (whether it succeeds, and what arrives before the next wait).  The gateway API, its
  JSON and PKCS#12 decoding, and X.509 are arguments too.
\<close>

section \<open>State\<close>

record CentsysConfig =
  cfgPhone :: string
  cfgName :: string
  cfgSession :: string

definition sessionPath :: "CentsysConfig \<Rightarrow> string" where
  "sessionPath c = (if cfgSession c \<noteq> [] then cfgSession c else ''/var/lib/camonitor/centsys.json'')"

definition gate_name :: "CentsysConfig \<Rightarrow> string" where
  "gate_name c = (if cfgName c \<noteq> [] then cfgName c else ''Gate'')"

record centsysSession =
  sePhone :: string
  seSerial :: string
  seMAC :: string
  seCert :: string
  seKey :: string

record centsysCreds =
  crPhone :: string
  crSerial :: string
  crMac4 :: "byte list"
  crCert :: "string \<times> string"

text \<open>\<open>updates\<close> is what the \<open>onUpdate\<close> callback was given, in order.\<close>

record centsys_ctl =
  ccfg :: CentsysConfig
  creds :: "centsysCreds option"
  reload_pending :: bool
  gstatus :: gateStatus
  listening :: bool
  updates :: "gateStatus list"

section \<open>The session file\<close>

definition hex_value :: "char \<Rightarrow> nat option" where
  "hex_value c = (if is_digit c then Some (ord c - 48)
     else if 97 \<le> ord c \<and> ord c \<le> 102 then Some (ord c - 87)
     else if 65 \<le> ord c \<and> ord c \<le> 70 then Some (ord c - 55) else None)"

text \<open>
  \<open>fmt.Sscanf\<close> of two bytes with \<open>%02x\<close>: white space is skipped, a sign is accepted, and the second
  byte is left unread when it is no hexadecimal digit.
\<close>

definition scan_pair :: "char \<Rightarrow> char \<Rightarrow> byte option" where
  "scan_pair a b = (case hex_value a of
      Some x \<Rightarrow> Some (case hex_value b of Some y \<Rightarrow> of_nat (16 * x + y) | None \<Rightarrow> of_nat x)
    | None \<Rightarrow> (case hex_value b of
        None \<Rightarrow> None
      | Some y \<Rightarrow> if a = CHR ''-'' then Some (- of_nat y)
          else if a = CHR ''+'' \<or> ord a \<in> {9, 11, 12, 13} then Some (of_nat y) else None))"

fun scan_pairs :: "string \<Rightarrow> byte list option" where
  "scan_pairs (a # b # r) = (case scan_pair a b of
      None \<Rightarrow> None | Some v \<Rightarrow> map_option (Cons v) (scan_pairs r))"
| "scan_pairs _ = Some []"

definition parseMAC4 :: "string \<Rightarrow> byte list option" where
  "parseMAC4 mac = (case scan_pairs (filter (\<lambda>c. c \<notin> set '':- '') mac) of
      None \<Rightarrow> None | Some b \<Rightarrow> if length b < 4 then None else Some (take 4 b))"

text \<open>
  \<open>load\<close>: the file as the JSON decoder gives it (\<open>None\<close>: unreadable or malformed), and whether the
  key pair parses.
\<close>

definition load :: "centsysSession option \<Rightarrow> (string \<Rightarrow> string \<Rightarrow> bool) \<Rightarrow> centsys_ctl \<Rightarrow> bool \<times> centsys_ctl" where
  "load file pair_ok c = (case file of
      None \<Rightarrow> (False, c)
    | Some s \<Rightarrow>
        if \<not> pair_ok (seCert s) (seKey s) then (False, c)
        else (case parseMAC4 (seMAC s) of
            None \<Rightarrow> (False, c)
          | Some m \<Rightarrow> (True, c\<lparr>creds := Some \<lparr>crPhone = sePhone s, crSerial = seSerial s, crMac4 = m,
              crCert = (seCert s, seKey s)\<rparr>\<rparr>)))"

definition NewCentsysController ::
  "centsysSession option \<Rightarrow> (string \<Rightarrow> string \<Rightarrow> bool) \<Rightarrow> CentsysConfig \<Rightarrow> centsys_ctl" where
  "NewCentsysController file pair_ok cfg = snd (load file pair_ok
     \<lparr>ccfg = cfg, creds = None, reload_pending = False, gstatus = gateUnknown, listening = False, updates = []\<rparr>)"

definition Reload :: "centsysSession option \<Rightarrow> (string \<Rightarrow> string \<Rightarrow> bool) \<Rightarrow> centsys_ctl \<Rightarrow> bool \<times> centsys_ctl" where
  "Reload file pair_ok c = (case load file pair_ok c of
      (False, c') \<Rightarrow> (False, c') | (True, c') \<Rightarrow> (True, c'\<lparr>reload_pending := True\<rparr>))"

section \<open>Status\<close>

definition OnUpdate :: "centsys_ctl \<Rightarrow> centsys_ctl" where
  "OnUpdate c = c\<lparr>listening := True\<rparr>"

definition CurrentStatus :: "centsys_ctl \<Rightarrow> gateStatus" where
  "CurrentStatus c = gstatus c"

definition setStatus :: "gateStatus \<Rightarrow> centsys_ctl \<Rightarrow> centsys_ctl" where
  "setStatus s c = (if s = gateUnknown then c
     else (let changed = (gstatus c \<noteq> s); c = c\<lparr>gstatus := s\<rparr>
       in if changed \<and> listening c then c\<lparr>updates := updates c @ [s]\<rparr> else c))"

text \<open>What \<open>follow\<close> does with a message of the broker.\<close>

definition follow_message :: "string \<Rightarrow> string \<Rightarrow> byte list \<Rightarrow> centsys_ctl \<Rightarrow> centsys_ctl" where
  "follow_message serial topic data c =
     (if topic = serial @ ''/deviceOverview'' then setStatus (decodeOverview data) c else c)"

text \<open>
  \<open>follow\<close> once connected, over what its \<open>select\<close> picks: the number of wake-ups published and
  whether it ended with an error.
\<close>

datatype follow_pick = FollowDone | FollowLost | FollowTick

fun follow_loop :: "follow_pick list \<Rightarrow> nat \<times> bool" where
  "follow_loop [] = (0, False)"
| "follow_loop (FollowDone # ps) = (0, False)"
| "follow_loop (FollowLost # ps) = (0, True)"
| "follow_loop (FollowTick # ps) = (case follow_loop ps of (n, e) \<Rightarrow> (Suc n, e))"

definition follow :: "bool \<Rightarrow> bool \<Rightarrow> follow_pick list \<Rightarrow> nat \<times> bool" where
  "follow connected subscribed ps = (if \<not> connected \<or> \<not> subscribed then (0, True)
     else (case follow_loop ps of (n, e) \<Rightarrow> (Suc n, e)))"

text \<open>
  \<open>Run\<close>: the waits after failed listeners.  An iteration waits for a login (and whether the context
  ended that wait), or follows the gate (whether it failed, and whether the context was done then or
  during the wait).
\<close>

datatype run_round = WaitLogin bool | Followed bool bool bool

fun Run :: "duration \<Rightarrow> run_round list \<Rightarrow> duration list" where
  "Run backoff [] = []"
| "Run backoff (WaitLogin stop # rs) = (if stop then [] else Run backoff rs)"
| "Run backoff (Followed failed ctx_done stop # rs) =
     (if failed \<and> \<not> ctx_done
      then backoff # (if stop then [] else Run (if backoff < 2 * minute then backoff * 2 else backoff) rs)
      else if ctx_done then [] else Run (5 * second) rs)"

section \<open>Opening the gate\<close>

text \<open>
  \<open>verifyBrokerCert\<close>: \<open>parse\<close> is the DER parser and \<open>verify roots inter leaf\<close> the verifier without a
  host name.
\<close>

definition verifyBrokerCert ::
  "('der \<Rightarrow> 'cert option) \<Rightarrow> ('pool \<Rightarrow> 'cert list \<Rightarrow> 'cert \<Rightarrow> bool) \<Rightarrow> 'pool \<Rightarrow> 'der list \<Rightarrow> bool" where
  "verifyBrokerCert parse verify caPool rawCerts =
    (if rawCerts = [] then False
     else (let certs = map parse rawCerts in
       if None \<in> set certs then False
       else verify caPool (map the (tl certs)) (the (hd certs))))"

definition centsysClientID :: "string \<Rightarrow> string \<Rightarrow> string" where
  "centsysClientID phone sfx = ''mcr:'' @ trim_prefix ''+'' phone @ sfx"

datatype open_error = NotSignedIn | BrokerFailed | RequestFailed | GateOffline | Cmd01Failed | NoChallenge
  | Cmd05Failed | Cmd03Failed | NoActivation | ShortActivation | Rejected byte | KeptRejecting

text \<open>
  The broker session of one \<open>Open\<close>: the two bounded channels the receive callback fills, the messages
  published, and the broker's state.
\<close>

record 'w open_io =
  reqResp :: "byte list list"
  trigResp :: "byte list list"
  sent :: "(string \<times> byte list) list"
  bworld :: 'w

type_synonym 'w broker = "string \<Rightarrow> byte list \<Rightarrow> 'w \<Rightarrow> (bool \<times> (string \<times> byte list) list) \<times> 'w"

definition on_message :: "string \<Rightarrow> string \<times> byte list \<Rightarrow> 'w open_io \<Rightarrow> 'w open_io" where
  "on_message serial m io = (case m of (topic, data) \<Rightarrow>
     if topic = serial @ ''/connectionRequestResponse''
     then (if length (reqResp io) < 1 then io\<lparr>reqResp := reqResp io @ [data]\<rparr> else io)
     else if topic = serial @ ''/userRemoteTriggerResponse''
     then (if length (trigResp io) < 4 then io\<lparr>trigResp := trigResp io @ [data]\<rparr> else io)
     else io)"

definition pub :: "'w broker \<Rightarrow> string \<Rightarrow> string \<Rightarrow> byte list \<Rightarrow> 'w open_io \<Rightarrow> bool \<times> 'w open_io" where
  "pub broker serial topic data io = (case broker topic data (bworld io) of
      ((ok, ms), w) \<Rightarrow> (ok, fold (on_message serial) ms (io\<lparr>sent := sent io @ [(topic, data)], bworld := w\<rparr>)))"

definition recv_req :: "'w open_io \<Rightarrow> byte list option \<times> 'w open_io" where
  "recv_req io = (case reqResp io of [] \<Rightarrow> (None, io) | m # ms \<Rightarrow> (Some m, io\<lparr>reqResp := ms\<rparr>))"

definition recv_trig :: "'w open_io \<Rightarrow> byte list option \<times> 'w open_io" where
  "recv_trig io = (case trigResp io of [] \<Rightarrow> (None, io) | m # ms \<Rightarrow> (Some m, io\<lparr>trigResp := ms\<rparr>))"

text \<open>The activation loop: \<open>n\<close> tries are left.\<close>

fun activate :: "'w broker \<Rightarrow> centsysCreds \<Rightarrow> byte list \<Rightarrow> nat \<Rightarrow> byte \<Rightarrow> 'w open_io \<Rightarrow> open_error option \<times> 'w open_io" where
  "activate broker cr challenge 0 cv io = (Some KeptRejecting, io)"
| "activate broker cr challenge (Suc n) cv io =
    (case pub broker (crSerial cr) (crSerial cr @ ''/userRemoteTrigger'')
            (buildCmd03Prefix (crMac4 cr) cv @ challenge) io of
       (False, io) \<Rightarrow> (Some Cmd03Failed, io)
     | (True, io) \<Rightarrow> (case recv_trig io of
         (None, io) \<Rightarrow> (Some NoActivation, io)
       | (Some cmd04, io) \<Rightarrow> (case decodeCmd04 (crMac4 cr) cmd04 of
           None \<Rightarrow> (Some ShortActivation, io)
         | Some (code, gateCV) \<Rightarrow>
             if code \<noteq> activationConfigurationMismatch \<or> gateCV = cv
             then (if code = activationOK then None else Some (Rejected code), io)
             else activate broker cr challenge n gateCV io)))"

text \<open>The exchange between connecting and the deferred disconnect.\<close>

definition open_exchange ::
  "'w broker \<Rightarrow> civil_time \<Rightarrow> centsysCreds \<Rightarrow> 'w open_io \<Rightarrow> open_error option \<times> 'w open_io" where
  "open_exchange broker t cr io =
    (let trig = crSerial cr @ ''/userRemoteTrigger'' in
     case pub broker (crSerial cr) (crSerial cr @ ''/connectionRequest'') [] io of
       (False, io) \<Rightarrow> (Some RequestFailed, io)
     | (True, io) \<Rightarrow> (case recv_req io of
         (None, io) \<Rightarrow> (Some GateOffline, io)
       | (Some _, io) \<Rightarrow> (case pub broker (crSerial cr) trig (buildCmd01 (crPhone cr) (crMac4 cr)) io of
           (False, io) \<Rightarrow> (Some Cmd01Failed, io)
         | (True, io) \<Rightarrow> (case recv_trig io of
             (None, io) \<Rightarrow> (Some NoChallenge, io)
           | (Some cmd02, io) \<Rightarrow>
               if length cmd02 < 4 then (Some NoChallenge, io)
               else (case pub broker (crSerial cr) trig (buildCmd05 (crMac4 cr) t) io of
                   (False, io) \<Rightarrow> (Some Cmd05Failed, io)
                 | (True, io) \<Rightarrow> (case recv_trig io of
                     (_, io) \<Rightarrow> activate broker cr (drop (length cmd02 - 4) cmd02) 2 0 io))))))"

definition Open_gate ::
  "'w broker \<Rightarrow> (centsysCreds \<Rightarrow> string \<Rightarrow> bool) \<Rightarrow> civil_time \<Rightarrow> centsys_ctl \<Rightarrow> 'w \<Rightarrow> open_error option \<times> 'w open_io" where
  "Open_gate broker connected t c w =
    (let io = \<lparr>reqResp = [], trigResp = [], sent = [], bworld = w\<rparr> in
     case creds c of
       None \<Rightarrow> (Some NotSignedIn, io)
     | Some cr \<Rightarrow>
         if \<not> connected cr (centsysClientID (crPhone cr) '':cam'') then (Some BrokerFailed, io)
         else (case open_exchange broker t cr io of
             (r, io) \<Rightarrow> (r, snd (pub broker (crSerial cr) (crSerial cr @ ''/disconnect'') [] io))))"

section \<open>Signing in\<close>

text \<open>
  The gateway API: a request and its bearer, and the decoded reply (\<open>None\<close>: no 200).  A device list
  carries whether the decoder accepted it, a certificate its members in the order Go's map iterates.
\<close>

datatype api_request = SendOtp string | ValidateOtp string string | DevicesByRemote string | DevicesByAdmin string
  | GetCertificate

datatype api_reply = Accepted | SessionToken "string option" | Devices bool "(string \<times> string) list"
  | Certificate "(string \<times> string) list option"

datatype bearer = centsysServiceJWT | Bearer string

type_synonym 'w gateway = "api_request \<Rightarrow> bearer \<Rightarrow> 'w \<Rightarrow> api_reply option \<times> 'w"

datatype login_error = NoPhone | SendFailed | ValidateFailed | OtpRejected | NoOperators | MissingSerial
  | CertificateFailed | BadCertificate | BadMAC | WriteFailed

text \<open>
  \<open>centsysPost\<close>: one request through the HTTP client, which gives a status and a body, or fails.  The
  reply's body is the result on a 200 only.
\<close>

record post_request =
  pq_url :: string
  pq_headers :: "(string \<times> string) list"
  pq_body :: "string option"

definition centsysUserAgent :: string where
  "centsysUserAgent = ''MyCentsysRemoteMaui/2.1.0.35 CFNetwork/3860.600.12 Darwin/25.5.0''"

definition centsysPost ::
  "(post_request \<Rightarrow> 'w \<Rightarrow> (nat \<times> string) option \<times> 'w) \<Rightarrow> string \<Rightarrow> string \<Rightarrow> string option \<Rightarrow> 'w \<Rightarrow> string option \<times> 'w" where
  "centsysPost client url token body w =
    (let q = \<lparr>pq_url = url,
       pq_headers = [(''Authorization'', ''Bearer '' @ token), (''User-Agent'', centsysUserAgent), (''Accept'', ''application/json'')]
         @ (if body = None then [] else [(''Content-Type'', ''application/json'')]),
       pq_body = body\<rparr>
     in case client q w of
          (None, w') \<Rightarrow> (None, w')
        | (Some (st, data), w') \<Rightarrow> if st \<noteq> 200 then (None, w') else (Some data, w'))"

definition centsysGatewayZA :: string where
  "centsysGatewayZA = ''https://centsys.southafricanorth.cloudapp.azure.com:4445''"

datatype json_value = JString string | JNumber int

text \<open>What is posted for each request: its path and the members of its body.\<close>

fun api_post :: "api_request \<Rightarrow> string \<times> (string \<times> json_value) list option" where
  "api_post (SendOtp phone) = (''/SendOtp'', Some [(''MobileNumber'', JString phone), (''OtpPlatform'', JNumber 1),
     (''ThreeLetterIsoLanguageName'', JString ''eng'')])"
| "api_post (ValidateOtp phone otp) = (''/ValidateOtp'', Some [(''MobileNumber'', JString phone), (''Otp'', JString otp)])"
| "api_post (DevicesByRemote phone) = (''/GetDevicesByRemoteUserNumber?remoteUserNumber='' @ phone, None)"
| "api_post (DevicesByAdmin phone) = (''/GetDevicesByAdminNumber?adminNumber='' @ phone, None)"
| "api_post GetCertificate = (''/GetCertificate'', Some [])"

text \<open>
  The gateway over such a client; \<open>encode\<close> and \<open>decode\<close> are \<open>encoding/json\<close>, \<open>jwt\<close> the service token.
\<close>

definition gateway_over ::
  "(post_request \<Rightarrow> 'w \<Rightarrow> (nat \<times> string) option \<times> 'w) \<Rightarrow> ((string \<times> json_value) list \<Rightarrow> string)
     \<Rightarrow> (api_request \<Rightarrow> string \<Rightarrow> api_reply) \<Rightarrow> string \<Rightarrow> 'w gateway" where
  "gateway_over client encode decode jwt q b w = (case api_post q of (path, ms) \<Rightarrow>
     (case centsysPost client (centsysGatewayZA @ path) (case b of centsysServiceJWT \<Rightarrow> jwt | Bearer t \<Rightarrow> t)
         (map_option encode ms) w of
        (data, w') \<Rightarrow> (map_option (decode q) data, w')))"

lemma centsysPost_200:
  "centsysPost client url token body w = (Some data, w') \<Longrightarrow>
   client \<lparr>pq_url = url, pq_headers = [(''Authorization'', ''Bearer '' @ token), (''User-Agent'', centsysUserAgent),
       (''Accept'', ''application/json'')] @ (if body = None then [] else [(''Content-Type'', ''application/json'')]),
     pq_body = body\<rparr> w = (Some (200, data), w')"
  by (auto simp: centsysPost_def Let_def split: prod.splits option.splits if_splits)

text \<open>An answer of the gateway was a 200 to a request that carried the bearer.\<close>

lemma gateway_answers_on_200:
  assumes "gateway_over client encode decode jwt q b w = (Some r, w')"
  shows "\<exists>pq data. client pq w = (Some (200, data), w') \<and> r = decode q data
     \<and> pq_url pq = centsysGatewayZA @ fst (api_post q)
     \<and> hd (pq_headers pq) = (''Authorization'', ''Bearer '' @ (case b of centsysServiceJWT \<Rightarrow> jwt | Bearer t \<Rightarrow> t))"
proof -
  let ?post = "centsysPost client (centsysGatewayZA @ fst (api_post q)) (case b of centsysServiceJWT \<Rightarrow> jwt | Bearer t \<Rightarrow> t)
      (map_option encode (snd (api_post q))) w"
  obtain data where "?post = (Some data, w')" "r = decode q data"
    using assms by (cases ?post) (auto simp: gateway_over_def case_prod_unfold)
  from centsysPost_200 [OF this(1)] this(2) show ?thesis by (intro exI conjI) (assumption | simp)+
qed

definition pick_member :: "(string \<times> string) list \<Rightarrow> string list \<Rightarrow> string" where
  "pick_member raw names = (case List.find (\<lambda>(k, _). \<exists>n \<in> set names. equal_fold k n) raw of
      None \<Rightarrow> [] | Some (_, v) \<Rightarrow> v)"

text \<open>\<open>pfx\<close> decodes a PKCS#12 blob with its password into the PEM certificate and key.\<close>

definition centsysPFXToPEM ::
  "(string \<Rightarrow> string \<Rightarrow> (string \<times> string) option) \<Rightarrow> (string \<times> string) list option \<Rightarrow> (string \<times> string) option" where
  "centsysPFXToPEM pfx body = (case body of
      None \<Rightarrow> None
    | Some raw \<Rightarrow>
        (let pfxB64 = pick_member raw [''certificatePfxBase64'', ''pfxBase64''];
             pw = pick_member raw [''certificatePassword'', ''password''] in
         if pfxB64 = [] then None
         else (case std_decode pfxB64 of None \<Rightarrow> None | Some blob \<Rightarrow> pfx blob pw)))"

definition centsysSendOTP :: "'w gateway \<Rightarrow> CentsysConfig \<Rightarrow> 'w \<Rightarrow> login_error option \<times> 'w" where
  "centsysSendOTP api cfg w = (if cfgPhone cfg = [] then (Some NoPhone, w)
     else (case api (SendOtp (cfgPhone cfg)) centsysServiceJWT w of
         (None, w') \<Rightarrow> (Some SendFailed, w') | (Some _, w') \<Rightarrow> (None, w')))"

text \<open>
  The listing loop.  \<open>Devices ok ds\<close> is a reply whose decoding fills the slice with \<open>ds\<close> and says whether
  it met no error; any other reply, one that is no JSON included, leaves the slice as it was.
\<close>

fun list_devices :: "'w gateway \<Rightarrow> bearer \<Rightarrow> api_request list \<Rightarrow> (string \<times> string) list \<Rightarrow> 'w
    \<Rightarrow> (string \<times> string) list \<times> 'w" where
  "list_devices api token [] devices w = (devices, w)"
| "list_devices api token (l # ls) devices w = (case api l token w of
      (Some (Devices ok ds), w') \<Rightarrow> if ok \<and> ds \<noteq> [] then (ds, w') else list_devices api token ls ds w'
    | (_, w') \<Rightarrow> list_devices api token ls devices w')"

definition centsysCompleteLogin ::
  "'w gateway \<Rightarrow> (string \<Rightarrow> string \<Rightarrow> (string \<times> string) option) \<Rightarrow> bool \<Rightarrow> CentsysConfig \<Rightarrow> string
     \<Rightarrow> centsysSession option \<Rightarrow> 'w \<Rightarrow> (login_error option \<times> centsysSession option) \<times> 'w" where
  "centsysCompleteLogin api pfx write_ok cfg code file w =
    (if cfgPhone cfg = [] then ((Some NoPhone, file), w)
     else (case api (ValidateOtp (cfgPhone cfg) (trim_space code)) centsysServiceJWT w of
         (Some (SessionToken tok), w) \<Rightarrow>
           (if tok = None \<or> tok = Some [] then ((Some OtpRejected, file), w)
            else (case list_devices api (Bearer (the tok)) [DevicesByRemote (query_escape (cfgPhone cfg)),
                      DevicesByAdmin (query_escape (cfgPhone cfg))] [] w of
                ([], w) \<Rightarrow> ((Some NoOperators, file), w)
              | ((serial, mac) # _, w) \<Rightarrow>
                  if serial = [] \<or> mac = [] then ((Some MissingSerial, file), w)
                  else (case api GetCertificate (Bearer (the tok)) w of
                      (Some (Certificate body), w) \<Rightarrow> (case centsysPFXToPEM pfx body of
                          None \<Rightarrow> ((Some BadCertificate, file), w)
                        | Some (cert, key) \<Rightarrow>
                            if parseMAC4 mac = None then ((Some BadMAC, file), w)
                            else if \<not> write_ok then ((Some WriteFailed, file), w)
                            else ((None, Some \<lparr>sePhone = cfgPhone cfg, seSerial = serial, seMAC = mac,
                                     seCert = cert, seKey = key\<rparr>), w))
                    | (_, w) \<Rightarrow> ((Some CertificateFailed, file), w))))
       | (Some _, w) \<Rightarrow> ((Some OtpRejected, file), w)
       | (None, w) \<Rightarrow> ((Some ValidateFailed, file), w)))"

text \<open>\<open>centsysLogin\<close>: the interactive flow; \<open>prompt\<close> is what the user typed.\<close>

definition centsysLogin ::
  "'w gateway \<Rightarrow> (string \<Rightarrow> string \<Rightarrow> (string \<times> string) option) \<Rightarrow> bool \<Rightarrow> CentsysConfig \<Rightarrow> string option
     \<Rightarrow> centsysSession option \<Rightarrow> 'w \<Rightarrow> (bool \<times> centsysSession option) \<times> 'w" where
  "centsysLogin api pfx write_ok cfg prompt file w = (case centsysSendOTP api cfg w of
      (Some _, w) \<Rightarrow> ((False, file), w)
    | (None, w) \<Rightarrow> (case prompt of
        None \<Rightarrow> ((False, file), w)
      | Some code \<Rightarrow> (case centsysCompleteLogin api pfx write_ok cfg code file w of
          ((e, file'), w) \<Rightarrow> ((e = None, file'), w))))"

section \<open>The web login\<close>

definition signedIn :: "centsys_ctl \<Rightarrow> bool" where
  "signedIn c \<longleftrightarrow> creds c \<noteq> None"

definition status_text :: "centsys_ctl \<Rightarrow> string" where
  "status_text c = (if \<not> signedIn c then []
     else (case CurrentStatus c of gateOpen \<Rightarrow> ''open'' | gateClosed \<Rightarrow> ''closed'' | gateOpening \<Rightarrow> ''opening''
         | gateClosing \<Rightarrow> ''closing'' | gateStopped \<Rightarrow> ''stopped'' | gateUnknown \<Rightarrow> []))"

definition HandleStatus :: "centsys_ctl \<Rightarrow> string \<times> bool \<times> string" where
  "HandleStatus c = (cfgPhone (ccfg c), signedIn c, status_text c)"

definition HandleSend :: "'w gateway \<Rightarrow> CentsysConfig \<Rightarrow> 'w \<Rightarrow> nat \<times> 'w" where
  "HandleSend api cfg w = (case centsysSendOTP api cfg w of (Some _, w) \<Rightarrow> (502, w) | (None, w) \<Rightarrow> (200, w))"

text \<open>\<open>body\<close> is the decoded code (\<open>None\<close>: no JSON).  Status, session file, controller, API state.\<close>

definition HandleLogin ::
  "'w gateway \<Rightarrow> (string \<Rightarrow> string \<Rightarrow> (string \<times> string) option) \<Rightarrow> (string \<Rightarrow> string \<Rightarrow> bool) \<Rightarrow> bool
     \<Rightarrow> string option \<Rightarrow> centsysSession option \<Rightarrow> centsys_ctl \<Rightarrow> 'w
     \<Rightarrow> nat \<times> centsysSession option \<times> centsys_ctl \<times> 'w" where
  "HandleLogin api pfx pair_ok write_ok body file c w = (case body of
      None \<Rightarrow> (400, file, c, w)
    | Some code \<Rightarrow>
        if trim_space code = [] then (400, file, c, w)
        else (case centsysCompleteLogin api pfx write_ok (ccfg c) code file w of
            ((Some _, file), w) \<Rightarrow> (502, file, c, w)
          | ((None, file), w) \<Rightarrow> (case Reload file pair_ok c of
              (False, c) \<Rightarrow> (500, file, c, w) | (True, c) \<Rightarrow> (200, file, c, w))))"

section \<open>Lemmas\<close>

lemma pub_sent: "pub broker serial topic data io = (ok, io') \<Longrightarrow> sent io' = sent io @ [(topic, data)]"
proof -
  have "sent (fold (on_message serial) ms io) = sent io" for ms and io :: "'a open_io"
    by (induction ms arbitrary: io) (auto simp: on_message_def split: prod.splits)
  then show "pub broker serial topic data io = (ok, io') \<Longrightarrow> sent io' = sent io @ [(topic, data)]"
    by (auto simp: pub_def split: prod.splits)
qed

lemma recv_sent: "recv_req io = (m, io') \<Longrightarrow> sent io' = sent io" "recv_trig io = (m, io') \<Longrightarrow> sent io' = sent io"
  by (auto simp: recv_req_def recv_trig_def split: list.splits)

lemma activate_sent:
  "activate broker cr ch n cv io = (r, io') \<Longrightarrow>
     \<exists>cvs. sent io' = sent io @ map (\<lambda>v. (crSerial cr @ ''/userRemoteTrigger'', buildCmd03Prefix (crMac4 cr) v @ ch)) cvs
       \<and> length cvs \<le> n \<and> (r = None \<longrightarrow> cvs \<noteq> [])"
proof (induction n arbitrary: cv io)
  case (Suc n)
  obtain ok i1 where p: "pub broker (crSerial cr) (crSerial cr @ ''/userRemoteTrigger'')
      (buildCmd03Prefix (crMac4 cr) cv @ ch) io = (ok, i1)" by fastforce
  note s1 = pub_sent [OF p]
  obtain m i2 where q: "recv_trig i1 = (m, i2)" by fastforce
  note s2 = recv_sent(2) [OF q]
  show ?case
  proof (cases "\<exists>g. activate broker cr ch n g i2 = (r, io')")
    case True
    then obtain g where "activate broker cr ch n g i2 = (r, io')" by blast
    from Suc.IH [OF this] obtain cvs where "sent io' = sent i2
        @ map (\<lambda>v. (crSerial cr @ ''/userRemoteTrigger'', buildCmd03Prefix (crMac4 cr) v @ ch)) cvs" "length cvs \<le> n" by blast
    with s1 s2 show ?thesis by (intro exI [of _ "cv # cvs"]) simp
  next
    case False
    with Suc.prems p q have "io' \<in> {i1, i2}"
      by (auto split: bool.splits option.splits prod.splits if_splits)
    with s1 s2 show ?thesis by (intro exI [of _ "[cv]"]) auto
  qed
qed (auto intro: exI [of _ "[]"])

end
