(* ===== verification/CentsysSpec.thy ===== *)
theory CentsysSpec
  imports Centsys
begin

text \<open>
  What the gate controller promises: what it ever publishes, that a gate which follows the protocol
  is opened exactly once, what HomeKit is told, and what a login changes.
\<close>

section \<open>The trigger\<close>

text \<open>An activation command, as the gate recognises it.\<close>

definition is_trigger :: "string \<Rightarrow> string \<times> byte list \<Rightarrow> bool" where
  "is_trigger serial m \<longleftrightarrow> fst m = serial @ ''/userRemoteTrigger'' \<and> snd m ! 2 = 3"

lemma is_trigger_cases [simp]:
  "\<not> is_trigger serial (serial @ ''/connectionRequest'', p)"
  "\<not> is_trigger serial (serial @ ''/disconnect'', p)"
  "\<not> is_trigger serial (topic, buildCmd01 phone mac4)"
  "\<not> is_trigger serial (topic, buildCmd05 mac4 t)"
  "is_trigger serial (serial @ ''/userRemoteTrigger'', buildCmd03Prefix mac4 v @ ch)"
  by (simp_all add: is_trigger_def buildCmd01_def buildCmd05_def buildCmd03Prefix_def centsysHeader_def
      split: prod.splits)

text \<open>The triggers a session sends are at most two, carry the activation id, and one was sent on success.\<close>

definition triggers_ok :: "centsysCreds \<Rightarrow> open_error option \<Rightarrow> (string \<times> byte list) list \<Rightarrow> bool" where
  "triggers_ok cr r ms \<longleftrightarrow> length (filter (is_trigger (crSerial cr)) ms) \<le> 2
     \<and> (\<forall>m \<in> set ms. is_trigger (crSerial cr) m \<longrightarrow> activation_id (crMac4 cr) (snd m) = activationTRG)
     \<and> (r = None \<longrightarrow> filter (is_trigger (crSerial cr)) ms \<noteq> [])"

lemma triggers_ok_quiet:
  "\<forall>m \<in> set ms. \<not> is_trigger (crSerial cr) m \<Longrightarrow> triggers_ok cr (Some e) ms"
  by (auto simp: triggers_ok_def filter_empty_conv)

lemma triggers_ok_activate:
  assumes "activate broker cr ch 2 cv io = (r, io')" "\<forall>m \<in> set (sent io). \<not> is_trigger (crSerial cr) m"
  shows "triggers_ok cr r (sent io')"
proof -
  obtain cvs where s: "sent io' = sent io
      @ map (\<lambda>v. (crSerial cr @ ''/userRemoteTrigger'', buildCmd03Prefix (crMac4 cr) v @ ch)) cvs"
    and l: "length cvs \<le> 2" and n: "r = None \<longrightarrow> cvs \<noteq> []"
    using activate_sent [OF assms(1)] by blast
  have "filter (is_trigger (crSerial cr)) (sent io) = []" using assms(2) by (simp add: filter_empty_conv)
  moreover have "filter (is_trigger (crSerial cr)) (map (\<lambda>v. (crSerial cr @ ''/userRemoteTrigger'',
      buildCmd03Prefix (crMac4 cr) v @ ch)) cvs) = map (\<lambda>v. (crSerial cr @ ''/userRemoteTrigger'',
      buildCmd03Prefix (crMac4 cr) v @ ch)) cvs"
    by (simp add: filter_id_conv)
  ultimately show ?thesis using l n assms(2) by (auto simp: triggers_ok_def s activation_id_Cmd03)
qed

lemma open_exchange_triggers:
  assumes "open_exchange broker t cr io = (r, io')" "sent io = []"
  shows "triggers_ok cr r (sent io')"
proof -
  let ?trig = "crSerial cr @ ''/userRemoteTrigger''"
  obtain ok1 i1 where p1: "pub broker (crSerial cr) (crSerial cr @ ''/connectionRequest'') [] io = (ok1, i1)" by fastforce
  obtain m1 i2 where q1: "recv_req i1 = (m1, i2)" by fastforce
  obtain ok2 i3 where p2: "pub broker (crSerial cr) ?trig (buildCmd01 (crPhone cr) (crMac4 cr)) i2 = (ok2, i3)" by fastforce
  obtain m2 i4 where q2: "recv_trig i3 = (m2, i4)" by fastforce
  obtain ok3 i5 where p3: "pub broker (crSerial cr) ?trig (buildCmd05 (crMac4 cr) t) i4 = (ok3, i5)" by fastforce
  obtain m3 i6 where q3: "recv_trig i5 = (m3, i6)" by fastforce
  have s: "sent i1 = [(crSerial cr @ ''/connectionRequest'', [])]" "sent i2 = sent i1"
    "sent i3 = sent i2 @ [(?trig, buildCmd01 (crPhone cr) (crMac4 cr))]" "sent i4 = sent i3"
    "sent i5 = sent i4 @ [(?trig, buildCmd05 (crMac4 cr) t)]" "sent i6 = sent i5"
    using pub_sent [OF p1] recv_sent(1) [OF q1] pub_sent [OF p2] recv_sent(2) [OF q2] pub_sent [OF p3]
      recv_sent(2) [OF q3] assms(2) by simp_all
  have quiet: "\<forall>m \<in> set (sent i). \<not> is_trigger (crSerial cr) m" if "i \<in> {i1, i2, i3, i4, i5, i6}" for i
    using that by (auto simp: s)
  have ends: ?thesis if "r = Some e" "io' \<in> {i1, i2, i3, i4, i5, i6}" for e
    using quiet [OF that(2)] triggers_ok_quiet that(1) by blast
  note e = assms(1) [unfolded open_exchange_def Let_def p1 prod.case]
  show ?thesis
  proof (cases "ok1 \<and> m1 \<noteq> None")
    case False
    with e have "(r = Some RequestFailed \<or> r = Some GateOffline) \<and> io' \<in> {i1, i2}"
      by (auto simp: q1 split: bool.splits option.splits)
    then show ?thesis using ends by auto
  next
    case True
    then have e: "(case pub broker (crSerial cr) ?trig (buildCmd01 (crPhone cr) (crMac4 cr)) i2 of
         (False, io) \<Rightarrow> (Some Cmd01Failed, io)
       | (True, io) \<Rightarrow> (case recv_trig io of
           (None, io) \<Rightarrow> (Some NoChallenge, io)
         | (Some cmd02, io) \<Rightarrow>
             if length cmd02 < 4 then (Some NoChallenge, io)
             else (case pub broker (crSerial cr) ?trig (buildCmd05 (crMac4 cr) t) io of
                 (False, io) \<Rightarrow> (Some Cmd05Failed, io)
               | (True, io) \<Rightarrow> (case recv_trig io of
                   (_, io) \<Rightarrow> activate broker cr (drop (length cmd02 - 4) cmd02) 2 0 io)))) = (r, io')"
      using e by (auto simp: q1)
    note e = e [unfolded p2 prod.case]
    show ?thesis
    proof (cases "ok2 \<and> m2 \<noteq> None \<and> \<not> length (the m2) < 4")
      case False
      with e have "(r = Some Cmd01Failed \<or> r = Some NoChallenge) \<and> io' \<in> {i3, i4}"
        by (auto simp: q2 split: bool.splits option.splits if_splits)
      then show ?thesis using ends by auto
    next
      case True
      then obtain cmd02 where m2: "m2 = Some cmd02" by blast
      have "(case (ok3, i5) of (False, io) \<Rightarrow> (Some Cmd05Failed, io)
               | (True, io) \<Rightarrow> (case recv_trig io of
                   (_, io) \<Rightarrow> activate broker cr (drop (length cmd02 - 4) cmd02) 2 0 io)) = (r, io')"
        using e True by (simp add: q2 m2 p3)
      then show ?thesis
        using ends triggers_ok_activate [of broker cr _ 0 i6, OF _ quiet] by (cases ok3) (auto simp: q3)
    qed
  qed
qed

text \<open>
  C6: Whatever the broker answers, opening the gate publishes at most two activation packets, each
  carrying the TRG id 34 and never another id (1 would lock the gate), at least one when it reports
  success, and always ends by releasing the broker slot; without a connection it publishes nothing.
\<close>

theorem gate_trigger_safety:
  assumes "Open_gate broker connected t c w = (r, io)" "creds c = Some cr"
  shows "if connected cr (centsysClientID (crPhone cr) '':cam'')
    then triggers_ok cr r (sent io) \<and> last (sent io) = (crSerial cr @ ''/disconnect'', [])
    else r = Some BrokerFailed \<and> sent io = []"
proof (cases "connected cr (centsysClientID (crPhone cr) '':cam'')")
  case True
  let ?io = "\<lparr>reqResp = [], trigResp = [], sent = [], bworld = w\<rparr>"
  obtain r' i1 where e: "open_exchange broker t cr ?io = (r', i1)" by fastforce
  obtain ok i2 where p: "pub broker (crSerial cr) (crSerial cr @ ''/disconnect'') [] i1 = (ok, i2)" by fastforce
  have "r = r'" "io = i2" using assms True e p by (auto simp: Open_gate_def)
  with open_exchange_triggers [OF e] pub_sent [OF p] True show ?thesis
    by (simp add: triggers_ok_def)
qed (use assms in \<open>auto simp: Open_gate_def\<close>)

section \<open>A gate that follows the protocol\<close>

text \<open>
  The operator's side: it answers the wake-up, sends \<open>pre @ ch\<close> to the account's identity packet,
  acknowledges the time, and activates when the challenge, the configuration version and the
  activation id are right.  Its state counts the activations.
\<close>

definition cmd04 :: "byte list \<Rightarrow> byte \<Rightarrow> byte \<Rightarrow> byte list" where
  "cmd04 mac4 want code = centsysHeader 4 @ centsysXOR [want, code] (centsysKey mac4)"

definition gate_reply :: "centsysCreds \<Rightarrow> byte \<Rightarrow> byte list \<Rightarrow> byte list \<Rightarrow> byte list \<Rightarrow> nat \<Rightarrow> byte list option \<times> nat" where
  "gate_reply cr want pre ch data n =
    (if data = buildCmd01 (crPhone cr) (crMac4 cr) then (Some (pre @ ch), n)
     else if data ! 2 = 5 then (Some [], n)
     else if data ! 2 = 3 \<and> drop 8 data = ch
     then (if hd (centsysXOR (take 4 (drop 4 data)) (centsysKey (crMac4 cr))) \<noteq> want
           then (Some (cmd04 (crMac4 cr) want activationConfigurationMismatch), n)
           else if activation_id (crMac4 cr) data = activationTRG
           then (Some (cmd04 (crMac4 cr) want activationOK), Suc n)
           else (Some (cmd04 (crMac4 cr) want 9), n))
     else (None, n))"

definition gate_broker :: "centsysCreds \<Rightarrow> byte \<Rightarrow> byte list \<Rightarrow> byte list \<Rightarrow> nat broker" where
  "gate_broker cr want pre ch topic data n =
    (if topic = crSerial cr @ ''/connectionRequest''
     then ((True, [(crSerial cr @ ''/connectionRequestResponse'', [])]), n)
     else if topic = crSerial cr @ ''/userRemoteTrigger''
     then (case gate_reply cr want pre ch data n of
         (None, n) \<Rightarrow> ((True, []), n)
       | (Some m, n) \<Rightarrow> ((True, [(crSerial cr @ ''/userRemoteTriggerResponse'', m)]), n))
     else ((True, []), n))"

lemma decode_cmd04 [simp]: "decodeCmd04 mac4 (cmd04 mac4 want code) = Some (code, want)"
  by (simp add: decodeCmd04_def cmd04_def centsysHeader_def)

lemma Cmd03_not_Cmd01 [simp]: "buildCmd03Prefix mac4 v @ ch \<noteq> buildCmd01 phone mac4'"
  by (auto simp: buildCmd03Prefix_def buildCmd01_def centsysHeader_def split: prod.splits)

lemma Cmd05_not_Cmd01 [simp]: "buildCmd05 mac4 t \<noteq> buildCmd01 phone mac4'"
  by (auto simp: buildCmd05_def buildCmd01_def centsysHeader_def split: prod.splits)

lemma packet_types [simp]: "buildCmd05 mac4 t ! 2 = 5" "(buildCmd03Prefix mac4 v @ ch) ! 2 = 3"
  by (simp_all add: buildCmd05_def buildCmd03Prefix_def centsysHeader_def)

lemma drop_Cmd03 [simp]: "drop 8 (buildCmd03Prefix mac4 v @ ch) = ch"
  by (simp add: buildCmd03Prefix_def centsysHeader_def le16_def)

lemma config_version_Cmd03 [simp]:
  "hd (centsysXOR (take 4 (drop 4 (buildCmd03Prefix mac4 v @ ch))) (centsysKey mac4)) = v"
  by (simp add: buildCmd03Prefix_def centsysHeader_def le16_def)

lemma pub_gate:
  "pub (gate_broker cr want pre ch) (crSerial cr) (crSerial cr @ ''/connectionRequest'') [] io
     = (True, io\<lparr>sent := sent io @ [(crSerial cr @ ''/connectionRequest'', [])],
          reqResp := (if length (reqResp io) < 1 then reqResp io @ [[]] else reqResp io)\<rparr>)"
  "gate_reply cr want pre ch data (bworld io) = (Some m, n) \<Longrightarrow> length (trigResp io) < 4 \<Longrightarrow>
   pub (gate_broker cr want pre ch) (crSerial cr) (crSerial cr @ ''/userRemoteTrigger'') data io
     = (True, io\<lparr>sent := sent io @ [(crSerial cr @ ''/userRemoteTrigger'', data)], bworld := n,
          trigResp := trigResp io @ [m]\<rparr>)"
  "pub (gate_broker cr want pre ch) (crSerial cr) (crSerial cr @ ''/disconnect'') [] io
     = (True, io\<lparr>sent := sent io @ [(crSerial cr @ ''/disconnect'', [])]\<rparr>)"
  by (simp_all add: pub_def gate_broker_def on_message_def)

lemma gate_replies:
  "gate_reply cr want pre ch (buildCmd01 (crPhone cr) (crMac4 cr)) n = (Some (pre @ ch), n)"
  "gate_reply cr want pre ch (buildCmd05 (crMac4 cr) t) n = (Some [], n)"
  "gate_reply cr want pre ch (buildCmd03Prefix (crMac4 cr) v @ ch) n
     = (if v = want then (Some (cmd04 (crMac4 cr) want activationOK), Suc n)
        else (Some (cmd04 (crMac4 cr) want activationConfigurationMismatch), n))"
  by (simp_all add: gate_reply_def activation_id_Cmd03 del: drop_append take_append)

lemma activate_gate:
  assumes "trigResp io = []" "bworld io = n"
  shows "\<exists>io'. activate (gate_broker cr want pre ch) cr ch 2 0 io = (None, io') \<and> bworld io' = Suc n"
  using assms
  by (cases "want = 0")
     (auto simp: numeral_2_eq_2 pub_gate gate_replies recv_trig_def activationConfigurationMismatch_def activationOK_def)

lemma honest_gate_activates:
  assumes "creds c = Some cr" "connected cr (centsysClientID (crPhone cr) '':cam'')" "length ch = 4"
  shows "\<exists>io. Open_gate (gate_broker cr want pre ch) connected t c n = (None, io) \<and> bworld io = Suc n"
proof -
  let ?io = "\<lparr>reqResp = [], trigResp = [], sent = [], bworld = n\<rparr>"
  have "\<exists>io'. open_exchange (gate_broker cr want pre ch) t cr ?io = (None, io') \<and> bworld io' = Suc n"
    using assms(3)
    by (simp add: open_exchange_def Let_def pub_gate gate_replies recv_req_def recv_trig_def del: activate.simps)
       (rule activate_gate; simp)
  then obtain io' where "open_exchange (gate_broker cr want pre ch) t cr ?io = (None, io')" "bworld io' = Suc n"
    by blast
  with assms show ?thesis by (simp add: Open_gate_def pub_gate)
qed

text \<open>
  C27: A gate that follows the protocol, with any challenge and whatever configuration version it
  wants, is activated exactly once by an open and the open reports success.
\<close>

theorem honest_gate_opens_once:
  assumes "creds c = Some cr" "connected cr (centsysClientID (crPhone cr) '':cam'')" "length ch = 4"
  shows "\<exists>io. Open_gate (gate_broker cr want pre ch) connected t c n = (None, io) \<and> bworld io = Suc n"
  using assms by (rule honest_gate_activates)

section \<open>What HomeKit is told\<close>

text \<open>The known statuses among the messages of the broker, in order.\<close>

definition known_statuses :: "string \<Rightarrow> (string \<times> byte list) list \<Rightarrow> gateStatus list" where
  "known_statuses serial ms = filter (\<lambda>s. s \<noteq> gateUnknown)
     (map (\<lambda>m. decodeOverview (snd m)) (filter (\<lambda>m. fst m = serial @ ''/deviceOverview'') ms))"

lemma setStatus_known:
  assumes "listening c" "gstatus c = (if us = [] then gateUnknown else last us)" "updates c = remdups_adj us"
    "gateUnknown \<notin> set us" "s \<noteq> gateUnknown"
  shows "setStatus s c = c\<lparr>gstatus := s, updates := remdups_adj (us @ [s])\<rparr>"
proof (cases us rule: rev_cases)
  case Nil
  then show ?thesis using assms by (simp add: setStatus_def)
next
  case (snoc vs v)
  have "remdups_adj (us @ [s]) = remdups_adj us @ (if v = s then [] else [s])"
    by (simp add: snoc remdups_adj_append_two)
  moreover have "gstatus c = v" using assms snoc by simp
  ultimately show ?thesis using assms(1,3,5) by (cases c) (simp add: setStatus_def)
qed

lemma follow_messages:
  assumes "listening c" "gstatus c = (if us = [] then gateUnknown else last us)" "updates c = remdups_adj us"
    "gateUnknown \<notin> set us"
  shows "fold (\<lambda>m. follow_message serial (fst m) (snd m)) ms c
    = c\<lparr>gstatus := (if us @ known_statuses serial ms = [] then gateUnknown else last (us @ known_statuses serial ms)),
        updates := remdups_adj (us @ known_statuses serial ms)\<rparr>"
  using assms
proof (induction ms arbitrary: c us)
  case Nil
  then show ?case by (simp add: known_statuses_def)
next
  case (Cons m ms)
  let ?s = "decodeOverview (snd m)"
  show ?case
  proof (cases "fst m = serial @ ''/deviceOverview'' \<and> ?s \<noteq> gateUnknown")
    case False
    then have "follow_message serial (fst m) (snd m) c = c" "known_statuses serial (m # ms) = known_statuses serial ms"
      by (auto simp: follow_message_def setStatus_def known_statuses_def)
    with Cons.IH [OF Cons.prems] show ?thesis by simp
  next
    case True
    let ?c = "follow_message serial (fst m) (snd m) c"
    have known: "known_statuses serial (m # ms) = ?s # known_statuses serial ms"
      using True by (simp add: known_statuses_def)
    have c: "?c = c\<lparr>gstatus := ?s, updates := remdups_adj (us @ [?s])\<rparr>"
      using True Cons.prems by (simp add: follow_message_def setStatus_known)
    have "fold (\<lambda>m. follow_message serial (fst m) (snd m)) ms ?c
      = ?c\<lparr>gstatus := last (us @ ?s # known_statuses serial ms),
           updates := remdups_adj (us @ ?s # known_statuses serial ms)\<rparr>"
      using Cons.IH [of ?c "us @ [?s]"] Cons.prems True c by (auto dest: not_sym)
    then show ?thesis by (simp add: known c)
  qed
qed

lemma gate_updates_follow_telemetry:
  assumes "listening c" "gstatus c = gateUnknown" "updates c = []"
    "c' = fold (\<lambda>m. follow_message serial (fst m) (snd m)) ms c"
  shows "updates c' = remdups_adj (known_statuses serial ms)
    \<and> CurrentStatus c' = (if known_statuses serial ms = [] then gateUnknown else last (known_statuses serial ms))"
  using follow_messages [of c "[]" serial ms] assms by (simp add: CurrentStatus_def)

text \<open>The waits between listeners.\<close>

lemma centsys_listener_waits:
  assumes "b \<in> (\<lambda>k. k * second) ` {5, 10, 20, 40, 80, 160}"
  shows "set (Run b rs) \<subseteq> (\<lambda>k. k * second) ` {5, 10, 20, 40, 80, 160}"
  using assms
proof (induction rs arbitrary: b)
  case (Cons r rs)
  have "set (Run b' rs) \<subseteq> (\<lambda>k. k * second) ` {5, 10, 20, 40, 80, 160}"
    if "b' \<in> {b, 5 * second, if b < 2 * minute then b * 2 else b}" for b'
    using that Cons.prems by (intro Cons.IH) (auto split: if_splits)
  then show ?case using Cons.prems by (cases r) auto
qed simp

section \<open>Signing in\<close>

lemma complete_login_cases:
  assumes "centsysCompleteLogin api pfx write_ok cfg code file w = ((e, file'), w')"
  shows "(e \<noteq> None \<and> file' = file) \<or> (e = None \<and> (\<exists>s. file' = Some s \<and> sePhone s = cfgPhone cfg \<and> parseMAC4 (seMAC s) \<noteq> None))"
  using assms unfolding centsysCompleteLogin_def
  by (auto split: if_splits option.splits prod.splits api_reply.splits list.splits)


section \<open>Witnesses\<close>

definition sample_creds :: centsysCreds where
  "sample_creds = \<lparr>crPhone = ''+27831234567'', crSerial = ''S1'', crMac4 = [1, 2, 3, 4], crCert = ([], [])\<rparr>"

definition sample_gate :: centsys_ctl where
  "sample_gate = \<lparr>ccfg = \<lparr>cfgPhone = ''+27831234567'', cfgName = [], cfgSession = []\<rparr>, creds = Some sample_creds,
     reload_pending = False, gstatus = gateUnknown, listening = True, updates = []\<rparr>"

definition sample_time :: civil_time where
  "sample_time = \<lparr>c_second = 1, c_minute = 2, c_hour = 3, c_weekday = 4, c_day = 5, c_month = 6, c_year = 2026\<rparr>"

theorem honest_gate_opens_once_witness:
  "\<exists>io. Open_gate (gate_broker sample_creds 3 [1, 1] [5, 6, 7, 8]) (\<lambda>_ _. True) sample_time
     sample_gate 0 = (None, io) \<and> bworld io = 1"
  using honest_gate_opens_once [of sample_gate sample_creds "\<lambda>_ _. True" "[5, 6, 7, 8]" 3 "[1, 1]" _ 0]
  by (simp add: sample_gate_def)

theorem gate_trigger_safety_witness:
  "\<exists>r io. Open_gate (\<lambda>_ _ w. ((True, []), w)) (\<lambda>_ _. True) sample_time sample_gate (0 :: nat) = (r, io)
     \<and> triggers_ok sample_creds r (sent io) \<and> last (sent io) = (''S1/disconnect'', [])"
proof -
  obtain r io where o: "Open_gate (\<lambda>_ _ w. ((True, []), w)) (\<lambda>_ _. True) sample_time sample_gate (0 :: nat) = (r, io)"
    by fastforce
  have "creds sample_gate = Some sample_creds" by (simp add: sample_gate_def)
  from gate_trigger_safety [OF o this] o show ?thesis by (auto simp: sample_creds_def)
qed

lemma gate_updates_follow_telemetry_witness:
  "updates (fold (\<lambda>m. follow_message ''S1'' (fst m) (snd m))
     [(''S1/deviceOverview'', replicate 28 1), (''S1/deviceOverview'', []), (''S1/deviceOverview'', replicate 28 1)]
     sample_gate) = [gateOpen]"
proof -
  have "listening sample_gate" "gstatus sample_gate = gateUnknown" "updates sample_gate = []"
    by (simp_all add: sample_gate_def)
  from gate_updates_follow_telemetry [OF this refl, of "''S1''" "[(''S1/deviceOverview'', replicate 28 1),
      (''S1/deviceOverview'', []), (''S1/deviceOverview'', replicate 28 1)]"]
  show ?thesis by (simp add: known_statuses_def decodeOverview_def garageStatus_def)
qed


end
