(* ===== verification/Gree.thy ===== *)
theory Gree
  imports GoCodec Complex_Main
begin

text \<open>
  \<open>gree.go\<close>: the air conditioner's JSON-over-UDP protocol.  The arguments: the AES block functions and
  \<open>encoding/json\<close> (\<open>gree_lib\<close>), and the network (\<open>gree_net\<close>): resolving, opening the socket, sending, and
  what a read window delivers until its deadline.  A float of the unit is a rational.
\<close>

section \<open>Configuration\<close>

definition greeDefaultPort :: int where "greeDefaultPort = 7000"
definition greeGenericKey :: string where "greeGenericKey = ''a3K8Bx%2r8Y7#xDh''"
definition greeBroadcastAddr :: string where "greeBroadcastAddr = ''255.255.255.255''"

record GreeConfig =
  gHost :: string
  gMAC :: string
  gPort :: int
  gName :: string

definition greeNormalizeMAC :: "string \<Rightarrow> string" where
  "greeNormalizeMAC mac = to_lower (filter (\<lambda>c. c \<notin> set '':-.'') mac)"

definition gree_port :: "GreeConfig \<Rightarrow> int" where
  "gree_port g = (if gPort g = 0 then greeDefaultPort else gPort g)"

definition greeModeAuto :: int where "greeModeAuto = 0"
definition greeModeCool :: int where "greeModeCool = 1"
definition greeModeDry :: int where "greeModeDry = 2"
definition greeModeFan :: int where "greeModeFan = 3"
definition greeModeHeat :: int where "greeModeHeat = 4"

record GreeStatus =
  Configured :: bool
  Online :: bool
  stName :: string
  Power :: int
  Mode :: int
  SetTemp :: int
  FanSpeed :: int
  Air :: int
  Health :: int
  Sleep :: int
  Light :: int
  SwingV :: int
  Quiet :: int
  Turbo :: int
  TempUnit :: int
  EnergySave :: int
  RoomTemp :: int
  LastUpdated :: int

definition zero_status :: GreeStatus where
  "zero_status = \<lparr>Configured = False, Online = False, stName = [], Power = 0, Mode = 0, SetTemp = 0, FanSpeed = 0,
     Air = 0, Health = 0, Sleep = 0, Light = 0, SwingV = 0, Quiet = 0, Turbo = 0, TempUnit = 0, EnergySave = 0,
     RoomTemp = 0, LastUpdated = 0\<rparr>"

section \<open>The pack encoding\<close>

datatype jvalue = JStr string | JNum rat | JArr "jvalue list" | JOther

type_synonym jobject = "string \<rightharpoonup> jvalue"

record gree_lib =
  quote :: "string \<Rightarrow> string"
  unmarshal :: "string \<Rightarrow> jobject option"
  aes_enc :: "string \<Rightarrow> string \<Rightarrow> string"
  aes_dec :: "string \<Rightarrow> string \<Rightarrow> string"

text \<open>The block loop, and the key check of \<open>aes.NewCipher\<close>.\<close>

function ecb :: "(string \<Rightarrow> string) \<Rightarrow> string \<Rightarrow> string" where
  "ecb f s = (if s = [] then [] else f (take 16 s) @ ecb f (drop 16 s))"
  by pat_completeness auto
termination by (relation "measure (\<lambda>(_, s). length s)") auto

declare ecb.simps [simp del]

definition aes_key_ok :: "string \<Rightarrow> bool" where
  "aes_key_ok key \<longleftrightarrow> length key \<in> {16, 24, 32}"

definition greeEncrypt :: "gree_lib \<Rightarrow> string \<Rightarrow> string \<Rightarrow> string option" where
  "greeEncrypt lib plaintext key =
    (if \<not> aes_key_ok key then None
     else (let padLen = 16 - length plaintext mod 16;
               padded = plaintext @ replicate padLen (char_of padLen)
       in Some (std_encode (ecb (aes_enc lib key) padded))))"

definition trim_after_brace :: "string \<Rightarrow> string" where
  "trim_after_brace out = (if CHR ''}'' \<in> set out then rev (dropWhile (\<lambda>c. c \<noteq> CHR ''}'') (rev out)) else out)"

definition greeDecrypt :: "gree_lib \<Rightarrow> string \<Rightarrow> string \<Rightarrow> string option" where
  "greeDecrypt lib encoded key = (case std_decode encoded of
      None \<Rightarrow> None
    | Some ct \<Rightarrow>
        if \<not> aes_key_ok key then None
        else if length ct mod 16 \<noteq> 0 then None
        else Some (trim_after_brace (ecb (aes_dec lib key) ct)))"

text \<open>JSON texts of the requests; Go writes the keys of a map in order.\<close>

definition jkey :: "string \<Rightarrow> string \<Rightarrow> string" where
  "jkey k v = CHR 0x22 # k @ CHR 0x22 # CHR '':'' # v"

definition jobj :: "(string \<times> string) list \<Rightarrow> string" where
  "jobj kvs = ''{'' @ join '','' (map (\<lambda>(k, v). jkey k v) kvs) @ ''}''"

definition jarr :: "string list \<Rightarrow> string" where
  "jarr vs = ''['' @ join '','' vs @ '']''"

definition scan_request :: string where
  "scan_request = ''{'' @ [CHR 0x22] @ ''t'' @ [CHR 0x22] @ '':'' @ [CHR 0x22] @ ''scan'' @ [CHR 0x22] @ ''}''"

definition bind_inner :: "gree_lib \<Rightarrow> string \<Rightarrow> string" where
  "bind_inner lib cid = jobj [(''mac'', quote lib cid), (''t'', quote lib ''bind''), (''uid'', ''0'')]"

definition envelope :: "gree_lib \<Rightarrow> string \<Rightarrow> string \<Rightarrow> string \<Rightarrow> string" where
  "envelope lib i cid enc = jobj [(''cid'', quote lib ''app''), (''i'', i), (''pack'', quote lib enc),
     (''t'', quote lib ''pack''), (''tcid'', quote lib cid), (''uid'', ''0'')]"

definition statusColumns :: "string list" where
  "statusColumns = [''Pow'', ''Mod'', ''SetTem'', ''WdSpd'', ''Air'', ''Blo'', ''Health'', ''SwhSlp'', ''Lig'',
     ''SwingLfRig'', ''SwUpDn'', ''Quiet'', ''Tur'', ''StHt'', ''TemUn'', ''HeatCoolType'', ''TemRec'', ''SvSt'', ''TemSen'']"

definition status_inner :: "gree_lib \<Rightarrow> string \<Rightarrow> string" where
  "status_inner lib cid = jobj [(''cols'', jarr (map (quote lib) statusColumns)), (''mac'', quote lib cid),
     (''t'', quote lib ''status'')]"

definition cmd_inner :: "gree_lib \<Rightarrow> string list \<Rightarrow> int list \<Rightarrow> string" where
  "cmd_inner lib opt p = jobj [(''opt'', jarr (map (quote lib) opt)), (''p'', jarr (map format_int p)),
     (''t'', quote lib ''cmd'')]"

definition str_field :: "jobject \<Rightarrow> string \<Rightarrow> string" where
  "str_field m k = (case m k of Some (JStr s) \<Rightarrow> s | _ \<Rightarrow> [])"

definition arr_field :: "jobject \<Rightarrow> string \<Rightarrow> jvalue list" where
  "arr_field m k = (case m k of Some (JArr vs) \<Rightarrow> vs | _ \<Rightarrow> [])"

section \<open>The client\<close>

type_synonym udp_addr = "string \<times> int"

record gree_client =
  gmac :: string
  gport :: int
  scanTargets :: "string list"
  broadcastOnly :: bool
  conn :: bool
  addr :: "udp_addr option"
  cid :: string
  gkey :: "string option"

datatype gree_error = GTimeout | GCanceled | GNet | GBadPack | GIgnored | GNoReply | GNoKey | GResolve | GNoUnit
  | GCipher | GUnknownParam | GNoParams | GRejected

text \<open>What one turn of a read loop meets; \<open>CtxDone\<close> tells a passed deadline from a cancellation.\<close>

datatype read_event = Datagram string udp_addr | ReadTimeout | ReadFailed | CtxDone bool

record 'w gree_net =
  resolve :: "string \<Rightarrow> udp_addr option"
  open_socket :: "'w \<Rightarrow> bool \<times> 'w"
  net_send :: "udp_addr \<Rightarrow> string \<Rightarrow> 'w \<Rightarrow> gree_error option \<times> 'w"
  net_reads :: "'w \<Rightarrow> read_event list \<times> 'w"

definition newGreeClient :: "GreeConfig \<Rightarrow> gree_client" where
  "newGreeClient cfg = (let portStr = format_int (gree_port cfg) in
     \<lparr>gmac = greeNormalizeMAC (gMAC cfg), gport = gree_port cfg,
      scanTargets = (if gHost cfg \<noteq> [] then [JoinHostPort (gHost cfg) portStr] else [])
        @ [JoinHostPort greeBroadcastAddr portStr],
      broadcastOnly = False, conn = False, addr = None, cid = [], gkey = None\<rparr>)"

definition broadcastAddr :: "'w gree_net \<Rightarrow> gree_client \<Rightarrow> udp_addr option" where
  "broadcastAddr net c = resolve net (JoinHostPort greeBroadcastAddr (format_int (gport c)))"

definition sendTarget :: "'w gree_net \<Rightarrow> gree_client \<Rightarrow> udp_addr option" where
  "sendTarget net c = (if broadcastOnly c then broadcastAddr net c else addr c)"

definition isTimeout :: "gree_error \<Rightarrow> bool" where
  "isTimeout e \<longleftrightarrow> e = GTimeout"

definition greset :: "gree_client \<Rightarrow> gree_client" where
  "greset c = c\<lparr>addr := None, cid := [], gkey := None\<rparr>"

definition connLocked :: "'w gree_net \<Rightarrow> gree_client \<Rightarrow> 'w \<Rightarrow> bool \<times> gree_client \<times> 'w" where
  "connLocked net c w = (if conn c then (True, c, w)
     else (case open_socket net w of (True, w') \<Rightarrow> (True, c\<lparr>conn := True\<rparr>, w') | (False, w') \<Rightarrow> (False, c, w')))"

text \<open>Writing to no address is an error.\<close>

definition sendLocked :: "'w gree_net \<Rightarrow> udp_addr option \<Rightarrow> string \<Rightarrow> 'w \<Rightarrow> gree_error option \<times> 'w" where
  "sendLocked net target payload w = (case target of
      None \<Rightarrow> (Some GNet, w) | Some a \<Rightarrow> net_send net a payload w)"

definition unpack :: "gree_lib \<Rightarrow> string \<Rightarrow> string \<Rightarrow> jobject option" where
  "unpack lib key payload = (case unmarshal lib payload of
      None \<Rightarrow> None
    | Some outer \<Rightarrow>
        if str_field outer ''pack'' = [] then None
        else Option.bind (greeDecrypt lib (str_field outer ''pack'') key) (unmarshal lib))"

definition readPackLocked :: "gree_lib \<Rightarrow> string \<Rightarrow> read_event \<Rightarrow> gree_error + jobject \<times> udp_addr" where
  "readPackLocked lib key ev = (case ev of
      CtxDone deadline \<Rightarrow> Inl (if deadline then GTimeout else GCanceled)
    | ReadTimeout \<Rightarrow> Inl GTimeout
    | ReadFailed \<Rightarrow> Inl GNet
    | Datagram payload src \<Rightarrow> (case unpack lib key payload of None \<Rightarrow> Inl GBadPack | Some m \<Rightarrow> Inr (m, src)))"

fun readReplyLoop :: "gree_lib \<Rightarrow> string \<Rightarrow> udp_addr option \<Rightarrow> gree_error \<Rightarrow> read_event list \<Rightarrow> gree_error + jobject" where
  "readReplyLoop lib key a lastErr [] = Inl lastErr"
| "readReplyLoop lib key a lastErr (CtxDone d # evs) = Inl (if d then GTimeout else GCanceled)"
| "readReplyLoop lib key a lastErr (ev # evs) = (case readPackLocked lib key ev of
      Inl e \<Rightarrow> readReplyLoop lib key a e evs
    | Inr (resp, src) \<Rightarrow> if Some src \<noteq> a then readReplyLoop lib key a GIgnored evs else Inr resp)"

definition readReplyLocked ::
  "gree_lib \<Rightarrow> 'w gree_net \<Rightarrow> string \<Rightarrow> udp_addr option \<Rightarrow> 'w \<Rightarrow> (gree_error + jobject) \<times> 'w" where
  "readReplyLocked lib net key a w = (case net_reads net w of
      (evs, w') \<Rightarrow> (readReplyLoop lib key a GNoReply evs, w'))"

section \<open>Discovery and binding\<close>

fun scan_all :: "'w gree_net \<Rightarrow> string list \<Rightarrow> 'w \<Rightarrow> gree_error option \<times> 'w" where
  "scan_all net [] w = (None, w)"
| "scan_all net (t # ts) w = (case resolve net t of
      None \<Rightarrow> (Some GResolve, w)
    | Some a \<Rightarrow> (case sendLocked net (Some a) scan_request w of
        (Some e, w') \<Rightarrow> (Some e, w') | (None, w') \<Rightarrow> scan_all net ts w'))"

definition unit_id :: "jobject \<Rightarrow> string" where
  "unit_id resp = (if str_field resp ''cid'' = [] then str_field resp ''mac'' else str_field resp ''cid'')"

definition isOurUnit :: "string \<Rightarrow> string \<Rightarrow> bool" where
  "isOurUnit mac i \<longleftrightarrow> i \<noteq> [] \<and> (mac = [] \<or> greeNormalizeMAC i = mac)"

text \<open>The scan's read loop: any error ends it.\<close>

fun find_unit :: "gree_lib \<Rightarrow> string \<Rightarrow> read_event list \<Rightarrow> (string \<times> udp_addr) option" where
  "find_unit lib mac [] = None"
| "find_unit lib mac (ev # evs) = (case readPackLocked lib greeGenericKey ev of
      Inl _ \<Rightarrow> None
    | Inr (resp, src) \<Rightarrow>
        if isOurUnit mac (unit_id resp) then Some (unit_id resp, src) else find_unit lib mac evs)"

definition discoverLocked ::
  "gree_lib \<Rightarrow> 'w gree_net \<Rightarrow> gree_client \<Rightarrow> 'w \<Rightarrow> gree_error option \<times> gree_client \<times> 'w" where
  "discoverLocked lib net c w = (case connLocked net c w of
      (False, c, w) \<Rightarrow> (Some GNet, c, w)
    | (True, c, w) \<Rightarrow> (case scan_all net (scanTargets c) w of
        (Some e, w) \<Rightarrow> (Some e, c, w)
      | (None, w) \<Rightarrow> (case net_reads net w of
          (evs, w) \<Rightarrow> (case find_unit lib (gmac c) evs of
              None \<Rightarrow> (Some GNoUnit, c, w)
            | Some (i, src) \<Rightarrow> (None, c\<lparr>addr := Some src, cid := i\<rparr>, w)))))"

definition bindLocked ::
  "gree_lib \<Rightarrow> 'w gree_net \<Rightarrow> gree_client \<Rightarrow> string \<Rightarrow> udp_addr option \<Rightarrow> 'w \<Rightarrow> (gree_error + string) \<times> 'w" where
  "bindLocked lib net c req target w = (case sendLocked net target req w of
      (Some e, w) \<Rightarrow> (Inl e, w)
    | (None, w) \<Rightarrow> (case readReplyLocked lib net greeGenericKey (addr c) w of
        (Inl e, w) \<Rightarrow> (Inl e, w)
      | (Inr resp, w) \<Rightarrow> (if str_field resp ''key'' = [] then Inl GNoKey else Inr (str_field resp ''key''), w)))"

text \<open>The bind with its fallback between unicast and broadcast.\<close>

definition bind_unit ::
  "gree_lib \<Rightarrow> 'w gree_net \<Rightarrow> gree_client \<Rightarrow> string \<Rightarrow> 'w \<Rightarrow> gree_error option \<times> gree_client \<times> 'w" where
  "bind_unit lib net c req w = (case bindLocked lib net c req (sendTarget net c) w of
      (Inr k, w) \<Rightarrow> (None, c\<lparr>gkey := Some k\<rparr>, w)
    | (Inl e, w) \<Rightarrow>
        if broadcastOnly c
        then (case bindLocked lib net c req (addr c) w of
            (Inl e, w) \<Rightarrow> (Some e, c, w)
          | (Inr k, w) \<Rightarrow> (None, c\<lparr>broadcastOnly := False, gkey := Some k\<rparr>, w))
        else if isTimeout e
        then (case bindLocked lib net c req (broadcastAddr net c) w of
            (Inl e, w) \<Rightarrow> (Some e, c, w)
          | (Inr k, w) \<Rightarrow> (None, c\<lparr>broadcastOnly := True, gkey := Some k\<rparr>, w))
        else (Some e, c, w))"

definition scanAndBindLocked ::
  "gree_lib \<Rightarrow> 'w gree_net \<Rightarrow> gree_client \<Rightarrow> 'w \<Rightarrow> gree_error option \<times> gree_client \<times> 'w" where
  "scanAndBindLocked lib net c w = (case discoverLocked lib net c w of
      (Some e, c, w) \<Rightarrow> (Some e, c, w)
    | (None, c, w) \<Rightarrow> (case greeEncrypt lib (bind_inner lib (cid c)) greeGenericKey of
        None \<Rightarrow> (Some GCipher, c, w)
      | Some enc \<Rightarrow> bind_unit lib net c (envelope lib ''1'' (cid c) enc) w))"

definition ensureKey ::
  "gree_lib \<Rightarrow> 'w gree_net \<Rightarrow> gree_client \<Rightarrow> 'w \<Rightarrow> gree_error option \<times> gree_client \<times> 'w" where
  "ensureKey lib net c w = (if gkey c \<noteq> None then (None, c, w) else scanAndBindLocked lib net c w)"

section \<open>Requests\<close>

text \<open>The part of \<open>request\<close> under the lock; a missing key is no AES key.\<close>

definition exchange_pack ::
  "gree_lib \<Rightarrow> 'w gree_net \<Rightarrow> gree_client \<Rightarrow> string \<Rightarrow> 'w \<Rightarrow> (gree_error + jobject) \<times> gree_client \<times> 'w" where
  "exchange_pack lib net c inner w = (let key = (case gkey c of None \<Rightarrow> [] | Some k \<Rightarrow> k) in
     case greeEncrypt lib inner key of
       None \<Rightarrow> (Inl GCipher, c, w)
     | Some enc \<Rightarrow> (case connLocked net c w of
         (False, c, w) \<Rightarrow> (Inl GNet, c, w)
       | (True, c, w) \<Rightarrow> (case sendLocked net (sendTarget net c) (envelope lib ''0'' (cid c) enc) w of
           (Some e, w) \<Rightarrow> (Inl e, c, w)
         | (None, w) \<Rightarrow> (case readReplyLocked lib net key (addr c) w of (r, w) \<Rightarrow> (r, c, w)))))"

definition request ::
  "gree_lib \<Rightarrow> 'w gree_net \<Rightarrow> gree_client \<Rightarrow> string \<Rightarrow> 'w \<Rightarrow> (gree_error + jobject) \<times> gree_client \<times> 'w" where
  "request lib net c inner w = (case ensureKey lib net c w of
      (Some e, c, w) \<Rightarrow> (Inl e, c, w)
    | (None, c, w) \<Rightarrow> exchange_pack lib net c inner w)"

definition int_of_float :: "rat \<Rightarrow> int" where
  "int_of_float q = (if q < 0 then \<lceil>q\<rceil> else \<lfloor>q\<rfloor>)"

fun column_values :: "jvalue list \<Rightarrow> jvalue list \<Rightarrow> (string \<Rightarrow> int) \<Rightarrow> string \<Rightarrow> int" where
  "column_values (c # cs) (d # ds) vals = column_values cs ds (case d of
      JNum q \<Rightarrow> vals((case c of JStr s \<Rightarrow> s | _ \<Rightarrow> []) := int_of_float q)
    | _ \<Rightarrow> vals)"
| "column_values _ _ vals = vals"

definition status_of :: "int \<Rightarrow> (string \<Rightarrow> int) \<Rightarrow> GreeStatus" where
  "status_of now vals = zero_status\<lparr>Configured := True, Online := True, Power := vals ''Pow'', Mode := vals ''Mod'',
     SetTemp := vals ''SetTem'', FanSpeed := vals ''WdSpd'', Air := vals ''Air'', Health := vals ''Health'',
     Sleep := vals ''SwhSlp'', Light := vals ''Lig'', SwingV := vals ''SwUpDn'', Quiet := vals ''Quiet'',
     Turbo := vals ''Tur'', TempUnit := vals ''TemUn'', EnergySave := vals ''SvSt'',
     RoomTemp := (if vals ''TemSen'' > 0 then vals ''TemSen'' - 40 else 0), LastUpdated := now\<rparr>"

definition Status ::
  "gree_lib \<Rightarrow> 'w gree_net \<Rightarrow> int \<Rightarrow> gree_client \<Rightarrow> 'w \<Rightarrow> GreeStatus \<times> gree_client \<times> 'w" where
  "Status lib net now c w = (let st = zero_status\<lparr>Configured := True\<rparr> in
     case ensureKey lib net c w of
       (Some _, c, w) \<Rightarrow> (st, c, w)
     | (None, c, w) \<Rightarrow> (case request lib net c (status_inner lib (cid c)) w of
         (Inl _, c, w) \<Rightarrow> (st, greset c, w)
       | (Inr resp, c, w) \<Rightarrow>
           (status_of now (column_values (arr_field resp ''cols'') (arr_field resp ''dat'') (\<lambda>_. 0)), c, w)))"

definition greeColumnFor :: "string \<Rightarrow> string option" where
  "greeColumnFor name = map_of [(''power'', ''Pow''), (''mode'', ''Mod''), (''temp'', ''SetTem''), (''fan'', ''WdSpd''),
     (''air'', ''Air''), (''health'', ''Health''), (''sleep'', ''SwhSlp''), (''light'', ''Lig''), (''swing'', ''SwUpDn''),
     (''quiet'', ''Quiet''), (''turbo'', ''Tur''), (''energy'', ''SvSt''), (''temp_unit'', ''TemUn'')] name"

text \<open>\<open>params\<close> in the order the map is iterated.\<close>

definition Set_params ::
  "gree_lib \<Rightarrow> 'w gree_net \<Rightarrow> (string \<times> int) list \<Rightarrow> gree_client \<Rightarrow> 'w \<Rightarrow> gree_error option \<times> gree_client \<times> 'w" where
  "Set_params lib net params c w =
    (if \<exists>p \<in> set params. greeColumnFor (fst p) = None then (Some GUnknownParam, c, w)
     else if params = [] then (Some GNoParams, c, w)
     else (case request lib net c (cmd_inner lib (map (the \<circ> greeColumnFor \<circ> fst) params) (map snd params)) w of
         (Inl e, c, w) \<Rightarrow> (Some e, greset c, w)
       | (Inr resp, c, w) \<Rightarrow>
           (case resp ''r'' of
              Some (JNum q) \<Rightarrow> if q \<noteq> 0 \<and> q \<noteq> 200 then Some GRejected else None
            | _ \<Rightarrow> None, c, w)))"

section \<open>The controller\<close>

text \<open>\<open>notified\<close> is every call of an observer, in order.\<close>

record gree_ctl =
  gclient :: gree_client
  ctl_name :: string
  gstat :: GreeStatus
  observers :: "nat list"
  notified :: "(nat \<times> GreeStatus) list"

definition NewGreeController :: "GreeConfig \<Rightarrow> gree_ctl" where
  "NewGreeController cfg = \<lparr>gclient = newGreeClient cfg,
     ctl_name = (if gName cfg \<noteq> [] then gName cfg else if gHost cfg \<noteq> [] then gHost cfg else gMAC cfg),
     gstat = zero_status, observers = [], notified = []\<rparr>"

definition refresh :: "gree_lib \<Rightarrow> 'w gree_net \<Rightarrow> int \<Rightarrow> gree_ctl \<Rightarrow> 'w \<Rightarrow> gree_ctl \<times> 'w" where
  "refresh lib net now g w = (case Status lib net now (gclient g) w of
      (st, c, w) \<Rightarrow> (let st = st\<lparr>stName := ctl_name g\<rparr> in
        (g\<lparr>gclient := c, gstat := st, notified := notified g @ map (\<lambda>o'. (o', st)) (observers g)\<rparr>, w)))"

text \<open>\<open>Run\<close>: the first read and one per tick until the context ends.\<close>

fun run_ticks :: "gree_lib \<Rightarrow> 'w gree_net \<Rightarrow> int list \<Rightarrow> gree_ctl \<Rightarrow> 'w \<Rightarrow> gree_ctl \<times> 'w" where
  "run_ticks lib net [] g w = (g, w)"
| "run_ticks lib net (t # ts) g w = (case refresh lib net t g w of (g, w) \<Rightarrow> run_ticks lib net ts g w)"

definition Run_gree :: "gree_lib \<Rightarrow> 'w gree_net \<Rightarrow> int \<Rightarrow> int list \<Rightarrow> gree_ctl \<Rightarrow> 'w \<Rightarrow> gree_ctl \<times> 'w" where
  "Run_gree lib net start ticks g w = (case refresh lib net start g w of (g, w) \<Rightarrow> run_ticks lib net ticks g w)"

definition Set_ctl ::
  "gree_lib \<Rightarrow> 'w gree_net \<Rightarrow> int \<Rightarrow> (string \<times> int) list \<Rightarrow> gree_ctl \<Rightarrow> 'w \<Rightarrow> gree_error option \<times> gree_ctl \<times> 'w" where
  "Set_ctl lib net now params g w = (case Set_params lib net params (gclient g) w of
      (Some e, c, w) \<Rightarrow> (Some e, g\<lparr>gclient := c\<rparr>, w)
    | (None, c, w) \<Rightarrow> (case refresh lib net now (g\<lparr>gclient := c\<rparr>) w of (g, w) \<Rightarrow> (None, g, w)))"

definition OnUpdate_gree :: "nat \<Rightarrow> gree_ctl \<Rightarrow> gree_ctl" where
  "OnUpdate_gree o' g = g\<lparr>observers := observers g @ [o']\<rparr>"

text \<open>\<open>body\<close>: the decoded parameters.\<close>

definition HandleSet ::
  "gree_lib \<Rightarrow> 'w gree_net \<Rightarrow> int \<Rightarrow> string \<Rightarrow> (string \<times> int) list option \<Rightarrow> gree_ctl \<Rightarrow> 'w \<Rightarrow> nat \<times> gree_ctl \<times> 'w" where
  "HandleSet lib net now meth body g w =
    (if meth \<noteq> ''POST'' then (405, g, w)
     else (case body of
         None \<Rightarrow> (400, g, w)
       | Some params \<Rightarrow> (case Set_ctl lib net now params g w of
           (Some _, g, w) \<Rightarrow> (502, g, w) | (None, g, w) \<Rightarrow> (204, g, w))))"

end
