(* ===== verification/GreeSpec.thy ===== *)
theory GreeSpec
  imports Gree
begin

text \<open>
  What the air conditioner's client promises: packs round-trip, only the discovered unit is believed,
  a lost unit is rediscovered, and the addressing mode is the one that last worked.
\<close>

section \<open>Packs\<close>

lemma ecb_Nil [simp]: "ecb f [] = []"
  by (simp add: ecb.simps)

lemma ecb_block: "length b = 16 \<Longrightarrow> ecb f (b @ s) = f b @ ecb f s"
  by (subst ecb.simps) auto

lemma ecb_inverse:
  assumes "length s mod 16 = 0" "\<And>b. length b = 16 \<Longrightarrow> length (f b) = 16 \<and> g (f b) = b"
  shows "length (ecb f s) = length s \<and> ecb g (ecb f s) = s"
  using assms(1)
proof (induction s rule: length_induct)
  case (1 s)
  show ?case
  proof (cases "s = []")
    case False
    then have l: "length (take 16 s) = 16" using 1(2) by (cases "length s < 16") auto
    have "16 \<le> length s" using l by simp
    then have "length (drop 16 s) mod 16 = 0" "length (drop 16 s) < length s"
      using 1(2) by (simp_all add: le_mod_geq)
    note IH = 1(1) [rule_format, OF this(2,1)]
    have "ecb f s = f (take 16 s) @ ecb f (drop 16 s)" using False by (subst ecb.simps) simp
    with IH l assms(2) [OF l] show ?thesis by (simp add: ecb_block)
  qed simp
qed

lemma trim_after_brace_padded:
  assumes "s \<noteq> []" "last s = CHR ''}''" "CHR ''}'' \<notin> set pad"
  shows "trim_after_brace (s @ pad) = s"
proof -
  obtain r where s: "s = r @ [CHR ''}'']" using assms(1,2) by (metis append_butlast_last_id)
  have "dropWhile (\<lambda>c. c \<noteq> CHR ''}'') (rev pad @ CHR ''}'' # rev r) = CHR ''}'' # rev r"
    using assms(3) by (subst dropWhile_append2) auto
  then show ?thesis by (simp add: trim_after_brace_def s)
qed

lemma pack_roundtrip:
  assumes "aes_key_ok key" "plaintext \<noteq> []" "last plaintext = CHR ''}''"
    and "\<And>b. length b = 16 \<Longrightarrow> length (aes_enc lib key b) = 16 \<and> aes_dec lib key (aes_enc lib key b) = b"
  shows "\<exists>ct. greeEncrypt lib plaintext key = Some ct \<and> greeDecrypt lib ct key = Some plaintext"
proof -
  let ?pad = "16 - length plaintext mod 16"
  let ?s = "plaintext @ replicate ?pad (char_of ?pad)"
  have l: "length ?s mod 16 = 0" by (simp add: mod_add_left_eq [symmetric] del: mod_add_left_eq) presburger
  have "?pad \<le> 16" by simp
  then have p: "CHR ''}'' \<notin> set (replicate ?pad (char_of ?pad))"
    by (auto dest!: arg_cong [of _ _ "of_char :: char \<Rightarrow> nat"])
  note e = ecb_inverse [OF l assms(4)]
  show ?thesis
    using assms(1) e l trim_after_brace_padded [OF assms(2,3) p]
    by (simp add: greeEncrypt_def greeDecrypt_def Let_def)
qed

section \<open>Whose replies are believed\<close>

text \<open>The replies of a window that come from the unit and decode under the key.\<close>

definition unit_replies :: "gree_lib \<Rightarrow> string \<Rightarrow> udp_addr option \<Rightarrow> read_event list \<Rightarrow> jobject list" where
  "unit_replies lib key a evs = concat (map (\<lambda>ev. case readPackLocked lib key ev of
     Inr (resp, src) \<Rightarrow> if Some src = a then [resp] else [] | Inl _ \<Rightarrow> []) evs)"

lemma unit_replies_Cons:
  "unit_replies lib key a (ev # evs) = (case readPackLocked lib key ev of
      Inr (resp, src) \<Rightarrow> if Some src = a then [resp] else [] | Inl _ \<Rightarrow> []) @ unit_replies lib key a evs"
  by (simp add: unit_replies_def)

lemma readReplyLoop_step:
  assumes "\<forall>d. ev \<noteq> CtxDone d"
  shows "readReplyLoop lib key a e (ev # evs) = (case readPackLocked lib key ev of
      Inl e \<Rightarrow> readReplyLoop lib key a e evs
    | Inr (resp, src) \<Rightarrow> if Some src \<noteq> a then readReplyLoop lib key a GIgnored evs else Inr resp)"
  using assms by (cases ev) auto

lemma readReplyLoop_unit:
  assumes "\<forall>d. CtxDone d \<notin> set evs"
  shows "(unit_replies lib key a evs = [] \<longrightarrow> (\<exists>e'. readReplyLoop lib key a e evs = Inl e'))
    \<and> (unit_replies lib key a evs \<noteq> [] \<longrightarrow> readReplyLoop lib key a e evs = Inr (hd (unit_replies lib key a evs)))"
  using assms
proof (induction evs arbitrary: e)
  case Nil
  then show ?case by (simp add: unit_replies_def)
next
  case (Cons ev evs)
  have s: "\<forall>d. ev \<noteq> CtxDone d" "\<forall>d. CtxDone d \<notin> set evs" using Cons.prems by auto
  note IH = Cons.IH [OF s(2)]
  show ?case
  proof (cases "readPackLocked lib key ev")
    case (Inl e1)
    with IH [of e1] show ?thesis by (simp add: readReplyLoop_step [OF s(1)] unit_replies_Cons)
  next
    case (Inr m)
    with IH [of GIgnored] show ?thesis
      by (cases m) (simp add: readReplyLoop_step [OF s(1)] unit_replies_Cons)
  qed
qed

text \<open>
  C34: A status poll returns the columns of the first datagram that came from the unit's address and
  decrypts under the session key to a reply, whatever else arrives; with none it reports an offline
  unit and drops the session.
\<close>

theorem status_believes_only_the_unit:
  assumes "gkey c = Some k" "greeEncrypt lib (status_inner lib (cid c)) k = Some enc" "conn c"
    and "sendTarget net c = Some a" "net_send net a (envelope lib ''0'' (cid c) enc) w = (None, w1)"
    and "net_reads net w1 = (evs, w2)" "\<forall>d. CtxDone d \<notin> set evs"
  shows "Status lib net now c w =
    (case unit_replies lib k (addr c) evs of
       [] \<Rightarrow> (zero_status\<lparr>Configured := True\<rparr>, greset c, w2)
     | resp # _ \<Rightarrow>
         (status_of now (column_values (arr_field resp ''cols'') (arr_field resp ''dat'') (\<lambda>_. 0)), c, w2))"
proof -
  have "request lib net c (status_inner lib (cid c)) w
      = (readReplyLoop lib k (addr c) GNoReply evs, c, w2)"
    using assms by (simp add: request_def ensureKey_def exchange_pack_def connLocked_def sendLocked_def readReplyLocked_def)
  with readReplyLoop_unit [OF assms(7), of lib k "addr c" GNoReply] assms(1) show ?thesis
    by (auto simp: Status_def ensureKey_def split: list.splits)
qed

section \<open>Identity of the unit\<close>

text \<open>
  What holds of the client between calls: an address is that of a unit with an acceptable id, and a key
  comes with an address.
\<close>

definition client_ok :: "gree_client \<Rightarrow> bool" where
  "client_ok c \<longleftrightarrow> (gkey c \<noteq> None \<longrightarrow> addr c \<noteq> None \<and> gkey c \<noteq> Some [])
     \<and> (addr c \<noteq> None \<longrightarrow> isOurUnit (gmac c) (cid c))"

definition same_config :: "gree_client \<Rightarrow> gree_client \<Rightarrow> bool" where
  "same_config c c' \<longleftrightarrow> gmac c' = gmac c \<and> gport c' = gport c \<and> scanTargets c' = scanTargets c"

lemma same_config_refl [simp]: "same_config c c"
  by (simp add: same_config_def)

lemma same_config_trans: "same_config a b \<Longrightarrow> same_config b c \<Longrightarrow> same_config a c"
  by (simp add: same_config_def)

lemma find_unit_ours: "find_unit lib mac evs = Some (i, src) \<Longrightarrow> isOurUnit mac i"
  by (induction evs) (auto split: sum.splits if_splits prod.splits)

lemma connLocked_ok: "connLocked net c w = (r, c', w') \<Longrightarrow> c' = c\<lparr>conn := conn c'\<rparr> \<and> (r \<longrightarrow> conn c')"
  by (cases c) (auto simp: connLocked_def split: if_splits bool.splits prod.splits)

lemma connLocked_keeps: "connLocked net c w = (r, c', w') \<Longrightarrow> client_ok c \<Longrightarrow> client_ok c' \<and> same_config c c'"
  by (auto simp: connLocked_def client_ok_def same_config_def split: if_splits bool.splits prod.splits)

lemma discover_ok:
  assumes "discoverLocked lib net c w = (r, c', w')" "client_ok c" "gkey c = None"
  shows "client_ok c' \<and> same_config c c' \<and> gkey c' = None \<and> (r = None \<longrightarrow> addr c' \<noteq> None)"
  using assms unfolding discoverLocked_def
  by (auto simp: client_ok_def same_config_def connLocked_def dest!: find_unit_ours
      split: prod.splits bool.splits option.splits if_splits)

lemma bind_key: "bindLocked lib net c req target w = (Inr k, w') \<Longrightarrow> k \<noteq> []"
  by (auto simp: bindLocked_def split: prod.splits option.splits sum.splits if_splits)

lemma bind_unit_ok:
  assumes "bind_unit lib net c req w = (r, c', w')" "client_ok c" "addr c \<noteq> None"
  shows "client_ok c' \<and> same_config c c'"
  using assms unfolding bind_unit_def
  by (auto simp: client_ok_def same_config_def dest!: bind_key split: prod.splits sum.splits if_splits)

lemma ensureKey_ok:
  assumes "ensureKey lib net c w = (r, c', w')" "client_ok c"
  shows "client_ok c' \<and> same_config c c'"
proof (cases "gkey c")
  case None
  obtain r1 c1 w1 where d: "discoverLocked lib net c w = (r1, c1, w1)" by (metis prod_cases3)
  note d' = discover_ok [OF d assms(2) None]
  show ?thesis
  proof (cases r1)
    case (Some e)
    with None d d' assms(1) show ?thesis by (auto simp: ensureKey_def scanAndBindLocked_def)
  next
    case n: None
    show ?thesis
    proof (cases "greeEncrypt lib (bind_inner lib (cid c1)) greeGenericKey")
      case None
      with n \<open>gkey c = None\<close> d d' assms(1) show ?thesis by (auto simp: ensureKey_def scanAndBindLocked_def)
    next
      case (Some enc)
      with n None d assms(1) have "bind_unit lib net c1 (envelope lib ''1'' (cid c1) enc) w1 = (r, c', w')"
        by (simp add: ensureKey_def scanAndBindLocked_def)
      from bind_unit_ok [OF this] d' n same_config_trans show ?thesis by blast
    qed
  qed
qed (use assms in \<open>simp add: ensureKey_def\<close>)

lemma exchange_pack_ok:
  assumes "exchange_pack lib net c inner w = (r, c', w')" "client_ok c"
  shows "client_ok c' \<and> same_config c c'"
  using assms unfolding exchange_pack_def Let_def
  by (auto simp: connLocked_def client_ok_def same_config_def
      split: option.splits prod.splits bool.splits if_splits)

lemma request_ok:
  assumes "request lib net c inner w = (r, c', w')" "client_ok c"
  shows "client_ok c' \<and> same_config c c'"
proof -
  obtain r1 c1 w1 where e: "ensureKey lib net c w = (r1, c1, w1)" by (metis prod_cases3)
  note e' = ensureKey_ok [OF e assms(2)]
  show ?thesis
  proof (cases r1)
    case None
    with e assms(1) have "exchange_pack lib net c1 inner w1 = (r, c', w')" by (simp add: request_def)
    from exchange_pack_ok [OF this] e' same_config_trans show ?thesis by blast
  qed (use e e' assms(1) in \<open>auto simp: request_def\<close>)
qed

lemma greset_ok: "client_ok (greset c) \<and> same_config c (greset c)"
  by (simp add: greset_def client_ok_def same_config_def)

lemma Status_ok:
  assumes "Status lib net now c w = (st, c', w')" "client_ok c"
  shows "client_ok c' \<and> same_config c c'"
proof -
  obtain r1 c1 w1 where e: "ensureKey lib net c w = (r1, c1, w1)" by (metis prod_cases3)
  note e' = ensureKey_ok [OF e assms(2)]
  obtain r2 c2 w2 where q: "request lib net c1 (status_inner lib (cid c1)) w1 = (r2, c2, w2)" by (metis prod_cases3)
  note q' = request_ok [OF q conjunct1 [OF e']]
  have "c' \<in> {c1, c2, greset c2}"
    using assms(1) e q by (cases r1; cases r2) (auto simp: Status_def Let_def)
  with e' q' greset_ok [of c2] same_config_trans show ?thesis by blast
qed

lemma Set_params_ok:
  assumes "Set_params lib net params c w = (r, c', w')" "client_ok c"
  shows "client_ok c' \<and> same_config c c'"
proof -
  obtain r2 c2 w2 where
    q: "request lib net c (cmd_inner lib (map (the \<circ> greeColumnFor \<circ> fst) params) (map snd params)) w = (r2, c2, w2)"
    by (metis prod_cases3)
  note q' = request_ok [OF q assms(2)]
  have "c' \<in> {c, c2, greset c2}"
    using assms(1) q by (auto simp: Set_params_def split: sum.splits if_splits)
  with q' greset_ok [of c2] same_config_trans assms(2) same_config_refl show ?thesis by blast
qed

text \<open>The clients a configuration can reach, over any network.\<close>

inductive client_reach :: "gree_lib \<Rightarrow> 'w gree_net \<Rightarrow> GreeConfig \<Rightarrow> gree_client \<Rightarrow> bool"
  for lib net cfg where
  start: "client_reach lib net cfg (newGreeClient cfg)"
| status: "client_reach lib net cfg c \<Longrightarrow> Status lib net now c w = (st, c', w') \<Longrightarrow> client_reach lib net cfg c'"
| set_params: "client_reach lib net cfg c \<Longrightarrow> Set_params lib net params c w = (r, c', w') \<Longrightarrow> client_reach lib net cfg c'"

lemma client_reach_ok:
  "client_reach lib net cfg c \<Longrightarrow> client_ok c \<and> same_config (newGreeClient cfg) c"
proof (induction rule: client_reach.induct)
  case start
  show ?case by (simp add: newGreeClient_def client_ok_def Let_def)
next
  case (status c now w st c' w')
  with Status_ok [OF status.hyps(2)] same_config_trans show ?case by blast
next
  case (set_params c params w r c' w')
  with Set_params_ok [OF set_params.hyps(2)] same_config_trans show ?case by blast
qed


section \<open>The addressing mode\<close>

lemma bindLocked_addr: "addr c = addr d \<Longrightarrow> bindLocked lib net c = bindLocked lib net d"
  by (intro ext) (simp add: bindLocked_def split: option.split prod.split)

lemma remembered_mode_is_the_one_that_answered:
  assumes "bind_unit lib net c req w = (r, c', w')"
  shows "case r of
      None \<Rightarrow> (\<exists>k w0. gkey c' = Some k \<and> bindLocked lib net c' req (sendTarget net c') w0 = (Inr k, w')
          \<and> (broadcastOnly c' \<noteq> broadcastOnly c \<longrightarrow>
               (\<exists>e. bindLocked lib net c req (sendTarget net c) w = (Inl e, w0) \<and> (broadcastOnly c' \<longrightarrow> isTimeout e))))
    | Some e \<Rightarrow> c' = c"
proof -
  have same: "bindLocked lib net (c\<lparr>broadcastOnly := b, gkey := k\<rparr>) = bindLocked lib net c"
    "bindLocked lib net (c\<lparr>gkey := k\<rparr>) = bindLocked lib net c"
    "sendTarget net (c\<lparr>gkey := k\<rparr>) = sendTarget net c" for b k
    by (rule bindLocked_addr; simp)+ (simp add: sendTarget_def broadcastAddr_def)
  obtain r1 w1 where b: "bindLocked lib net c req (sendTarget net c) w = (r1, w1)" by fastforce
  show ?thesis
  proof (cases r1)
    case (Inr k)
    with assms b have "r = None" "c' = c\<lparr>gkey := Some k\<rparr>" "w' = w1" by (auto simp: bind_unit_def)
    with b Inr same show ?thesis by auto
  next
    case (Inl e)
    obtain t where t: "t = (if broadcastOnly c then addr c else broadcastAddr net c)" by blast
    obtain r2 w2 where b2: "bindLocked lib net c req t w1 = (r2, w2)" by fastforce
    have "(c' = c \<and> r \<noteq> None) \<or> (\<exists>k. r = None \<and> r2 = Inr k \<and> c' = c\<lparr>broadcastOnly := \<not> broadcastOnly c, gkey := Some k\<rparr>
        \<and> w' = w2 \<and> (\<not> broadcastOnly c \<longrightarrow> isTimeout e))"
      using assms b Inl b2 t by (auto simp: bind_unit_def split: sum.splits if_splits)
    moreover have "sendTarget net (c\<lparr>broadcastOnly := \<not> broadcastOnly c, gkey := Some k\<rparr>) = t" for k
      by (simp add: t sendTarget_def broadcastAddr_def)
    ultimately show ?thesis using b Inl b2 same by auto
  qed
qed

section \<open>Witnesses\<close>

text \<open>
  A unit at one address: its first datagram announces the id, the later ones carry a key and a status.
  The block function is the identity and the JSON decoder knows these texts only.
\<close>

definition hello_text :: string where "hello_text = ''{hello---------}''"
definition reply_text :: string where "reply_text = ''{reply---------}''"

definition demo_unmarshal :: "string \<Rightarrow> jobject option" where
  "demo_unmarshal p = (if p = ''H'' then Some [''pack'' \<mapsto> JStr (std_encode hello_text)]
     else if p = ''R'' then Some [''pack'' \<mapsto> JStr (std_encode reply_text)]
     else if p = hello_text then Some [''mac'' \<mapsto> JStr ''AA-BB'']
     else if p = reply_text then Some [''key'' \<mapsto> JStr ''0123456789abcdef'', ''cols'' \<mapsto> JArr [JStr ''Pow'', JStr ''TemSen''],
        ''dat'' \<mapsto> JArr [JNum 1, JNum 63]]
     else None)"

definition demo_lib :: gree_lib where
  "demo_lib = \<lparr>quote = (\<lambda>s. s), unmarshal = demo_unmarshal, aes_enc = (\<lambda>_ b. b), aes_dec = (\<lambda>_ b. b)\<rparr>"

definition demo_net :: "nat gree_net" where
  "demo_net = \<lparr>resolve = (\<lambda>_. Some (''10.0.0.9'', 7000)), open_socket = (\<lambda>n. (True, n)), net_send = (\<lambda>_ _ n. (None, n)),
     net_reads = (\<lambda>n. ([Datagram (if n = 0 then ''H'' else ''R'') (''10.0.0.9'', 7000)], Suc n))\<rparr>"

definition demo_cfg :: GreeConfig where
  "demo_cfg = \<lparr>gHost = [], gMAC = ''aa:bb'', gPort = 0, gName = ''AC''\<rparr>"

definition demo_client :: gree_client where
  "demo_client = (newGreeClient demo_cfg)\<lparr>conn := True, addr := Some (''10.0.0.9'', 7000), cid := ''AA-BB'',
     gkey := Some ''0123456789abcdef''\<rparr>"

lemma demo_decrypt:
  assumes "aes_key_ok key"
  shows "greeDecrypt demo_lib (std_encode hello_text) key = Some hello_text"
    and "greeDecrypt demo_lib (std_encode reply_text) key = Some reply_text"
proof -
  have "ecb (\<lambda>b. b) hello_text = hello_text" "ecb (\<lambda>b. b) reply_text = reply_text"
    using ecb_block [of hello_text "\<lambda>b. b" "[]"] ecb_block [of reply_text "\<lambda>b. b" "[]"]
    by (simp_all add: hello_text_def reply_text_def)
  moreover have "trim_after_brace hello_text = hello_text" "trim_after_brace reply_text = reply_text"
    by (simp_all add: trim_after_brace_def hello_text_def reply_text_def)
  moreover have "length hello_text = 16" "length reply_text = 16"
    by (simp_all add: hello_text_def reply_text_def)
  ultimately show "greeDecrypt demo_lib (std_encode hello_text) key = Some hello_text"
    and "greeDecrypt demo_lib (std_encode reply_text) key = Some reply_text"
    using assms by (simp_all add: greeDecrypt_def demo_lib_def)
qed

lemma demo_keys: "aes_key_ok greeGenericKey" "aes_key_ok ''0123456789abcdef''"
  by (simp_all add: aes_key_ok_def greeGenericKey_def)

lemma demo_unpack:
  assumes "aes_key_ok key"
  shows "unpack demo_lib key ''H'' = Some [''mac'' \<mapsto> JStr ''AA-BB'']"
    and "unpack demo_lib key ''R'' = Some [''key'' \<mapsto> JStr ''0123456789abcdef'',
        ''cols'' \<mapsto> JArr [JStr ''Pow'', JStr ''TemSen''], ''dat'' \<mapsto> JArr [JNum 1, JNum 63]]"
proof -
  have ne: "std_encode hello_text \<noteq> []" "std_encode reply_text \<noteq> []"
    by (simp_all add: std_encode_def Let_def hello_text_def reply_text_def)
  have u: "unmarshal demo_lib = demo_unmarshal" by (simp add: demo_lib_def)
  have t: "demo_unmarshal hello_text = Some [''mac'' \<mapsto> JStr ''AA-BB'']"
    "demo_unmarshal reply_text = Some [''key'' \<mapsto> JStr ''0123456789abcdef'',
        ''cols'' \<mapsto> JArr [JStr ''Pow'', JStr ''TemSen''], ''dat'' \<mapsto> JArr [JNum 1, JNum 63]]"
    by (simp_all add: demo_unmarshal_def hello_text_def reply_text_def)
  have p: "demo_unmarshal ''H'' = Some [''pack'' \<mapsto> JStr (std_encode hello_text)]"
    "demo_unmarshal ''R'' = Some [''pack'' \<mapsto> JStr (std_encode reply_text)]"
    by (simp_all add: demo_unmarshal_def)
  show "unpack demo_lib key ''H'' = Some [''mac'' \<mapsto> JStr ''AA-BB'']"
    "unpack demo_lib key ''R'' = Some [''key'' \<mapsto> JStr ''0123456789abcdef'',
        ''cols'' \<mapsto> JArr [JStr ''Pow'', JStr ''TemSen''], ''dat'' \<mapsto> JArr [JNum 1, JNum 63]]"
    using ne by (simp_all add: unpack_def u p t str_field_def demo_decrypt [OF assms])
qed

lemma demo_encrypt: "aes_key_ok key \<Longrightarrow> greeEncrypt demo_lib t key \<noteq> None"
  by (simp add: greeEncrypt_def Let_def)

lemma demo_mac: "greeNormalizeMAC ''AA-BB'' = ''aabb''" "greeNormalizeMAC ''aa:bb'' = ''aabb''"
  by code_simp+

lemma demo_ensureKey: "ensureKey demo_lib demo_net (newGreeClient demo_cfg) 0 = (None, demo_client, 2)"
proof -
  obtain e1 where e: "greeEncrypt demo_lib (bind_inner demo_lib ''AA-BB'') greeGenericKey = Some e1"
    using demo_encrypt [OF demo_keys(1)] by blast
  let ?c = "(newGreeClient demo_cfg)\<lparr>conn := True, addr := Some (''10.0.0.9'', 7000), cid := ''AA-BB''\<rparr>"
  have d: "discoverLocked demo_lib demo_net (newGreeClient demo_cfg) 0 = (None, ?c, 1)"
    by (simp add: discoverLocked_def connLocked_def newGreeClient_def demo_cfg_def demo_net_def sendLocked_def
        readPackLocked_def demo_unpack [OF demo_keys(1)] unit_id_def str_field_def isOurUnit_def demo_mac)
  have b: "bind_unit demo_lib demo_net ?c r 1 = (None, demo_client, 2)" for r
    by (simp add: bind_unit_def bindLocked_def sendTarget_def sendLocked_def newGreeClient_def demo_cfg_def demo_net_def
        readReplyLocked_def readPackLocked_def demo_unpack [OF demo_keys(1)] str_field_def demo_client_def Let_def)
  have "gkey (newGreeClient demo_cfg) = None" by (simp add: newGreeClient_def Let_def)
  then show ?thesis using b [unfolded One_nat_def] by (simp add: ensureKey_def scanAndBindLocked_def d e)
qed

lemma pack_roundtrip_witness:
  "\<exists>ct. greeEncrypt demo_lib ''{power: 1}'' greeGenericKey = Some ct
     \<and> greeDecrypt demo_lib ct greeGenericKey = Some ''{power: 1}''"
  by (rule pack_roundtrip [OF demo_keys(1)]) (simp_all add: demo_lib_def)

theorem status_believes_only_the_unit_witness:
  "Power (fst (Status demo_lib (demo_net\<lparr>net_reads := \<lambda>n. ([Datagram ''R'' (''10.0.0.8'', 7000), ReadFailed,
       Datagram ''R'' (''10.0.0.9'', 7000)], n)\<rparr>) 5 demo_client 0)) = 1"
proof -
  obtain e1 where e: "greeEncrypt demo_lib (status_inner demo_lib (cid demo_client)) ''0123456789abcdef'' = Some e1"
    using demo_encrypt [OF demo_keys(2)] by blast
  let ?evs = "[Datagram ''R'' (''10.0.0.8'', 7000), ReadFailed, Datagram ''R'' (''10.0.0.9'', 7000)]"
  let ?net = "demo_net\<lparr>net_reads := \<lambda>n. (?evs, n)\<rparr>"
  have p: "gkey demo_client = Some ''0123456789abcdef''" "conn demo_client"
    "sendTarget ?net demo_client = Some (''10.0.0.9'', 7000)"
    "net_send ?net a t (0 :: nat) = (None, 0)" "net_reads ?net (0 :: nat) = (?evs, 0)" "\<forall>d. CtxDone d \<notin> set ?evs" for a t
    by (simp_all add: demo_client_def sendTarget_def newGreeClient_def Let_def demo_net_def)
  have r: "readPackLocked demo_lib ''0123456789abcdef'' (Datagram ''R'' src)
      = Inr ([''key'' \<mapsto> JStr ''0123456789abcdef'', ''cols'' \<mapsto> JArr [JStr ''Pow'', JStr ''TemSen''],
          ''dat'' \<mapsto> JArr [JNum 1, JNum 63]], src)" for src
    by (simp add: readPackLocked_def demo_unpack [OF demo_keys(2)])
  have "unit_replies demo_lib ''0123456789abcdef'' (addr demo_client) ?evs
      = [[''key'' \<mapsto> JStr ''0123456789abcdef'', ''cols'' \<mapsto> JArr [JStr ''Pow'', JStr ''TemSen''],
          ''dat'' \<mapsto> JArr [JNum 1, JNum 63]]]"
    by (simp add: unit_replies_def r demo_client_def) (simp add: readPackLocked_def)
  with status_believes_only_the_unit [OF p(1) e p(2,3,4,5,6), of 5] show ?thesis
    by (simp add: arr_field_def status_of_def int_of_float_def)
qed


lemma remembered_mode_is_the_one_that_answered_witness:
  "\<exists>c' w'. bind_unit demo_lib (demo_net\<lparr>net_reads := \<lambda>n. (if n = 0 then [ReadTimeout]
        else [Datagram ''R'' (''10.0.0.9'', 7000)], Suc n)\<rparr>) (demo_client\<lparr>gkey := None\<rparr>) ''b'' 0 = (None, c', w')
     \<and> broadcastOnly c' \<and> gkey c' = Some ''0123456789abcdef''"
proof -
  let ?net = "demo_net\<lparr>net_reads := \<lambda>n. (if n = 0 then [ReadTimeout] else [Datagram ''R'' (''10.0.0.9'', 7000)], Suc n)\<rparr>"
  have b: "bind_unit demo_lib ?net (demo_client\<lparr>gkey := None\<rparr>) ''b'' 0
      = (None, demo_client\<lparr>broadcastOnly := True\<rparr>, 2)"
    by (simp add: bind_unit_def bindLocked_def sendTarget_def sendLocked_def newGreeClient_def demo_net_def
        readReplyLocked_def readPackLocked_def demo_unpack [OF demo_keys(1)] str_field_def demo_client_def
        isTimeout_def broadcastAddr_def Let_def)
  from remembered_mode_is_the_one_that_answered [OF b] b show ?thesis
    by (simp add: demo_client_def)
qed

end
