(* ===== verification/HkClimate.thy ===== *)
theory HkClimate
  imports GreeSpec
begin

text \<open>
  \<open>hkclimate.go\<close>: the air conditioner as a HomeKit HeaterCooler with two mode switches.  The HAP
  constants are constructors; a float is a rational, so the two conversions are exact where Go rounds
  in the last bit.  The unit behind the accessory is an interface: \<open>gset\<close> sends parameters and
  \<open>gstatus\<close> is the last poll result.
\<close>

section \<open>The projection\<close>

definition greeSwingFull :: int where "greeSwingFull = 1"

datatype hc_target = TargetAuto | TargetHeat | TargetCool | TargetOther int
datatype hc_current = CurrentInactive | CurrentIdle | CurrentHeating | CurrentCooling
datatype display_units = UnitsCelsius | UnitsFahrenheit

record climateView =
  Active :: bool
  CurrentState :: hc_current
  TargetState :: hc_target
  CurrentTemperature :: rat
  TargetTemperature :: rat
  RotationSpeed :: rat
  SwingMode :: bool
  DisplayUnits :: display_units
  DryOn :: bool
  FanOnlyOn :: bool

definition celsius :: "int \<Rightarrow> int \<Rightarrow> rat" where
  "celsius t tempUnit = (if tempUnit \<noteq> 1 then of_int t else (of_int t - 32) * 5 / 9)"

text \<open>\<open>math.Round\<close>: halves away from zero.\<close>

definition math_round :: "rat \<Rightarrow> int" where
  "math_round q = (if q < 0 then - \<lfloor>- q + 1 / 2\<rfloor> else \<lfloor>q + 1 / 2\<rfloor>)"

definition greeTemp :: "rat \<Rightarrow> int \<Rightarrow> int" where
  "greeTemp c tempUnit = (if tempUnit \<noteq> 1 then math_round c else math_round (c * 9 / 5 + 32))"

definition homekitTargetState :: "int \<Rightarrow> hc_target \<Rightarrow> hc_target" where
  "homekitTargetState greeMode lastTarget =
    (if greeMode = greeModeCool then TargetCool else if greeMode = greeModeHeat then TargetHeat
     else if greeMode = greeModeAuto then TargetAuto else lastTarget)"

definition greeModeForTargetState :: "hc_target \<Rightarrow> int" where
  "greeModeForTargetState target = (case target of TargetHeat \<Rightarrow> greeModeHeat | TargetCool \<Rightarrow> greeModeCool
     | _ \<Rightarrow> greeModeAuto)"

definition autoHeaterCoolerState :: "GreeStatus \<Rightarrow> hc_current" where
  "autoHeaterCoolerState st = (if RoomTemp st = 0 \<or> RoomTemp st = SetTemp st then CurrentIdle
     else if RoomTemp st > SetTemp st then CurrentCooling else CurrentHeating)"

definition currentHeaterCoolerState :: "GreeStatus \<Rightarrow> hc_current" where
  "currentHeaterCoolerState st = (if Mode st = greeModeCool then CurrentCooling
     else if Mode st = greeModeHeat then CurrentHeating
     else if Mode st = greeModeAuto then autoHeaterCoolerState st else CurrentIdle)"

definition rotationSpeedForFan :: "int \<Rightarrow> rat" where
  "rotationSpeedForFan fan = of_int fan * 20"

definition fanForRotationSpeed :: "rat \<Rightarrow> int" where
  "fanForRotationSpeed pct = math_round (min (max pct 0) 100 / 20)"

definition climateViewOf :: "GreeStatus \<Rightarrow> hc_target \<Rightarrow> climateView" where
  "climateViewOf st lastTarget =
    (let on = (Power st = 1) in
     \<lparr>Active = on, CurrentState = (if on then currentHeaterCoolerState st else CurrentInactive),
      TargetState = homekitTargetState (Mode st) lastTarget,
      CurrentTemperature = celsius (if RoomTemp st = 0 then SetTemp st else RoomTemp st) (TempUnit st),
      TargetTemperature = celsius (SetTemp st) (TempUnit st),
      RotationSpeed = rotationSpeedForFan (FanSpeed st),
      SwingMode = (SwingV st = greeSwingFull),
      DisplayUnits = (if TempUnit st = 1 then UnitsFahrenheit else UnitsCelsius),
      DryOn = (on \<and> Mode st = greeModeDry), FanOnlyOn = (on \<and> Mode st = greeModeFan)\<rparr>)"

section \<open>The accessory\<close>

text \<open>\<open>tile\<close> is what the characteristics show; before the first reading it is HAP's defaults.\<close>

record hk_climate =
  tile :: climateView
  lastTarget :: hc_target

definition Update :: "GreeStatus \<Rightarrow> hk_climate \<Rightarrow> hk_climate" where
  "Update st c = (if \<not> Online st then c
     else (let v = climateViewOf st (lastTarget c) in c\<lparr>tile := v, lastTarget := TargetState v\<rparr>))"

definition newHKClimate :: "climateView \<Rightarrow> GreeStatus \<Rightarrow> hk_climate" where
  "newHKClimate hap_defaults st = Update st \<lparr>tile = hap_defaults, lastTarget = TargetCool\<rparr>"

type_synonym 'u gree_setter = "(string \<times> int) list \<Rightarrow> 'u \<Rightarrow> bool \<times> 'u"

definition apply_params ::
  "'u gree_setter \<Rightarrow> ('u \<Rightarrow> GreeStatus) \<Rightarrow> (string \<times> int) list \<Rightarrow> hk_climate \<Rightarrow> 'u \<Rightarrow> bool \<times> hk_climate \<times> 'u" where
  "apply_params gset gstatus params c u = (case gset params u of
      (False, u) \<Rightarrow> (False, c, u) | (True, u) \<Rightarrow> (True, Update (gstatus u) c, u))"

definition applyModeSwitch ::
  "'u gree_setter \<Rightarrow> ('u \<Rightarrow> GreeStatus) \<Rightarrow> bool \<Rightarrow> int \<Rightarrow> hk_climate \<Rightarrow> 'u \<Rightarrow> bool \<times> hk_climate \<times> 'u" where
  "applyModeSwitch gset gstatus on mode c u =
    (if \<not> on then apply_params gset gstatus [(''mode'', greeModeForTargetState (lastTarget c))] c u
     else apply_params gset gstatus [(''power'', 1), (''mode'', mode)] c u)"

text \<open>The writes the accessory binds; both thresholds have one handler.\<close>

datatype climate_write = WriteActive bool | WriteTarget hc_target | WriteThreshold rat | WriteSpeed rat
  | WriteSwing bool | WriteDry bool | WriteFanOnly bool

definition bindWrites ::
  "'u gree_setter \<Rightarrow> ('u \<Rightarrow> GreeStatus) \<Rightarrow> climate_write \<Rightarrow> hk_climate \<Rightarrow> 'u \<Rightarrow> bool \<times> hk_climate \<times> 'u" where
  "bindWrites gset gstatus wr c u = (case wr of
      WriteActive v \<Rightarrow> apply_params gset gstatus [(''power'', if v then 1 else 0)] c u
    | WriteTarget v \<Rightarrow>
        apply_params gset gstatus [(''power'', 1), (''mode'', greeModeForTargetState v)] (c\<lparr>lastTarget := v\<rparr>) u
    | WriteThreshold v \<Rightarrow> apply_params gset gstatus [(''temp'', greeTemp v (TempUnit (gstatus u)))] c u
    | WriteSpeed v \<Rightarrow> apply_params gset gstatus [(''fan'', fanForRotationSpeed v)] c u
    | WriteSwing v \<Rightarrow> apply_params gset gstatus [(''swing_v'', if v then greeSwingFull else 0)] c u
    | WriteDry on \<Rightarrow> applyModeSwitch gset gstatus on greeModeDry c u
    | WriteFanOnly on \<Rightarrow> applyModeSwitch gset gstatus on greeModeFan c u)"

section \<open>The unit behind the accessory\<close>

text \<open>
  What a controller owes the accessory: a command with a name it does not know is refused, and a refused
  command does not touch the last poll result.
\<close>

locale gree_device =
  fixes gset :: "'u gree_setter" and gstatus :: "'u \<Rightarrow> GreeStatus"
  assumes unknown_refused: "p \<in> set params \<Longrightarrow> greeColumnFor (fst p) = None \<Longrightarrow> \<not> fst (gset params u)"
    and refused_keeps_status: "gset params u = (False, u') \<Longrightarrow> gstatus u' = gstatus u"
begin

lemma refused_write:
  assumes "bindWrites gset gstatus wr c u = (False, c', u')"
  shows "tile c' = tile c" "gstatus u' = gstatus u"
  using assms refused_keeps_status unfolding bindWrites_def applyModeSwitch_def apply_params_def
  by (auto split: climate_write.splits if_splits prod.splits bool.splits)

lemma swing_refused: "\<exists>u'. bindWrites gset gstatus (WriteSwing v) c u = (False, c, u')"
proof -
  obtain r u' where g: "gset [(''swing_v'', if v then greeSwingFull else 0)] u = (r, u')" by fastforce
  have "\<not> fst (gset [(''swing_v'', if v then greeSwingFull else 0)] u)"
    by (rule unknown_refused [of "(''swing_v'', if v then greeSwingFull else 0)"]) (auto simp: greeColumnFor_def)
  with g show ?thesis by (simp add: bindWrites_def apply_params_def)
qed

lemma accepted_write:
  assumes "bindWrites gset gstatus wr c u = (True, c', u')" "Online (gstatus u')"
  shows "\<exists>t. tile c' = climateViewOf (gstatus u') t \<and> lastTarget c' = TargetState (tile c')
    \<and> t = (case wr of WriteTarget v \<Rightarrow> v | _ \<Rightarrow> lastTarget c)"
  using assms unfolding bindWrites_def applyModeSwitch_def apply_params_def
  by (auto simp: Update_def Let_def split: climate_write.splits if_splits prod.splits bool.splits)

end

text \<open>The controller of \<open>gree.go\<close>, with its network, as such a unit.\<close>

definition ctl_set :: "gree_lib \<Rightarrow> 'w gree_net \<Rightarrow> int \<Rightarrow> (gree_ctl \<times> 'w) gree_setter" where
  "ctl_set lib net now params u = (case Set_ctl lib net now params (fst u) (snd u) of
      (e, g, w) \<Rightarrow> (e = None, (g, w)))"

definition ctl_status :: "gree_ctl \<times> 'w \<Rightarrow> GreeStatus" where
  "ctl_status u = gstat (fst u)"

interpretation gd: gree_device "ctl_set lib net now" ctl_status
  for lib and net :: "'w gree_net" and now
proof
  fix p and params :: "(string \<times> int) list" and u :: "gree_ctl \<times> 'w"
  assume "p \<in> set params" "greeColumnFor (fst p) = None"
  then have "\<exists>p \<in> set params. greeColumnFor (fst p) = None" by blast
  then show "\<not> fst (ctl_set lib net now params u)"
    by (simp add: ctl_set_def Set_ctl_def Set_params_def)
next
  fix params :: "(string \<times> int) list" and u u' :: "gree_ctl \<times> 'w"
  assume "ctl_set lib net now params u = (False, u')"
  then show "ctl_status u' = ctl_status u"
    by (auto simp: ctl_set_def ctl_status_def Set_ctl_def split: prod.splits option.splits)
qed

section \<open>Lemmas\<close>

lemma math_round_int [simp]: "math_round (of_int n) = n"
proof (cases "of_int n < (0 :: rat)")
  case True
  have "\<lfloor>- of_int n + 1 / 2 :: rat\<rfloor> = - n" by linarith
  with True show ?thesis by (simp add: math_round_def)
next
  case False
  have "\<lfloor>of_int n + 1 / 2 :: rat\<rfloor> = n" by linarith
  with False show ?thesis by (simp add: math_round_def)
qed

lemma math_round_close: "\<bar>of_int (math_round q) - q\<bar> \<le> 1 / 2"
proof (cases "q < 0")
  case True
  then have "of_int (math_round q) = - (of_int \<lfloor>- q + 1 / 2\<rfloor> :: rat)" by (simp add: math_round_def)
  then show ?thesis by linarith
next
  case False
  then have "math_round q = \<lfloor>q + 1 / 2\<rfloor>" by (simp add: math_round_def)
  then show ?thesis by linarith
qed

section \<open>Properties\<close>

lemma set_point_roundtrip:
  "greeTemp (celsius t u) u = t
   \<and> \<bar>celsius (greeTemp q u) u - q\<bar> \<le> (if u = 1 then 5 / 18 else 1 / 2)"
proof -
  have f: "(of_int t - 32) * 5 / 9 * 9 / 5 + 32 = (of_int t :: rat)" by (simp add: field_simps)
  have c: "\<bar>of_int (math_round (q * 9 / 5 + 32)) - (q * 9 / 5 + 32)\<bar> \<le> 1 / 2" by (rule math_round_close)
  have "\<bar>(of_int (math_round (q * 9 / 5 + 32)) - 32) * 5 / 9 - q\<bar> \<le> 5 / 18"
    using c unfolding abs_le_iff by (simp add: field_simps)
  then show ?thesis using math_round_close [of q] f by (simp add: greeTemp_def celsius_def)
qed

lemma fan_speed_roundtrip:
  "(0 \<le> f \<and> f \<le> 5 \<longrightarrow> fanForRotationSpeed (rotationSpeedForFan f) = f)
   \<and> 0 \<le> fanForRotationSpeed q \<and> fanForRotationSpeed q \<le> 5"
proof -
  have "min (max (of_int f * 20) 0) 100 / 20 = (of_int f :: rat)" if "0 \<le> f" "f \<le> 5"
  proof -
    have "(0 :: rat) \<le> of_int f * 20" "of_int f * 20 \<le> (100 :: rat)" using that by simp_all
    then show ?thesis by (simp add: min_def max_def)
  qed
  moreover have "0 \<le> math_round (min (max q 0) 100 / 20) \<and> math_round (min (max q 0) 100 / 20) \<le> 5"
  proof -
    let ?x = "min (max q 0) 100 / 20"
    have "0 \<le> ?x" "?x \<le> 5" by auto
    then show ?thesis unfolding math_round_def by (auto simp: le_floor_iff floor_le_iff not_less)
  qed
  ultimately show ?thesis by (simp add: fanForRotationSpeed_def rotationSpeedForFan_def)
qed

lemma swing_write_always_fails:
  "\<exists>u'. bindWrites (ctl_set lib net now) ctl_status (WriteSwing v) c u = (False, c, u') \<and> ctl_status u' = ctl_status u"
  using gd.swing_refused [of lib net now v c u] gd.refused_write(2) by blast

lemma climate_tile_tells_the_truth:
  assumes "bindWrites (ctl_set lib net now) ctl_status wr c u = (r, c', u')"
  shows "(r \<and> Online (ctl_status u') \<longrightarrow> lastTarget c' = TargetState (tile c')
      \<and> tile c' = climateViewOf (ctl_status u') (case wr of WriteTarget v \<Rightarrow> v | _ \<Rightarrow> lastTarget c))
    \<and> (\<not> r \<longrightarrow> tile c' = tile c \<and> ctl_status u' = ctl_status u)"
proof (cases r)
  case True
  with assms gd.accepted_write [of lib net now wr c u c' u'] show ?thesis by auto
next
  case False
  with assms gd.refused_write [of lib net now wr c u c' u'] show ?thesis by auto
qed

lemma climate_tile_tells_the_truth_witness:
  "\<exists>c' u'. bindWrites (ctl_set demo_lib demo_net 5) ctl_status (WriteSwing True)
       \<lparr>tile = climateViewOf zero_status TargetCool, lastTarget = TargetHeat\<rparr> (NewGreeController demo_cfg, 0) = (False, c', u')
     \<and> tile c' = climateViewOf zero_status TargetCool"
proof -
  let ?c = "\<lparr>tile = climateViewOf zero_status TargetCool, lastTarget = TargetHeat\<rparr>"
  obtain u' where b: "bindWrites (ctl_set demo_lib demo_net 5) ctl_status (WriteSwing True) ?c
      (NewGreeController demo_cfg, 0) = (False, ?c, u')"
    using gd.swing_refused by blast
  from climate_tile_tells_the_truth [OF b] b show ?thesis by auto
qed

lemma fan_speed_roundtrip_witness:
  "fanForRotationSpeed (rotationSpeedForFan 3) = 3"
  using fan_speed_roundtrip [of 3] by simp

end
