(* ===== verification/HkLock.thy ===== *)
theory HkLock
  imports Prelude
begin

text \<open>
  \<open>hklock.go\<close>: the lock tile of a door station.  The door opener's answer and the timer are the
  environment's; a timer is a number, \<open>live\<close> the ones neither stopped nor fired.  The first section has
  the operations as the code composes them, the second lets any number of them interleave at their
  atomic actions.
\<close>

section \<open>Operations\<close>

datatype lock_state = Secured | Unsecured

record hk_lock =
  LockCurrentState :: lock_state
  LockTargetState :: lock_state
  cancelPending :: "nat option"
  live :: "nat set"
  next_timer :: nat

definition newHKLock :: hk_lock where
  "newHKLock = \<lparr>LockCurrentState = Secured, LockTargetState = Secured, cancelPending = None, live = {}, next_timer = 0\<rparr>"

definition cancelLocked :: "hk_lock \<Rightarrow> hk_lock" where
  "cancelLocked l = (case cancelPending l of
      None \<Rightarrow> l | Some i \<Rightarrow> l\<lparr>live := live l - {i}, cancelPending := None\<rparr>)"

definition scheduleRelock :: "hk_lock \<Rightarrow> hk_lock" where
  "scheduleRelock l = (let l = cancelLocked l in
     l\<lparr>cancelPending := Some (next_timer l), live := insert (next_timer l) (live l), next_timer := Suc (next_timer l)\<rparr>)"

definition relock_callback :: "hk_lock \<Rightarrow> hk_lock" where
  "relock_callback l = l\<lparr>LockCurrentState := Secured, LockTargetState := Secured\<rparr>"

definition show_state :: "lock_state \<Rightarrow> hk_lock \<Rightarrow> hk_lock" where
  "show_state v l = l\<lparr>LockCurrentState := v\<rparr>"

text \<open>\<open>opened\<close> is whether the door station accepted; the first component whether the write succeeds.\<close>

definition unlock :: "bool \<Rightarrow> hk_lock \<Rightarrow> bool \<times> hk_lock" where
  "unlock opened l = (if \<not> opened then (False, l) else (True, scheduleRelock (show_state Unsecured l)))"

definition secure :: "hk_lock \<Rightarrow> hk_lock" where
  "secure l = show_state Secured (cancelLocked l)"

definition setTarget :: "lock_state \<Rightarrow> bool \<Rightarrow> hk_lock \<Rightarrow> bool \<times> hk_lock" where
  "setTarget v opened l = (if v = Secured then (True, secure l) else unlock opened l)"

section \<open>Concurrent writers and timers\<close>

text \<open>
  How many unlocks are between showing the state and scheduling, secures between cancelling and showing,
  and callbacks started but not yet run.
\<close>

record lock_sys =
  lock :: hk_lock
  unlocking :: nat
  securing :: nat
  firing :: nat

definition lock_init :: lock_sys where
  "lock_init = \<lparr>lock = newHKLock, unlocking = 0, securing = 0, firing = 0\<rparr>"

inductive lock_step :: "lock_sys \<Rightarrow> lock_sys \<Rightarrow> bool" where
  unlock_shown: "lock_step s (s\<lparr>lock := show_state Unsecured (lock s), unlocking := Suc (unlocking s)\<rparr>)"
| unlock_scheduled: "unlocking s = Suc n \<Longrightarrow> lock_step s (s\<lparr>lock := scheduleRelock (lock s), unlocking := n\<rparr>)"
| secure_cancelled: "lock_step s (s\<lparr>lock := cancelLocked (lock s), securing := Suc (securing s)\<rparr>)"
| secure_shown: "securing s = Suc n \<Longrightarrow> lock_step s (s\<lparr>lock := show_state Secured (lock s), securing := n\<rparr>)"
| timer_fires: "i \<in> live (lock s) \<Longrightarrow>
    lock_step s (s\<lparr>lock := (lock s)\<lparr>live := live (lock s) - {i}\<rparr>, firing := Suc (firing s)\<rparr>)"
| callback_runs: "firing s = Suc n \<Longrightarrow> lock_step s (s\<lparr>lock := relock_callback (lock s), firing := n\<rparr>)"

definition lock_reachable :: "lock_sys \<Rightarrow> bool" where
  "lock_reachable s \<longleftrightarrow> lock_step\<^sup>*\<^sup>* lock_init s"

lemmas lock_ops = show_state_def scheduleRelock_def cancelLocked_def relock_callback_def

text \<open>
  Only the latest timer can be live, and a tile that shows the door open has a relock pending or
  something in flight.
\<close>

definition lock_inv :: "lock_sys \<Rightarrow> bool" where
  "lock_inv s \<longleftrightarrow>
     (let l = lock s in
      (\<forall>i \<in> live l. cancelPending l = Some i) \<and> (\<forall>i. cancelPending l = Some i \<longrightarrow> Suc i = next_timer l)
      \<and> (LockCurrentState l = Unsecured \<longrightarrow> unlocking s + securing s + firing s > 0 \<or> live l \<noteq> {}))"

lemma lock_inv_init: "lock_inv lock_init"
  by (simp add: lock_inv_def lock_init_def newHKLock_def)

lemma lock_inv_step:
  assumes "lock_step s s'" "lock_inv s"
  shows "lock_inv s'"
  using assms
proof (cases rule: lock_step.cases)
  case unlock_scheduled
  with assms(2) show ?thesis by (auto simp: lock_inv_def lock_ops Let_def split: option.splits)
next
  case secure_cancelled
  with assms(2) show ?thesis by (auto simp: lock_inv_def lock_ops Let_def split: option.splits)
next
  case (timer_fires i)
  have p: "cancelPending (lock s) = Some j" if "j \<in> live (lock s)" for j
    using assms(2) that by (auto simp: lock_inv_def Let_def)
  have "j = i" if "j \<in> live (lock s)" for j using p [OF that] p [OF timer_fires(2)] by simp
  with timer_fires(2) have "live (lock s) = {i}" by blast
  with timer_fires assms(2) show ?thesis by (auto simp: lock_inv_def Let_def)
qed (auto simp: lock_inv_def lock_ops Let_def)

lemma lock_inv_reachable: "lock_reachable s \<Longrightarrow> lock_inv s"
  unfolding lock_reachable_def
  by (induction rule: rtranclp_induct) (auto intro: lock_inv_init lock_inv_step)

text \<open>
  C9: However Home app requests and relock timers interleave, at most the newest relock timer is
  alive, and when no operation is in progress an unlocked tile has exactly that timer alive and
  cancellable.
\<close>

theorem open_tile_always_has_a_relock:
  assumes "lock_reachable s"
  shows "live (lock s) \<subseteq> {next_timer (lock s) - 1}
    \<and> (LockCurrentState (lock s) = Unsecured \<longrightarrow> unlocking s = 0 \<longrightarrow> securing s = 0 \<longrightarrow> firing s = 0 \<longrightarrow>
         live (lock s) = {next_timer (lock s) - 1} \<and> cancelPending (lock s) = Some (next_timer (lock s) - 1))"
proof -
  have i: "lock_inv s" by (rule lock_inv_reachable [OF assms])
  then have sub: "live (lock s) \<subseteq> {next_timer (lock s) - 1}"
    by (auto simp: lock_inv_def Let_def)
  moreover have "cancelPending (lock s) = Some (next_timer (lock s) - 1)" if "live (lock s) \<noteq> {}"
    using i that sub by (auto simp: lock_inv_def Let_def)
  ultimately show ?thesis using i by (auto simp: lock_inv_def Let_def)
qed

text \<open>The sequential operations are runs of the interleaved one.\<close>

lemma unlock_is_a_run:
  "lock_step\<^sup>*\<^sup>* s (s\<lparr>lock := snd (unlock opened (lock s))\<rparr>)"
proof (cases opened)
  case True
  let ?m = "s\<lparr>lock := show_state Unsecured (lock s), unlocking := Suc (unlocking s)\<rparr>"
  have "lock_step s ?m" by (rule lock_step.unlock_shown)
  moreover have "lock_step ?m (?m\<lparr>lock := scheduleRelock (lock ?m), unlocking := unlocking s\<rparr>)"
    by (rule lock_step.unlock_scheduled) simp
  ultimately show ?thesis using True by (simp add: unlock_def)
qed (simp add: unlock_def)

lemma secure_is_a_run: "lock_step\<^sup>*\<^sup>* s (s\<lparr>lock := secure (lock s)\<rparr>)"
proof -
  let ?m = "s\<lparr>lock := cancelLocked (lock s), securing := Suc (securing s)\<rparr>"
  have "lock_step s ?m" by (rule lock_step.secure_cancelled)
  moreover have "lock_step ?m (?m\<lparr>lock := show_state Secured (lock ?m), securing := securing s\<rparr>)"
    by (rule lock_step.secure_shown) simp
  ultimately show ?thesis by (simp add: secure_def)
qed

lemma setTarget_is_a_run: "lock_step\<^sup>*\<^sup>* s (s\<lparr>lock := snd (setTarget v opened (lock s))\<rparr>)"
  using unlock_is_a_run [of s opened] secure_is_a_run [of s] by (auto simp: setTarget_def)

theorem open_tile_always_has_a_relock_witness:
  "live (snd (setTarget Unsecured True (snd (setTarget Unsecured True newHKLock)))) = {1}"
proof -
  let ?s = "lock_init\<lparr>lock := snd (setTarget Unsecured True (snd (setTarget Unsecured True newHKLock)))\<rparr>"
  have "lock_step\<^sup>*\<^sup>* lock_init ?s"
    using rtranclp_trans [OF setTarget_is_a_run setTarget_is_a_run [of "lock_init\<lparr>lock := _\<rparr>"]]
    by (simp add: lock_init_def)
  then have "lock_reachable ?s" by (simp add: lock_reachable_def)
  from open_tile_always_has_a_relock [OF this] show ?thesis
    by (simp add: lock_init_def newHKLock_def setTarget_def unlock_def lock_ops Let_def)
qed

end
