(* ===== verification/HkGate.thy ===== *)
theory HkGate
  imports CentsysSpec
begin

text \<open>
  \<open>hkgate.go\<close>: the garage-door tile of the gate, and the tile behind the controller's telemetry.
\<close>

section \<open>The tile\<close>

datatype door_state = DoorOpen | DoorClosed | DoorOpening | DoorClosing | DoorStopped

record hk_gate =
  CurrentDoorState :: door_state
  TargetOpen :: bool

definition gate_apply :: "gateStatus \<Rightarrow> hk_gate \<Rightarrow> hk_gate" where
  "gate_apply s g = (case s of
      gateOpen \<Rightarrow> g\<lparr>CurrentDoorState := DoorOpen, TargetOpen := True\<rparr>
    | gateClosed \<Rightarrow> g\<lparr>CurrentDoorState := DoorClosed, TargetOpen := False\<rparr>
    | gateOpening \<Rightarrow> g\<lparr>CurrentDoorState := DoorOpening, TargetOpen := True\<rparr>
    | gateClosing \<Rightarrow> g\<lparr>CurrentDoorState := DoorClosing, TargetOpen := False\<rparr>
    | gateStopped \<Rightarrow> g\<lparr>CurrentDoorState := DoorStopped\<rparr>
    | gateUnknown \<Rightarrow> g)"

definition newHKGate :: "gateStatus \<Rightarrow> hk_gate" where
  "newHKGate s = gate_apply s \<lparr>CurrentDoorState = DoorClosed, TargetOpen = False\<rparr>"

text \<open>\<open>accepted\<close> is whether the controller's \<open>Open\<close> succeeded; the first component whether the write did.\<close>

definition gate_setTarget :: "bool \<Rightarrow> bool \<Rightarrow> hk_gate \<Rightarrow> bool \<times> hk_gate" where
  "gate_setTarget accepted want_open g =
    (if \<not> accepted then (False, g)
     else (True, g\<lparr>CurrentDoorState := (if want_open then DoorOpening else DoorClosing)\<rparr>))"

section \<open>Controller and tile together\<close>

text \<open>A message of the broker, and what the listener makes of it: \<open>Update\<close> gets each new update.\<close>

definition telemetry :: "string \<Rightarrow> string \<times> byte list \<Rightarrow> centsys_ctl \<times> hk_gate \<Rightarrow> centsys_ctl \<times> hk_gate" where
  "telemetry serial m cg = (let c' = follow_message serial (fst m) (snd m) (fst cg)
     in (c', fold gate_apply (drop (length (updates (fst cg))) (updates c')) (snd cg)))"

lemma follow_message_updates:
  "updates (follow_message serial topic d c)
    = updates c @ (if topic = serial @ ''/deviceOverview'' \<and> decodeOverview d \<notin> {gateUnknown, gstatus c} \<and> listening c
        then [decodeOverview d] else [])"
  by (simp add: follow_message_def setStatus_def Let_def)

lemma updates_grow: "prefix (updates c) (updates (fold (\<lambda>m. follow_message serial (fst m) (snd m)) ms c))"
proof (induction ms arbitrary: c)
  case (Cons m ms)
  have "prefix (updates c) (updates (follow_message serial (fst m) (snd m) c))"
    by (simp add: follow_message_updates)
  with Cons show ?case using prefix_order.trans by fastforce
qed simp

lemma telemetry_fold:
  "fold (telemetry serial) ms (c, g)
    = (fold (\<lambda>m. follow_message serial (fst m) (snd m)) ms c,
       fold gate_apply (drop (length (updates c)) (updates (fold (\<lambda>m. follow_message serial (fst m) (snd m)) ms c))) g)"
proof (induction ms arbitrary: c g)
  case (Cons m ms)
  let ?c = "follow_message serial (fst m) (snd m) c"
  let ?fm = "\<lambda>m. follow_message serial (fst m) (snd m)"
  obtain us where us: "updates (fold ?fm ms ?c) = updates ?c @ us"
    using updates_grow [of ?c] unfolding prefix_def by blast
  obtain ds where ds: "updates ?c = updates c @ ds"
    using updates_grow [of c serial "[m]"] by (auto simp: prefix_def)
  have "telemetry serial m (c, g) = (?c, fold gate_apply ds g)" by (simp add: telemetry_def ds)
  then show ?case by (simp add: Cons.IH us ds)
qed simp

lemma gate_apply_idem [simp]: "gate_apply s (gate_apply s g) = gate_apply s g"
  by (simp add: gate_apply_def split: gateStatus.splits)

lemma fold_gate_apply_remdups: "fold gate_apply (remdups_adj ss) g = fold gate_apply ss g"
  by (induction ss arbitrary: g rule: remdups_adj.induct) auto

text \<open>
  C35: Under any sequence of broker messages the gate's tile is what applying the known statuses of
  its overview frames to a fresh tile gives: the composition of telemetry, status and tile refines
  that list.
\<close>

theorem gate_tile_follows_telemetry:
  assumes "listening c" "gstatus c = gateUnknown" "updates c = []"
  shows "snd (fold (telemetry serial) ms (c, newHKGate (CurrentStatus c)))
    = fold gate_apply (known_statuses serial ms) (newHKGate gateUnknown)"
  using follow_messages [of c "[]" serial ms] assms
  by (simp add: telemetry_fold CurrentStatus_def fold_gate_apply_remdups)

text \<open>
  A trigger that the gate accepted without moving: the tile keeps showing the motion, because the
  controller forwards changes only.
\<close>

lemma accepted_trigger_without_motion_is_never_corrected:
  assumes "gstatus c = gateClosed"
    and "\<forall>m \<in> set ms. fst m = serial @ ''/deviceOverview'' \<longrightarrow> decodeOverview (snd m) \<in> {gateClosed, gateUnknown}"
  shows "CurrentDoorState (snd (fold (telemetry serial) ms (c, snd (gate_setTarget True True g)))) = DoorOpening"
proof -
  have "fold (telemetry serial) ms (c, g') = (c, g')" if "gstatus c = gateClosed" for g'
    using assms(2)
  proof (induction ms)
    case (Cons m ms)
    have "follow_message serial (fst m) (snd m) c = c"
      using Cons.prems that by (cases c) (auto simp: follow_message_def setStatus_def Let_def)
    with Cons show ?case by (simp add: telemetry_def)
  qed simp
  with assms(1) show ?thesis by (simp add: gate_setTarget_def)
qed

theorem gate_tile_follows_telemetry_witness:
  "snd (fold (telemetry ''S1'') [(''S1/deviceOverview'', replicate 28 2), (''S1/deviceOverview'', replicate 28 5)]
     (sample_gate, newHKGate (CurrentStatus sample_gate))) = \<lparr>CurrentDoorState = DoorStopped, TargetOpen = True\<rparr>"
proof -
  have "listening sample_gate" "gstatus sample_gate = gateUnknown" "updates sample_gate = []"
    by (simp_all add: sample_gate_def)
  from gate_tile_follows_telemetry [OF this, of "''S1''" "[(''S1/deviceOverview'', replicate 28 2),
      (''S1/deviceOverview'', replicate 28 5)]"]
  show ?thesis
    by (simp add: known_statuses_def decodeOverview_def garageStatus_def newHKGate_def gate_apply_def)
qed

lemma accepted_trigger_without_motion_is_never_corrected_witness:
  "CurrentDoorState (snd (fold (telemetry ''S1'') (replicate 3 (''S1/deviceOverview'', replicate 28 3))
     (sample_gate\<lparr>gstatus := gateClosed\<rparr>, snd (gate_setTarget True True (newHKGate gateClosed))))) = DoorOpening"
  by (rule accepted_trigger_without_motion_is_never_corrected)
     (simp_all add: decodeOverview_def garageStatus_def)

end
