(* ===== verification/HkBridge.thy ===== *)
theory HkBridge
  imports Config
begin

text \<open>
  \<open>hkbridge.go\<close>: the accessories of the bridge and their instance ids.  An accessory is its id, kind,
  name and serial number; its services belong to the tiles.
\<close>

definition bridgeAID :: nat where "bridgeAID = 1"
definition firstLockAID :: nat where "firstLockAID = 2"
definition climateAID :: nat where "climateAID = 100"
definition gateAID :: nat where "gateAID = 200"
definition bridgeName :: string where "bridgeName = ''camonitor''"

datatype accessory_type = TypeBridge | TypeDoorLock | TypeAirConditioner | TypeGarageDoorOpener | TypeVideoDoorbell

record accessory =
  aid :: nat
  acc_type :: accessory_type
  acc_name :: string
  acc_serial :: string

definition newLockAccessory :: "StreamConfig \<Rightarrow> nat \<Rightarrow> accessory" where
  "newLockAccessory s a = \<lparr>aid = a, acc_type = TypeDoorLock, acc_name = (if sname s = [] then sid s else sname s),
     acc_serial = sid s\<rparr>"

definition newClimateAccessory :: "string \<Rightarrow> accessory" where
  "newClimateAccessory nm = \<lparr>aid = climateAID, acc_type = TypeAirConditioner,
     acc_name = (if nm = [] then ''Air Conditioner'' else nm), acc_serial = ''gree''\<rparr>"

definition newGateAccessory :: "string \<Rightarrow> accessory" where
  "newGateAccessory nm = \<lparr>aid = gateAID, acc_type = TypeGarageDoorOpener,
     acc_name = (if nm = [] then ''Gate'' else nm), acc_serial = ''centsys-gate''\<rparr>"

fun lock_accessories :: "StreamConfig list \<Rightarrow> nat \<Rightarrow> accessory list" where
  "lock_accessories [] a = []"
| "lock_accessories (s # ss) a =
     (if \<not> door s then lock_accessories ss a else newLockAccessory s a # lock_accessories ss (Suc a))"

text \<open>\<open>gree\<close> and \<open>gate\<close> are the names of the devices, when there are any.\<close>

definition buildBridgeAccessories ::
  "StreamConfig list \<Rightarrow> string option \<Rightarrow> string option \<Rightarrow> accessory \<times> accessory list" where
  "buildBridgeAccessories ss gree gate =
    (\<lparr>aid = bridgeAID, acc_type = TypeBridge, acc_name = bridgeName, acc_serial = bridgeName\<rparr>,
     lock_accessories ss firstLockAID
     @ (case gree of None \<Rightarrow> [] | Some nm \<Rightarrow> [newClimateAccessory nm])
     @ (case gate of None \<Rightarrow> [] | Some nm \<Rightarrow> [newGateAccessory nm]))"

lemma lock_aids: "map aid (lock_accessories ss a) = [a..<a + length (filter door ss)]"
proof (induction ss arbitrary: a)
  case (Cons s ss)
  then show ?case by (cases "door s") (simp_all add: newLockAccessory_def upt_conv_Cons del: upt_Suc)
qed simp

text \<open>The ids collide exactly beyond 98 doors with an air conditioner, or 198 with a gate.\<close>

lemma accessory_ids_collide_beyond_98_doors:
  "case buildBridgeAccessories ss gree gate of (b, children) \<Rightarrow>
     distinct (map aid (b # children))
       \<longleftrightarrow> (gree \<noteq> None \<longrightarrow> length (filter door ss) \<le> 98) \<and> (gate \<noteq> None \<longrightarrow> length (filter door ss) \<le> 198)"
proof -
  have "map aid (snd (buildBridgeAccessories ss gree gate)) = [2..<2 + length (filter door ss)]
      @ (if gree = None then [] else [100]) @ (if gate = None then [] else [200])"
    by (simp add: buildBridgeAccessories_def lock_aids newClimateAccessory_def newGateAccessory_def
        firstLockAID_def climateAID_def gateAID_def split: option.split)
  moreover have "aid (fst (buildBridgeAccessories ss gree gate)) = 1"
    by (simp add: buildBridgeAccessories_def bridgeAID_def)
  ultimately have ids: "map aid (b # children) = 1 # [2..<2 + length (filter door ss)]
      @ (if gree = None then [] else [100]) @ (if gate = None then [] else [200])"
    if "buildBridgeAccessories ss gree gate = (b, children)" for b children
    using that by simp
  obtain b children where e: "buildBridgeAccessories ss gree gate = (b, children)" by fastforce
  show ?thesis unfolding e prod.case ids [OF e] by auto
qed

text \<open>The id of a door is its place among the configured doors.\<close>

lemma lock_id_is_position:
  "i < length (filter door ss) \<Longrightarrow>
     lock_accessories ss a ! i = newLockAccessory (filter door ss ! i) (a + i)"
proof (induction ss arbitrary: a i)
  case (Cons s ss)
  then show ?case by (cases i) auto
qed simp

lemma accessory_ids_collide_beyond_98_doors_witness:
  "distinct (map aid (fst (buildBridgeAccessories [] (Some ''AC'') (Some ''Gate'')) # snd (buildBridgeAccessories [] (Some ''AC'') (Some ''Gate''))))"
  using accessory_ids_collide_beyond_98_doors [where ss = "[]" and gree = "Some ''AC''" and gate = "Some ''Gate''"]
  by (simp add: split_beta)

end
