(* ===== verification/HkCamera.thy ===== *)
theory HkCamera
  imports Srtp Bell Doors HkBridge
begin

text \<open>
  \<open>hkcamera.go\<close>: a door station as a HomeKit video doorbell.  A session's sockets are numbers,
  \<open>open_conns\<close> the ones that are open.  TLV8, the HAP authorisation, address resolution, binding and
  the random source are the environment's.
\<close>

section \<open>A stream session\<close>

definition mainStreamMinWidth :: int where "mainStreamMinWidth = 1280"

record crypto_suite =
  suite :: nat
  MasterKey :: string
  MasterSalt :: string

record controller_addr =
  IPVersion :: nat
  IPAddr :: string
  VideoRtpPort :: "16 word"
  AudioRtpPort :: "16 word"

record setup_request =
  SessionId :: string
  ControllerAddr :: controller_addr
  Video :: crypto_suite
  Audio :: crypto_suite

record setup_response =
  rSessionId :: string
  AccessoryAddr :: controller_addr
  rVideo :: crypto_suite
  rAudio :: crypto_suite
  SsrcVideo :: "32 word"
  SsrcAudio :: "32 word"

record pendingSetup =
  ps_conn :: nat
  ps_target :: string
  videoKey :: string
  videoSalt :: string
  videoSSRC :: "32 word"
  response :: setup_response

datatype streaming_status = StatusAvailable | StatusBusy

text \<open>The running stream: its socket, target, key material, forwarder and subtype.\<close>

record running =
  rn_conn :: nat
  rn_target :: string
  rn_key :: "string \<times> string"
  rn_fwd :: srtpForwarder
  rn_subtype :: int

record hk_session =
  pending :: "pendingSetup option"
  stream :: "running option"
  streaming :: streaming_status
  open_conns :: "nat set"
  next_conn :: nat

definition newHKStreamSession :: hk_session where
  "newHKStreamSession = \<lparr>pending = None, stream = None, streaming = StatusAvailable, open_conns = {}, next_conn = 0\<rparr>"

definition close_conn :: "nat \<Rightarrow> hk_session \<Rightarrow> hk_session" where
  "close_conn i s = s\<lparr>open_conns := open_conns s - {i}\<rparr>"

definition close_pending :: "pendingSetup option \<Rightarrow> hk_session \<Rightarrow> hk_session" where
  "close_pending p s = (case p of None \<Rightarrow> s | Some ps \<Rightarrow> close_conn (ps_conn ps) s)"

text \<open>
  What answering needs: the resolved target, the local address, the bound port, whether the answer
  marshals, and the random SSRCs.
\<close>

record setup_env =
  se_target :: "string option"
  se_localIP :: "string option"
  se_port :: "16 word option"
  se_marshals :: bool
  se_random :: "32 word \<times> 32 word"

definition mask31 :: "32 word \<Rightarrow> 32 word" where
  "mask31 r = r AND 0x7FFFFFFF"

definition setup_answer :: "setup_request \<Rightarrow> string \<Rightarrow> 16 word \<Rightarrow> 32 word \<times> 32 word \<Rightarrow> setup_response" where
  "setup_answer req localIP port rnd =
    \<lparr>rSessionId = SessionId req,
     AccessoryAddr = \<lparr>IPVersion = IPVersion (ControllerAddr req), IPAddr = localIP, VideoRtpPort = port, AudioRtpPort = port\<rparr>,
     rVideo = Video req, rAudio = Audio req, SsrcVideo = mask31 (fst rnd), SsrcAudio = mask31 (snd rnd)\<rparr>"

text \<open>\<open>req\<close> is the decoded request.\<close>

definition onSetupEndpoints ::
  "setup_env \<Rightarrow> setup_request option \<Rightarrow> hk_session \<Rightarrow> setup_response option \<times> hk_session" where
  "onSetupEndpoints env req s =
    (case (req, se_target env, se_localIP env, se_port env) of
       (Some req, Some target, Some localIP, Some port) \<Rightarrow>
         (let i = next_conn s;
              resp = setup_answer req localIP port (se_random env);
              s = s\<lparr>open_conns := insert i (open_conns s), next_conn := Suc i\<rparr> in
          if \<not> se_marshals env then (None, close_conn i s)
          else (Some resp,
            close_pending (pending s)
              (s\<lparr>pending := Some \<lparr>ps_conn = i, ps_target = target, videoKey = MasterKey (Video req),
                 videoSalt = MasterSalt (Video req), videoSSRC = mask31 (fst (se_random env)), response = resp\<rparr>\<rparr>)))
     | _ \<Rightarrow> (None, s))"

text \<open>The characteristic: the write's answer or \<open>hapStatusInvalidValue\<close>, and the value of a plain read.\<close>

definition hapStatusInvalidValue :: int where "hapStatusInvalidValue = -70410"

definition write_setup ::
  "setup_env \<Rightarrow> (string \<Rightarrow> setup_request option) \<Rightarrow> string option \<Rightarrow> hk_session \<Rightarrow> (int + setup_response) \<times> hk_session" where
  "write_setup env decode v s = (case v of
      None \<Rightarrow> (Inl hapStatusInvalidValue, s)
    | Some encoded \<Rightarrow> (case std_decode encoded of
        None \<Rightarrow> (Inl hapStatusInvalidValue, s)
      | Some b \<Rightarrow> (case onSetupEndpoints env (decode b) s of
          (None, s) \<Rightarrow> (Inl hapStatusInvalidValue, s) | (Some resp, s) \<Rightarrow> (Inr resp, s))))"

definition currentSetup :: "hk_session \<Rightarrow> setup_response option" where
  "currentSetup s = map_option response (pending s)"

definition subtypeForWidth :: "int \<Rightarrow> int" where
  "subtypeForWidth width = (if width \<ge> mainStreamMinWidth then 0 else 1)"

definition stopLocked :: "hk_session \<Rightarrow> bool \<times> hk_session" where
  "stopLocked s = (case stream s of
      None \<Rightarrow> (False, s) | Some r \<Rightarrow> (True, close_conn (rn_conn r) (s\<lparr>stream := None\<rparr>)))"

definition stopStream :: "hk_session \<Rightarrow> hk_session" where
  "stopStream s = (case stopLocked s of (stopped, s) \<Rightarrow> if stopped then s\<lparr>streaming := StatusAvailable\<rparr> else s)"

record stream_cfg =
  sc_width :: int
  sc_payloadType :: "8 word"
  sc_mtu :: int

text \<open>\<open>context_ok\<close> and \<open>seq0\<close>: whether SRTP accepts the key material, and the random first number.\<close>

definition startStream :: "bool \<Rightarrow> 16 word \<Rightarrow> stream_cfg \<Rightarrow> hk_session \<Rightarrow> bool \<times> hk_session" where
  "startStream context_ok seq0 cfg s = (case pending s of
      None \<Rightarrow> (False, s)
    | Some p \<Rightarrow> (case newSRTPForwarder context_ok (videoSSRC p) (sc_payloadType cfg) (sc_mtu cfg) seq0 of
        None \<Rightarrow> (False, s)
      | Some fwd \<Rightarrow> (True, (snd (stopLocked s))
          \<lparr>stream := Some \<lparr>rn_conn = ps_conn p, rn_target = ps_target p, rn_key = (videoKey p, videoSalt p), rn_fwd = fwd,
             rn_subtype = subtypeForWidth (sc_width cfg)\<rparr>,
           streaming := StatusBusy\<rparr>)))"

datatype session_command = CmdStart | CmdResume | CmdEnd | CmdSuspend | CmdReconfigure | CmdOther

definition onSelectedConfiguration ::
  "bool \<Rightarrow> 16 word \<Rightarrow> (session_command \<times> stream_cfg) option \<Rightarrow> hk_session \<Rightarrow> bool \<times> hk_session" where
  "onSelectedConfiguration context_ok seq0 cfg s = (case cfg of
      None \<Rightarrow> (False, s)
    | Some (cmd, c) \<Rightarrow> (case cmd of
        CmdStart \<Rightarrow> startStream context_ok seq0 c s
      | CmdResume \<Rightarrow> startStream context_ok seq0 c s
      | CmdEnd \<Rightarrow> (True, stopStream s)
      | CmdSuspend \<Rightarrow> (True, stopStream s)
      | CmdReconfigure \<Rightarrow> startStream context_ok seq0 c (stopStream s)
      | CmdOther \<Rightarrow> (True, s)))"

text \<open>The reader goroutine of the running stream returns and closes its forwarder.\<close>

definition reader_returns :: "hk_session \<Rightarrow> hk_session" where
  "reader_returns s = (case stream s of
      None \<Rightarrow> s | Some r \<Rightarrow> close_conn (rn_conn r) (s\<lparr>stream := Some (r\<lparr>rn_fwd := CloseForwarder (rn_fwd r)\<rparr>)\<rparr>))"

section \<open>Doorbell and snapshots\<close>

definition concurrentStreams :: nat where "concurrentStreams = 2"

text \<open>\<open>presses\<close> counts the events of the doorbell characteristic.\<close>

record hk_camera =
  cam_stream :: StreamConfig
  cam_acc :: accessory
  presses :: nat
  sessions :: "hk_session list"

definition newHKCamera :: "StreamConfig \<Rightarrow> hk_camera" where
  "newHKCamera s = \<lparr>cam_stream = s, cam_acc = \<lparr>aid = bridgeAID, acc_type = TypeVideoDoorbell,
     acc_name = (if sname s = [] then sid s else sname s), acc_serial = sid s\<rparr>, presses = 0,
     sessions = replicate concurrentStreams newHKStreamSession\<rparr>"

definition ring :: "BellEvent \<Rightarrow> hk_camera \<Rightarrow> hk_camera" where
  "ring ev c = (if ev_stream ev \<noteq> sid (cam_stream c) then c else c\<lparr>presses := Suc (presses c)\<rparr>)"

definition snapshotJPEG ::
  "(StreamConfig \<Rightarrow> 'w \<Rightarrow> string option \<times> 'w) \<Rightarrow> bell_bus \<Rightarrow> hk_camera \<Rightarrow> 'w \<Rightarrow> string option \<times> 'w" where
  "snapshotJPEG fetch b c w = (case LatestSnapshot (sid (cam_stream c)) b of
      (jpeg, _, ok) \<Rightarrow> if ok \<and> length jpeg > 0 then (Some jpeg, w) else fetch (cam_stream c) w)"

text \<open>Status and body; 470 is HAP's connection-authorization-required.\<close>

definition handleSnapshot ::
  "(StreamConfig \<Rightarrow> 'w \<Rightarrow> string option \<times> 'w) \<Rightarrow> bool \<Rightarrow> bell_bus \<Rightarrow> hk_camera \<Rightarrow> 'w \<Rightarrow> (nat \<times> string) \<times> 'w" where
  "handleSnapshot fetch authorized b c w = (if \<not> authorized then ((470, []), w)
     else (case snapshotJPEG fetch b c w of
         (None, w) \<Rightarrow> ((503, []), w) | (Some jpeg, w) \<Rightarrow> ((200, jpeg), w)))"

definition stop_camera :: "hk_camera \<Rightarrow> hk_camera" where
  "stop_camera c = c\<lparr>sessions := map stopStream (sessions c)\<rparr>"

section \<open>Reachable sessions\<close>

inductive session_reach :: "hk_session \<Rightarrow> bool" where
  start: "session_reach newHKStreamSession"
| endpoints: "session_reach s \<Longrightarrow> session_reach (snd (onSetupEndpoints env req s))"
| selected: "session_reach s \<Longrightarrow> session_reach (snd (onSelectedConfiguration context_ok seq0 cfg s))"
| returned: "session_reach s \<Longrightarrow> session_reach (reader_returns s)"

definition session_inv :: "hk_session \<Rightarrow> bool" where
  "session_inv s \<longleftrightarrow>
     (\<forall>i \<in> open_conns s. \<exists>p. pending s = Some p \<and> ps_conn p = i)
     \<and> (\<forall>p. pending s = Some p \<longrightarrow> ps_conn p < next_conn s)
     \<and> (\<forall>r. stream s = Some r \<longrightarrow> rn_conn r < next_conn s)
     \<and> (streaming s = StatusBusy \<longleftrightarrow> stream s \<noteq> None)"

lemmas session_ops = close_conn_def close_pending_def stopLocked_def stopStream_def startStream_def reader_returns_def

lemma session_inv_stop: "session_inv s \<Longrightarrow> session_inv (stopStream s)"
  by (auto simp: session_inv_def session_ops split: option.splits)

lemma session_inv_start: "session_inv s \<Longrightarrow> session_inv (snd (startStream ok seq0 cfg s))"
  by (auto simp: session_inv_def session_ops split: option.splits)

lemma session_inv_reach: "session_reach s \<Longrightarrow> session_inv s"
proof (induction rule: session_reach.induct)
  case start
  show ?case by (simp add: session_inv_def newHKStreamSession_def)
next
  case (endpoints s env req)
  then show ?case
    by (fastforce simp: session_inv_def onSetupEndpoints_def Let_def close_conn_def close_pending_def
        split: option.splits)
next
  case (selected s context_ok seq0 cfg)
  then show ?case
    using session_inv_stop session_inv_start
    by (auto simp: onSelectedConfiguration_def split: option.splits session_command.splits)
next
  case (returned s)
  then show ?case by (auto simp: session_inv_def session_ops split: option.splits)
qed

section \<open>Properties\<close>


lemma stream_uses_the_answered_endpoint:
  assumes "onSetupEndpoints env (Some req) s = (Some resp, s1)"
    and "startStream context_ok seq0 cfg s1 = (True, s2)" "session_reach s" "stream s = None"
  shows "\<exists>r. stream s2 = Some r \<and> rn_conn r \<in> open_conns s2 \<and> f_ssrc (rn_fwd r) = SsrcVideo resp
    \<and> rn_key r = (MasterKey (rVideo resp), MasterSalt (rVideo resp)) \<and> rVideo resp = Video req
    \<and> Some (rn_target r) = se_target env \<and> Some (VideoRtpPort (AccessoryAddr resp)) = se_port env
    \<and> \<not> bit (SsrcVideo resp) 31 \<and> currentSetup s2 = Some resp \<and> f_payloadType (rn_fwd r) = sc_payloadType cfg"
proof -
  have m: "\<not> bit (mask31 r) 31" for r
    by (simp add: mask31_def bit_and_iff bit_numeral_rec)
  have lt: "ps_conn p < next_conn s" if "pending s = Some p" for p
    using session_inv_reach [OF assms(3)] that by (auto simp: session_inv_def)
  show ?thesis
    using assms(1,2,4) m lt
    by (auto simp: onSetupEndpoints_def Let_def session_ops setup_answer_def newSRTPForwarder_def currentSetup_def
        split: option.splits if_splits)
qed

text \<open>
  A reconfiguration closes the socket it then streams on: the old forwarder owned it.  So does a second
  start.
\<close>

lemma reconfigured_stream_has_a_closed_socket:
  assumes "startStream ok1 seq1 cfg1 s = (True, s1)"
    and "onSelectedConfiguration ok2 seq2 (Some (cmd, cfg2)) s1 = (True, s2)" "cmd \<in> {CmdReconfigure, CmdStart, CmdResume}"
  shows "\<exists>r. stream s2 = Some r \<and> rn_conn r \<notin> open_conns s2 \<and> streaming s2 = StatusBusy"
  using assms
  by (auto simp: onSelectedConfiguration_def session_ops split: option.splits if_splits)

lemma tile_snapshot_prefers_the_ring:
  assumes "handleSnapshot fetch authorized b c w = ((status, body), w')"
  shows "if \<not> authorized then status = 470 \<and> body = [] \<and> w' = w
    else (case LatestSnapshot (sid (cam_stream c)) b of (jpeg, _, ok) \<Rightarrow>
      if ok \<and> jpeg \<noteq> [] then status = 200 \<and> body = jpeg \<and> w' = w
      else w' = snd (fetch (cam_stream c) w)
        \<and> (case fst (fetch (cam_stream c) w) of None \<Rightarrow> status = 503 | Some j \<Rightarrow> status = 200 \<and> body = j))"
  using assms by (auto simp: handleSnapshot_def snapshotJPEG_def split: prod.splits option.splits if_splits)

section \<open>Witnesses\<close>

definition demo_request :: setup_request where
  "demo_request = \<lparr>SessionId = ''s'', ControllerAddr = \<lparr>IPVersion = 0, IPAddr = ''10.0.0.5'', VideoRtpPort = 5000,
     AudioRtpPort = 5002\<rparr>, Video = \<lparr>suite = 0, MasterKey = ''k'', MasterSalt = ''s''\<rparr>,
     Audio = \<lparr>suite = 0, MasterKey = ''k2'', MasterSalt = ''s2''\<rparr>\<rparr>"

definition demo_env :: setup_env where
  "demo_env = \<lparr>se_target = Some ''10.0.0.5:5000'', se_localIP = Some ''10.0.0.2'', se_port = Some 40000, se_marshals = True,
     se_random = (0xFFFFFFFF, 7)\<rparr>"

definition demo_stream_cfg :: stream_cfg where
  "demo_stream_cfg = \<lparr>sc_width = 1280, sc_payloadType = 99, sc_mtu = 1378\<rparr>"

lemma demo_setup: "\<exists>resp s1. onSetupEndpoints demo_env (Some demo_request) newHKStreamSession = (Some resp, s1) \<and> pending s1 \<noteq> None"
  by (simp add: onSetupEndpoints_def demo_env_def newHKStreamSession_def Let_def close_pending_def)

lemma start_succeeds: "pending s \<noteq> None \<Longrightarrow> \<exists>s2. startStream True seq0 cfg s = (True, s2) \<and> pending s2 \<noteq> None"
  by (auto simp: session_ops newSRTPForwarder_def split: option.splits)


lemma stream_uses_the_answered_endpoint_witness:
  "\<exists>resp s1 s2 r. onSetupEndpoints demo_env (Some demo_request) newHKStreamSession = (Some resp, s1)
     \<and> startStream True 1 demo_stream_cfg s1 = (True, s2) \<and> stream s2 = Some r \<and> rn_key r = (''k'', ''s'')"
proof -
  obtain resp s1 where s: "onSetupEndpoints demo_env (Some demo_request) newHKStreamSession = (Some resp, s1)" "pending s1 \<noteq> None"
    using demo_setup by blast
  obtain s2 where t: "startStream True 1 demo_stream_cfg s1 = (True, s2)" using start_succeeds [OF s(2)] by blast
  have "stream newHKStreamSession = None" by (simp add: newHKStreamSession_def)
  from stream_uses_the_answered_endpoint [OF s(1) t session_reach.start this] s(1) t show ?thesis
    by (auto simp: demo_request_def)
qed

lemma reconfigured_stream_has_a_closed_socket_witness:
  "\<exists>resp s1 s2 s3 r. onSetupEndpoints demo_env (Some demo_request) newHKStreamSession = (Some resp, s1)
     \<and> startStream True 1 demo_stream_cfg s1 = (True, s2)
     \<and> onSelectedConfiguration True 2 (Some (CmdReconfigure, demo_stream_cfg)) s2 = (True, s3)
     \<and> stream s3 = Some r \<and> rn_conn r \<notin> open_conns s3"
proof -
  obtain resp s1 where s: "onSetupEndpoints demo_env (Some demo_request) newHKStreamSession = (Some resp, s1)" "pending s1 \<noteq> None"
    using demo_setup by blast
  obtain s2 where t: "startStream True 1 demo_stream_cfg s1 = (True, s2)" "pending s2 \<noteq> None"
    using start_succeeds [OF s(2)] by blast
  have "pending (stopStream s2) \<noteq> None" using t(2) by (auto simp: session_ops split: option.splits)
  from start_succeeds [OF this] obtain s3
    where u: "onSelectedConfiguration True 2 (Some (CmdReconfigure, demo_stream_cfg)) s2 = (True, s3)"
    by (auto simp: onSelectedConfiguration_def)
  from reconfigured_stream_has_a_closed_socket [OF t(1) u] s t u show ?thesis by blast
qed

definition demo_cam :: StreamConfig where
  "demo_cam = \<lparr>sid = ''vto1'', sname = [], host = ''10.0.0.7'', user = [], pass = [], door = True, rtspPathTemplate = [],
     codecName = [], sipExt = [], sipPass = [], rtspURLOverride = [], doorURLOverride = []\<rparr>"

lemma tile_snapshot_prefers_the_ring_witness:
  "fst (handleSnapshot (\<lambda>_ w. (Some ''live'', w)) True (NewBellBus (\<lambda>rs. rs) True [] None) (newHKCamera demo_cam) ())
     = (200, ''live'')"
proof -
  let ?b = "NewBellBus (\<lambda>rs. rs) True [] None"
  obtain status body where h: "handleSnapshot (\<lambda>_ w. (Some ''live'', w)) True ?b (newHKCamera demo_cam) () = ((status, body), ())"
    by (metis (full_types) old.prod.exhaust old.unit.exhaust)
  have "LatestSnapshot ''vto1'' ?b = ([], zero_instant, False)"
    by (simp add: LatestSnapshot_def NewBellBus_def LoadRecent_def Let_def)
  with tile_snapshot_prefers_the_ring [OF h] h show ?thesis
    by (simp add: newHKCamera_def demo_cam_def)
qed

end
