(* ===== verification/HomeKit.thy ===== *)
theory HomeKit
  imports HkCamera
begin

text \<open>
  \<open>homekit.go\<close>: the setup code, the published servers and the pairing endpoints.  Arguments: Apple's
  invalid pins, \<open>time.ParseDuration\<close>, SHA-256, the QR renderer, HAP's category numbers, its server and the
  pairing stores.
\<close>

section \<open>Configuration\<close>

definition defaultHomeKitPort :: int where "defaultHomeKitPort = 51826"
definition defaultHomeKitStore :: string where "defaultHomeKitStore = ''/var/lib/camonitor/homekit''"
definition defaultRelockAfter :: duration where "defaultRelockAfter = 5 * second"
definition restartBackoff :: duration where "restartBackoff = 5 * second"

record HomeKitConfig =
  Pin :: string
  hkPort :: int
  hkStore :: string
  RelockAfter :: string

definition hk_port :: "HomeKitConfig \<Rightarrow> int" where
  "hk_port c = (if hkPort c = 0 then defaultHomeKitPort else hkPort c)"

definition hk_store :: "HomeKitConfig \<Rightarrow> string" where
  "hk_store c = (if hkStore c = [] then defaultHomeKitStore else hkStore c)"

datatype hk_error = BadRelock | PinDigits nat | PinTrivial | StoreError | ServerError | PinNumber

definition relockAfter :: "(string \<Rightarrow> duration option) \<Rightarrow> HomeKitConfig \<Rightarrow> hk_error + duration" where
  "relockAfter parse c = (if RelockAfter c = [] then Inr defaultRelockAfter
     else (case parse (RelockAfter c) of
         None \<Rightarrow> Inl BadRelock | Some d \<Rightarrow> if d \<le> 0 then Inl BadRelock else Inr d))"

section \<open>The setup code\<close>

definition normalizePin :: "(string \<Rightarrow> bool) \<Rightarrow> string \<Rightarrow> hk_error + string" where
  "normalizePin invalid pin = (let digits = filter is_digit pin in
     if length digits \<noteq> 8 then Inl (PinDigits (length digits))
     else if invalid digits then Inl PinTrivial else Inr digits)"

definition formatPin :: "string \<Rightarrow> string" where
  "formatPin digits = take 3 digits @ ''-'' @ take 2 (drop 3 digits) @ ''-'' @ drop 5 digits"

text \<open>\<open>strconv.FormatUint\<close> in base 36, upper-cased.\<close>

definition base36_alphabet :: string where
  "base36_alphabet = ''0123456789ABCDEFGHIJKLMNOPQRSTUVWXYZ''"

fun base36 :: "nat \<Rightarrow> string" where
  "base36 n = (if n < 36 then [base36_alphabet ! n] else base36 (n div 36) @ [base36_alphabet ! (n mod 36)])"

declare base36.simps [simp del]

text \<open>\<open>strconv.ParseUint\<close> to 32 bits.\<close>

definition parse_uint32 :: "string \<Rightarrow> nat option" where
  "parse_uint32 s = (case parse_digits s of None \<Rightarrow> None | Some n \<Rightarrow> if n < 2 ^ 32 then Some n else None)"

definition setup_payload :: "nat \<Rightarrow> 8 word \<Rightarrow> 64 word" where
  "setup_payload code category =
    (let payload = (0 AND 0x7) :: 64 word;
         payload = push_bit 4 payload OR (0 AND 0xF);
         payload = push_bit 8 payload OR ucast category;
         payload = push_bit 4 payload OR 2
     in push_bit 27 payload OR (of_nat code AND 0x7FFFFFF))"

definition setupPayloadURI :: "string \<Rightarrow> 8 word \<Rightarrow> string \<Rightarrow> string option" where
  "setupPayloadURI pin category setupID = (case parse_uint32 pin of
      None \<Rightarrow> None
    | Some code \<Rightarrow> (let encoded = base36 (unat (setup_payload code category)) in
        Some (''X-HM://'' @ replicate (9 - length encoded) CHR ''0'' @ encoded @ setupID)))"

definition setupIDFor :: "(string \<Rightarrow> string) \<Rightarrow> string \<Rightarrow> string \<Rightarrow> string" where
  "setupIDFor sha256 pin name = (let sum = sha256 (pin @ [CHR 0x00] @ name)
     in map (\<lambda>i. base36_alphabet ! (ord (sum ! i) mod 36)) [0..<4])"

section \<open>Servers\<close>

text \<open>\<open>hs_pairings\<close>: the pairings its store lists, \<open>None\<close> when the store cannot be read.\<close>

record hk_server =
  hs_name :: string
  hs_addr :: string
  hs_uri :: string
  hs_qrPNG :: string
  hs_pairings :: "string list option"

definition pairedControllers :: "hk_server \<Rightarrow> nat" where
  "pairedControllers s = (case hs_pairings s of None \<Rightarrow> 0 | Some keys \<Rightarrow> length keys)"

text \<open>
  \<open>run\<close> over what each \<open>ListenAndServe\<close> ends with: whether the loop returns, and whether the context is
  done during the wait.  The result is the waits.
\<close>

fun hk_run :: "(bool \<times> bool) list \<Rightarrow> duration list" where
  "hk_run [] = []"
| "hk_run ((returns, ctx_done) # evs) = (if returns then [] else restartBackoff # (if ctx_done then [] else hk_run evs))"

text \<open>The outside of one server: its store directory's three probes, the HAP server, its pairings.\<close>

record hk_env =
  he_invalid :: "string \<Rightarrow> bool"
  he_duration :: "string \<Rightarrow> duration option"
  he_sha256 :: "string \<Rightarrow> string"
  he_qr :: "string \<Rightarrow> string"
  he_mkdir :: "string \<Rightarrow> bool"
  he_set :: "string \<Rightarrow> bool"
  he_delete :: "string \<Rightarrow> bool"
  he_server :: "string \<Rightarrow> bool"
  he_pairings :: "string \<Rightarrow> string list option"
  he_category :: "accessory_type \<Rightarrow> 8 word"

definition openPairingStore :: "hk_env \<Rightarrow> string \<Rightarrow> bool" where
  "openPairingStore env dir \<longleftrightarrow> he_mkdir env dir \<and> he_set env dir \<and> he_delete env dir"

definition newHKServer ::
  "hk_env \<Rightarrow> HomeKitConfig \<Rightarrow> string \<Rightarrow> string \<Rightarrow> string \<Rightarrow> int \<Rightarrow> accessory_type \<Rightarrow> hk_error + hk_server" where
  "newHKServer env cfg pin name storeName port t =
    (let dir = hk_store cfg @ ''/'' @ storeName in
     if \<not> openPairingStore env dir then Inl StoreError
     else if \<not> he_server env name then Inl ServerError
     else (case setupPayloadURI pin (he_category env t) (setupIDFor (he_sha256 env) pin name) of
         None \<Rightarrow> Inl PinNumber
       | Some uri \<Rightarrow> Inr \<lparr>hs_name = name, hs_addr = '':'' @ format_int port, hs_uri = uri, hs_qrPNG = he_qr env uri,
           hs_pairings = he_pairings env dir\<rparr>))"

section \<open>The manager\<close>

record hk_manager =
  m_pin :: string
  servers :: "hk_server list"
  cameras :: "hk_camera list"
  m_accessories :: "accessory list"
  m_relock :: duration

fun camera_servers ::
  "hk_env \<Rightarrow> HomeKitConfig \<Rightarrow> string \<Rightarrow> StreamConfig list \<Rightarrow> int \<Rightarrow> hk_error + (hk_camera \<times> hk_server) list" where
  "camera_servers env cfg pin [] port = Inr []"
| "camera_servers env cfg pin (s # ss) port =
    (let cam = newHKCamera s in
     case newHKServer env cfg pin (acc_name (cam_acc cam)) (''camera-'' @ sid s) (port + 1) TypeVideoDoorbell of
       Inl e \<Rightarrow> Inl e
     | Inr srv \<Rightarrow> (case camera_servers env cfg pin ss (port + 1) of
         Inl e \<Rightarrow> Inl e | Inr cs \<Rightarrow> Inr ((cam, srv) # cs)))"

text \<open>\<open>with_cameras\<close>: the bell bus and the snapshot fetcher exist.\<close>

definition NewHomeKitManager ::
  "hk_env \<Rightarrow> HomeKitConfig \<Rightarrow> StreamConfig list \<Rightarrow> string option \<Rightarrow> string option \<Rightarrow> bool \<Rightarrow> hk_error + hk_manager" where
  "NewHomeKitManager env cfg streams gree gate with_cameras =
    (case normalizePin (he_invalid env) (Pin cfg) of
       Inl e \<Rightarrow> Inl e
     | Inr pin \<Rightarrow> (case relockAfter (he_duration env) cfg of
         Inl e \<Rightarrow> Inl e
       | Inr relock \<Rightarrow> (case newHKServer env cfg pin bridgeName ''bridge'' (hk_port cfg) TypeBridge of
           Inl e \<Rightarrow> Inl e
         | Inr bridgeSrv \<Rightarrow>
             (let m = \<lparr>m_pin = pin, servers = [bridgeSrv], cameras = [],
                m_accessories = snd (buildBridgeAccessories streams gree gate), m_relock = relock\<rparr> in
              if \<not> with_cameras then Inr m
              else (case camera_servers env cfg pin (doorStreams streams) (hk_port cfg) of
                  Inl e \<Rightarrow> Inl e
                | Inr cs \<Rightarrow> Inr (m\<lparr>servers := bridgeSrv # map snd cs, cameras := map fst cs\<rparr>))))))"

text \<open>\<open>newHomeKit\<close>: off, disabled by its store, fatal, or running.\<close>

datatype hk_start = HkOff | HkDisabled | HkFatal hk_error | HkRunning hk_manager

definition newHomeKit ::
  "hk_env \<Rightarrow> HomeKitConfig option \<Rightarrow> StreamConfig list \<Rightarrow> string option \<Rightarrow> string option \<Rightarrow> bool \<Rightarrow> hk_start" where
  "newHomeKit env cfg streams gree gate with_cameras = (case cfg of
      None \<Rightarrow> HkOff
    | Some c \<Rightarrow> (case NewHomeKitManager env c streams gree gate with_cameras of
        Inr m \<Rightarrow> HkRunning m
      | Inl e \<Rightarrow> if e = StoreError then HkDisabled else HkFatal e))"

text \<open>\<open>dispatchBell\<close> over the events received.\<close>

definition dispatchBell :: "BellEvent list \<Rightarrow> hk_manager \<Rightarrow> hk_manager" where
  "dispatchBell evs m = m\<lparr>cameras := map (fold ring evs) (cameras m)\<rparr>"

text \<open>The end of \<open>Run\<close>: every server has returned, the cameras stop.\<close>

definition stop_all :: "hk_manager \<Rightarrow> hk_manager" where
  "stop_all m = m\<lparr>cameras := map stop_camera (cameras m)\<rparr>"

text \<open>What \<open>printPairingCode\<close> prints: name, formatted code and payload of each unpaired server.\<close>

definition printPairingCode :: "hk_manager \<Rightarrow> (string \<times> string \<times> string) list" where
  "printPairingCode m = map (\<lambda>s. (hs_name s, formatPin (m_pin m), hs_uri s)) (filter (\<lambda>s. pairedControllers s = 0) (servers m))"

text \<open>
  \<open>Run\<close>: the codes of the unpaired servers are printed; the servers run side by side, and with cameras
  the events of the bus are dispatched, until all have returned; then the cameras stop.  \<open>ends s\<close> is how
  server \<open>s\<close>'s listens end.
\<close>

definition Run_homekit ::
  "(hk_server \<Rightarrow> (bool \<times> bool) list) \<Rightarrow> BellEvent list \<Rightarrow> hk_manager
     \<Rightarrow> ((string \<times> string \<times> string) list \<times> (string \<times> duration list) list) \<times> hk_manager" where
  "Run_homekit ends evs m = ((printPairingCode m, map (\<lambda>s. (hs_name s, hk_run (ends s))) (servers m)),
     stop_all (if cameras m \<noteq> [] then dispatchBell evs m else m))"

lemma stopStream_stops [simp]: "stream (stopStream s) = None"
  by (cases "stream s") (simp_all add: stopStream_def stopLocked_def close_conn_def)

lemma homekit_run_stops_every_stream:
  "\<forall>c \<in> set (cameras (snd (Run_homekit ends evs m))). \<forall>s \<in> set (sessions c). stream s = None"
  by (auto simp: Run_homekit_def stop_all_def stop_camera_def)

definition fullyPaired :: "hk_manager \<Rightarrow> bool" where
  "fullyPaired m = list_all (\<lambda>s. pairedControllers s \<noteq> 0) (servers m)"

record hk_status =
  st_pin :: string
  st_paired :: bool
  st_accessories :: "(string \<times> nat \<times> bool) list"

definition HandleStatus :: "hk_manager \<Rightarrow> hk_status" where
  "HandleStatus m = \<lparr>st_pin = (if fullyPaired m then [] else formatPin (m_pin m)), st_paired = fullyPaired m,
     st_accessories = map (\<lambda>s. (hs_name s, pairedControllers s, pairedControllers s > 0)) (servers m)\<rparr>"

definition serverNamed :: "string \<Rightarrow> hk_manager \<Rightarrow> hk_server option" where
  "serverNamed name m = (if name = [] then Some (hd (servers m)) else List.find (\<lambda>s. hs_name s = name) (servers m))"

definition HandleQR :: "string \<Rightarrow> hk_manager \<Rightarrow> nat \<times> string" where
  "HandleQR name m = (case serverNamed name m of
      None \<Rightarrow> (404, [])
    | Some s \<Rightarrow> if hs_qrPNG s = [] \<or> pairedControllers s > 0 then (404, []) else (200, hs_qrPNG s))"

section \<open>Lemmas\<close>

definition base36_value :: "string \<Rightarrow> nat" where
  "base36_value s = fold (\<lambda>c v. 36 * v + the (index_of base36_alphabet c)) s 0"

lemma base36_digit: "n < 36 \<Longrightarrow> index_of base36_alphabet (base36_alphabet ! n) = Some n"
  by (rule index_of_nth) (simp_all add: base36_alphabet_def)

lemma base36_value_base36 [simp]: "base36_value (base36 n) = n"
proof (induction n rule: base36.induct)
  case (1 n)
  then show ?case
    by (subst base36.simps) (auto simp: base36_value_def base36_digit)
qed

lemma length_base36: "0 < k \<Longrightarrow> n < 36 ^ k \<Longrightarrow> length (base36 n) \<le> k"
proof (induction n arbitrary: k rule: base36.induct)
  case (1 n)
  show ?case
  proof (cases "n < 36")
    case False
    with 1(3) have k: "1 < k" by (cases "k = 1") (use 1(2) in auto)
    then obtain j where j: "k = Suc j" "0 < j" by (cases k) auto
    with 1(3) have "n div 36 < 36 ^ j" by (simp add: less_mult_imp_div_less mult.commute)
    with 1(1) [OF False j(2)] have "length (base36 (n div 36)) \<le> j" by simp
    with False j show ?thesis by (subst base36.simps) simp
  qed (use 1 in \<open>subst base36.simps, simp\<close>)
qed

lemma base36_value_pad: "base36_value (replicate k CHR ''0'' @ s) = base36_value s"
proof -
  have "the (index_of base36_alphabet CHR ''0'') = 0" by (simp add: base36_alphabet_def)
  then have "fold (\<lambda>c v. 36 * v + the (index_of base36_alphabet c)) (replicate k CHR ''0'') 0 = 0"
    by (induction k) simp_all
  then show ?thesis by (simp add: base36_value_def)
qed

lemma formatPin_shape:
  assumes "length digits = 8" "list_all is_digit digits"
  shows "filter is_digit (formatPin digits) = digits"
proof -
  have keep: "filter is_digit (take n (drop k digits)) = take n (drop k digits)" "filter is_digit (drop k digits) = drop k digits"
    for n k
    using assms(2) by (auto simp: filter_id_conv list_all_iff dest: in_set_takeD in_set_dropD)
  have "filter is_digit (formatPin digits) = take 3 digits @ take 2 (drop 3 digits) @ drop 5 digits"
    using keep(1) [of 3 0] keep(1) [of 2 3] keep(2) [of 5] by (simp add: formatPin_def is_digit_def)
  also have "drop 5 digits = drop 2 (drop 3 digits)" by simp
  finally show ?thesis by (simp only: append_take_drop_id)
qed

lemma parse_uint32_pin:
  assumes "length digits = 8" "list_all is_digit digits"
  shows "parse_uint32 digits = Some (digits_value digits) \<and> digits_value digits < 10 ^ 8"
proof -
  have bound: "digits_value s < 10 ^ length s" if "list_all is_digit s" for s
    using that
  proof (induction s rule: rev_induct)
    case (snoc c s)
    then have "digit_val c < 10" by (auto simp: digit_val_def is_digit_def)
    moreover have "digits_value s < 10 ^ length s" using snoc by simp
    ultimately show ?case by (simp add: digits_value_snoc)
  qed (simp add: digits_value_def)
  from bound [OF assms(2)] assms have "digits_value digits < 10 ^ 8" by simp
  moreover have "parse_digits digits = Some (digits_value digits)"
    using assms by (auto simp: parse_digits_def)
  ultimately show ?thesis by (simp add: parse_uint32_def)
qed

lemma push_or_nat:
  assumes "b < 2 ^ n"
  shows "push_bit n a OR b = a * 2 ^ n + (b :: nat)"
proof -
  have "push_bit n a AND b = 0"
  proof (rule bit_eqI)
    fix m
    have "b = take_bit n b" using assms by (simp add: take_bit_nat_eq_self)
    then have "bit b m \<Longrightarrow> m < n" by (metis bit_take_bit_iff)
    then show "bit (push_bit n a AND b) m \<longleftrightarrow> bit 0 m" by (auto simp: bit_simps)
  qed
  then show ?thesis by (simp add: disjunctive_add_eq_or [symmetric] push_bit_eq_mult)
qed

lemma push_or_word:
  assumes "unat b < 2 ^ n" "unat a * 2 ^ n < 2 ^ 64"
  shows "unat (push_bit n a OR b :: 64 word) = unat a * 2 ^ n + unat b"
proof -
  have "push_bit n (unat a) < 2 ^ 64" using assms(2) by (simp add: push_bit_eq_mult)
  then have "unat (push_bit n a) = push_bit n (unat a)"
    unfolding unsigned_push_bit_eq by (simp add: take_bit_nat_eq_self)
  then show ?thesis using push_or_nat [OF assms(1), of "unat a"] by (simp only: unsigned_or_eq)
qed

lemma low27: assumes "code < 2 ^ 27" shows "unat ((of_nat code :: 64 word) AND 0x7FFFFFF) = code"
proof -
  have "(of_nat code :: 64 word) AND 0x7FFFFFF = take_bit 27 (of_nat code)"
    by (simp add: take_bit_eq_mask mask_eq_exp_minus_1)
  then show ?thesis using assms by (simp add: unsigned_take_bit_eq unsigned_of_nat take_bit_nat_eq_self)
qed

lemma unat_setup_payload:
  assumes "code < 2 ^ 27"
  shows "unat (setup_payload code category) = unat category * 2 ^ 31 + 2 * 2 ^ 27 + code"
proof -
  have c: "unat category < 256" using unsigned_less [of category] by simp
  let ?u = "ucast category :: 64 word"
  have u: "unat ?u = unat category" by (simp add: unsigned_ucast_eq take_bit_nat_eq_self order_less_trans [OF c])
  have "unat (push_bit 4 ?u OR 2) = unat category * 16 + 2"
    using c u by (subst push_or_word) simp_all
  moreover from this have "unat (push_bit 27 (push_bit 4 ?u OR 2) OR (of_nat code AND 0x7FFFFFF)) = (unat category * 16 + 2) * 2 ^ 27 + code"
    using c low27 [OF assms] assms by (subst push_or_word) simp_all
  ultimately show ?thesis by (simp add: setup_payload_def)
qed
section \<open>Properties\<close>

lemma sixteenths: "(u * 16 + 2) mod 16 = (2 :: nat)" "(u * 16 + 2) div 16 = u"
  by presburger+

text \<open>
  C36: The setup URI of an eight-digit code is the scheme, nine base-36 digits and the setup id, and
  decoding the digits gives back the code, the IP flag and the accessory category.
\<close>

theorem setup_payload_roundtrip:
  assumes "length digits = 8" "list_all is_digit digits"
  shows "\<exists>enc. setupPayloadURI digits category setupID = Some (''X-HM://'' @ enc @ setupID) \<and> length enc = 9
    \<and> base36_value enc mod 2 ^ 27 = digits_value digits \<and> base36_value enc div 2 ^ 27 mod 16 = 2
    \<and> base36_value enc div 2 ^ 31 = unat category"
proof -
  let ?code = "digits_value digits"
  let ?v = "unat (setup_payload ?code category)"
  note p = parse_uint32_pin [OF assms]
  have code: "?code < 2 ^ 27" using p by simp
  have v: "?v = unat category * 2 ^ 31 + 2 * 2 ^ 27 + ?code" by (rule unat_setup_payload [OF code])
  have c: "unat category < 256" using unsigned_less [of category] by simp
  have "?v < 36 ^ 9" using v c code by simp
  then have "length (base36 ?v) \<le> 9" by (intro length_base36) simp_all
  moreover have "?v = ?code + (unat category * 16 + 2) * 2 ^ 27" using v by simp
  then have "?v mod 2 ^ 27 = ?code" "?v div 2 ^ 27 = unat category * 16 + 2"
    using code by (simp_all only: mod_mult_self1 div_mult_self1 mod_less div_less)
  moreover from this have "?v div 2 ^ 27 mod 16 = 2" "?v div 2 ^ 27 div 2 ^ 4 = unat category"
    using sixteenths [of "unat category"] by simp_all
  then have "?v div 2 ^ 27 mod 16 = 2" "?v div 2 ^ 31 = unat category" by (simp_all flip: div_mult2_eq)
  ultimately show ?thesis
    using p by (intro exI [of _ "replicate (9 - length (base36 ?v)) CHR ''0'' @ base36 ?v"])
      (simp add: setupPayloadURI_def base36_value_pad Let_def)
qed

lemma normalized_pin_roundtrip:
  assumes "normalizePin invalid pin = Inr digits"
  shows "normalizePin invalid (formatPin digits) = Inr digits \<and> length digits = 8 \<and> list_all is_digit digits
    \<and> \<not> invalid digits \<and> length (formatPin digits) = 10"
proof -
  have d: "digits = filter is_digit pin" "length digits = 8" "\<not> invalid digits"
    using assms by (auto simp: normalizePin_def Let_def split: if_splits)
  then have l: "list_all is_digit digits" by (simp add: list_all_iff)
  with d formatPin_shape [OF d(2) l] show ?thesis
    by (simp add: normalizePin_def Let_def formatPin_def)
qed

text \<open>
  The code is withheld exactly while every store lists a pairing; a store that cannot be read counts as
  unpaired and exposes it again.
\<close>

lemma setup_code_exposure:
  assumes "length (m_pin m) = 8"
  shows "(st_pin (HandleStatus m) \<noteq> [] \<longleftrightarrow> (\<exists>s \<in> set (servers m). hs_pairings s \<in> {None, Some []}))
    \<and> (\<forall>name png. HandleQR name m = (200, png) \<longrightarrow>
        (\<exists>s. serverNamed name m = Some s \<and> hs_pairings s \<in> {None, Some []} \<and> png = hs_qrPNG s))"
proof -
  have u: "pairedControllers s = 0 \<longleftrightarrow> hs_pairings s \<in> {None, Some []}" for s
    by (auto simp: pairedControllers_def split: option.splits)
  have "formatPin (m_pin m) \<noteq> []" by (simp add: formatPin_def)
  then show ?thesis
    using u by (auto simp: HandleStatus_def fullyPaired_def HandleQR_def list_all_iff split: option.splits if_splits)
qed

lemma newHKServer_ok:
  assumes "newHKServer env cfg pin name store p t = Inr srv"
  shows "hs_name srv = name \<and> hs_addr srv = '':'' @ format_int p
    \<and> setupPayloadURI pin (he_category env t) (setupIDFor (he_sha256 env) pin name) = Some (hs_uri srv)"
  using assms by (auto simp: newHKServer_def Let_def split: if_splits option.splits)

lemma map_upt_head: "map f [0..<Suc n] = f 0 # map (\<lambda>i. f (Suc i)) [0..<n]"
  by (simp add: upt_conv_Cons map_Suc_upt [symmetric] comp_def del: upt_Suc)

lemma camera_servers_ok:
  assumes "camera_servers env cfg pin ss p = Inr cs"
  shows "map (cam_stream \<circ> fst) cs = ss
    \<and> map (hs_addr \<circ> snd) cs = map (\<lambda>i. '':'' @ format_int (p + 1 + int i)) [0..<length ss]
    \<and> (\<forall>x \<in> set cs. fst x = newHKCamera (cam_stream (fst x)))"
  using assms
proof (induction ss arbitrary: p cs)
  case (Cons s ss)
  then obtain srv cs' where n: "newHKServer env cfg pin (acc_name (cam_acc (newHKCamera s))) (''camera-'' @ sid s) (p + 1)
      TypeVideoDoorbell = Inr srv"
    and c: "camera_servers env cfg pin ss (p + 1) = Inr cs'" and cs: "cs = (newHKCamera s, srv) # cs'"
    by (auto simp: Let_def split: sum.splits)
  have "map (\<lambda>i. '':'' @ format_int (p + 1 + int i)) [0..<Suc (length ss)]
      = ('':'' @ format_int (p + 1)) # map (\<lambda>i. '':'' @ format_int (p + 1 + 1 + int i)) [0..<length ss]"
    by (simp add: map_upt_head algebra_simps del: upt_Suc)
  with Cons.IH [OF c] newHKServer_ok [OF n] cs show ?case by (simp add: newHKCamera_def)
qed simp

lemma running_homekit_publishes_every_door:
  assumes "newHomeKit env (Some cfg) streams gree gate True = HkRunning m"
  shows "map cam_stream (cameras m) = doorStreams streams
    \<and> map hs_addr (servers m) = map (\<lambda>i. '':'' @ format_int (hk_port cfg + int i)) [0..<Suc (length (doorStreams streams))]
    \<and> normalizePin (he_invalid env) (Pin cfg) = Inr (m_pin m) \<and> 0 < m_relock m
    \<and> map aid (filter (\<lambda>a. acc_type a = TypeDoorLock) (m_accessories m)) = [2..<2 + length (doorStreams streams)]"
proof -
  obtain pin relock srv cs where
    p: "normalizePin (he_invalid env) (Pin cfg) = Inr pin" and r: "relockAfter (he_duration env) cfg = Inr relock"
    and b: "newHKServer env cfg pin bridgeName ''bridge'' (hk_port cfg) TypeBridge = Inr srv"
    and c: "camera_servers env cfg pin (doorStreams streams) (hk_port cfg) = Inr cs"
    and m: "m = \<lparr>m_pin = pin, servers = srv # map snd cs, cameras = map fst cs,
      m_accessories = snd (buildBridgeAccessories streams gree gate), m_relock = relock\<rparr>"
    using assms by (auto simp: newHomeKit_def NewHomeKitManager_def Let_def split: sum.splits if_splits)
  have "0 < relock" using r by (auto simp: relockAfter_def defaultRelockAfter_def split: if_splits option.splits)
  moreover have "map (\<lambda>i. '':'' @ format_int (hk_port cfg + int i)) [0..<Suc (length (doorStreams streams))]
      = ('':'' @ format_int (hk_port cfg)) # map (\<lambda>i. '':'' @ format_int (hk_port cfg + 1 + int i)) [0..<length (doorStreams streams)]"
    by (simp add: map_upt_head algebra_simps del: upt_Suc)
  moreover have "filter (\<lambda>a. acc_type a = TypeDoorLock) (lock_accessories ss k) = lock_accessories ss k" for ss k
    by (induction ss arbitrary: k) (auto simp: newLockAccessory_def)
  then have "map aid (filter (\<lambda>a. acc_type a = TypeDoorLock) (snd (buildBridgeAccessories streams gree gate)))
      = [2..<2 + length (doorStreams streams)]"
    by (simp add: buildBridgeAccessories_def newClimateAccessory_def newGateAccessory_def lock_aids firstLockAID_def
        doorStreams_def split: option.split)
  ultimately show ?thesis using camera_servers_ok [OF c] newHKServer_ok [OF b] p m by simp
qed

lemma dispatch_counts:
  "presses (fold ring evs c) = presses c + length (filter (\<lambda>ev. ev_stream ev = sid (cam_stream c)) evs)"
  "cam_stream (fold ring evs c) = cam_stream c"
  by (induction evs arbitrary: c) (auto simp: ring_def)

section \<open>Witnesses\<close>

definition demo_hk_env :: hk_env where
  "demo_hk_env = \<lparr>he_invalid = (\<lambda>p. p = ''12345678''), he_duration = (\<lambda>_. None), he_sha256 = (\<lambda>_. replicate 32 (CHR ''a'')),
     he_qr = (\<lambda>u. ''png'' @ u), he_mkdir = (\<lambda>_. True), he_set = (\<lambda>_. True), he_delete = (\<lambda>_. True), he_server = (\<lambda>_. True),
     he_pairings = (\<lambda>_. Some []), he_category = (\<lambda>_. 2)\<rparr>"

definition demo_hk_cfg :: HomeKitConfig where
  "demo_hk_cfg = \<lparr>Pin = ''031-45-154'', hkPort = 0, hkStore = [], RelockAfter = []\<rparr>"

lemma demo_pin: "normalizePin (he_invalid demo_hk_env) ''031-45-154'' = Inr ''03145154''"
  by (simp add: demo_hk_env_def normalizePin_def is_digit_def)

theorem setup_payload_roundtrip_witness:
  "\<exists>enc. setupPayloadURI ''03145154'' 2 ''ABCD'' = Some (''X-HM://'' @ enc @ ''ABCD'') \<and> base36_value enc mod 2 ^ 27 = 3145154"
proof -
  have "list_all is_digit ''03145154''" "digits_value ''03145154'' = 3145154"
    by (simp_all add: is_digit_def digits_value_def digit_val_def)
  with setup_payload_roundtrip [of "''03145154''" 2 "''ABCD''"] show ?thesis by auto
qed

lemma normalized_pin_roundtrip_witness:
  "normalizePin (he_invalid demo_hk_env) (formatPin ''03145154'') = Inr ''03145154''"
  using normalized_pin_roundtrip [OF demo_pin] by simp

lemma setup_code_exposure_witness:
  "st_pin (HandleStatus \<lparr>m_pin = ''03145154'', servers = [\<lparr>hs_name = ''b'', hs_addr = [], hs_uri = [], hs_qrPNG = ''q'',
     hs_pairings = Some [''p'']\<rparr>], cameras = [], m_accessories = [], m_relock = 1\<rparr>) = []"
  using setup_code_exposure [of "\<lparr>m_pin = ''03145154'', servers = [\<lparr>hs_name = ''b'', hs_addr = [], hs_uri = [], hs_qrPNG = ''q'',
     hs_pairings = Some [''p'']\<rparr>], cameras = [], m_accessories = [], m_relock = 1\<rparr>"]
  by simp

lemma running_homekit_publishes_every_door_witness:
  "\<exists>m. newHomeKit demo_hk_env (Some demo_hk_cfg) [demo_cam] None (Some ''Gate'') True = HkRunning m
     \<and> map cam_stream (cameras m) = [demo_cam]"
proof -
  have "setupPayloadURI ''03145154'' 2 x \<noteq> None" for x
    using parse_uint32_pin [of "''03145154''"] by (simp add: setupPayloadURI_def is_digit_def Let_def)
  then have f: "setupPayloadURI ''03145154'' 2 x = Some (the (setupPayloadURI ''03145154'' 2 x))" for x by simp
  have srv: "\<exists>s. newHKServer demo_hk_env demo_hk_cfg ''03145154'' name store p t = Inr s" for name store p t
    by (subst newHKServer_def, simp add: openPairingStore_def demo_hk_env_def Let_def) (subst f, simp)
  then obtain s1 s2 where s: "newHKServer demo_hk_env demo_hk_cfg ''03145154'' bridgeName ''bridge'' (hk_port demo_hk_cfg) TypeBridge = Inr s1"
    "newHKServer demo_hk_env demo_hk_cfg ''03145154'' (acc_name (cam_acc (newHKCamera demo_cam))) (''camera-'' @ sid demo_cam)
       (hk_port demo_hk_cfg + 1) TypeVideoDoorbell = Inr s2" by metis
  have "door demo_cam" by (simp add: demo_cam_def)
  then have d: "doorStreams [demo_cam] = [demo_cam]" by (simp add: doorStreams_def)
  have pin: "normalizePin (he_invalid demo_hk_env) (Pin demo_hk_cfg) = Inr ''03145154''"
    "relockAfter (he_duration demo_hk_env) demo_hk_cfg = Inr defaultRelockAfter"
    using demo_pin by (simp_all add: demo_hk_cfg_def relockAfter_def)
  have cs: "camera_servers demo_hk_env demo_hk_cfg ''03145154'' [demo_cam] (hk_port demo_hk_cfg) = Inr [(newHKCamera demo_cam, s2)]"
    using s(2) by (simp add: Let_def)
  obtain m where m: "newHomeKit demo_hk_env (Some demo_hk_cfg) [demo_cam] None (Some ''Gate'') True = HkRunning m"
    by (simp add: newHomeKit_def NewHomeKitManager_def pin s(1) cs d Let_def del: camera_servers.simps)
  from running_homekit_publishes_every_door [OF m] m d show ?thesis by auto
qed

end
