(* ===== verification/Hub.thy ===== *)
theory Hub
  imports Config
begin

text \<open>
  \<open>hub.go\<close>: one RTSP reader per stream, switchable between two qualities, and the signalling state of
  browser sessions.  Peer connections and readers are numbers; what pion and the request bodies do is
  the environment's.
\<close>

section \<open>State\<close>

definition qualitySD :: string where "qualitySD = ''sd''"
definition qualityHD :: string where "qualityHD = ''hd''"

definition subtypeFor :: "string \<Rightarrow> int" where
  "subtypeFor quality = (if quality = qualityHD then 0 else 1)"

text \<open>
  A runner holds the reader it started last, with its quality.  \<open>readers\<close> are the goroutines that have
  not returned, with their stream and subtype.  \<open>open_pcs\<close> and \<open>answered\<close> are pion's; \<open>known\<close> is
  the session of each negotiated connection, which its callbacks keep; \<open>armed\<close> and \<open>reaping\<close> are the reapers that wait and those that found no answer but have not dropped the session.
\<close>

record hub =
  streams :: "StreamConfig list"
  runners :: "string \<rightharpoonup> (nat \<times> string) option"
  readers :: "nat \<rightharpoonup> string \<times> int"
  next_reader :: nat
  sessions :: "string \<rightharpoonup> nat"
  open_pcs :: "nat set"
  answered :: "nat set"
  known :: "(string \<times> nat) set"
  armed :: "(string \<times> nat) set"
  reaping :: "(string \<times> nat) set"
  next_pc :: nat

section \<open>Readers\<close>

text \<open>\<open>startReader\<close>: a reader that is replaced has returned before the next one starts.\<close>

definition startReader :: "string \<Rightarrow> string \<Rightarrow> hub \<Rightarrow> hub" where
  "startReader streamID quality h = (case runners h streamID of
      None \<Rightarrow> h
    | Some cur \<Rightarrow>
        if (case cur of None \<Rightarrow> False | Some (_, q) \<Rightarrow> q = quality) then h
        else (let rs = (case cur of None \<Rightarrow> readers h | Some (i, _) \<Rightarrow> (readers h)(i := None));
                  i = next_reader h
          in h\<lparr>runners := (runners h)(streamID \<mapsto> Some (i, quality)),
               readers := rs(i \<mapsto> (streamID, subtypeFor quality)), next_reader := Suc i\<rparr>))"

definition add_stream :: "StreamConfig \<Rightarrow> hub \<Rightarrow> hub" where
  "add_stream s h = startReader (sid s) qualityHD (h\<lparr>runners := (runners h)(sid s \<mapsto> None)\<rparr>)"

text \<open>\<open>tracks_ok\<close>: whether pion makes both tracks of a stream.\<close>

definition NewHub :: "(StreamConfig \<Rightarrow> bool) \<Rightarrow> StreamConfig list \<Rightarrow> hub option" where
  "NewHub tracks_ok ss = (if list_all tracks_ok ss
     then Some (fold add_stream ss \<lparr>streams = ss, runners = Map.empty, readers = Map.empty, next_reader = 0,
       sessions = Map.empty, open_pcs = {}, answered = {}, known = {}, armed = {}, reaping = {}, next_pc = 0\<rparr>)
     else None)"

datatype quality_error = InvalidQuality | UnknownStream

definition SetQuality :: "string \<Rightarrow> string \<Rightarrow> hub \<Rightarrow> quality_error option \<times> hub" where
  "SetQuality streamID quality h =
    (if quality \<noteq> qualitySD \<and> quality \<noteq> qualityHD then (Some InvalidQuality, h)
     else if streamID \<notin> sid ` set (streams h) then (Some UnknownStream, h)
     else (None, startReader streamID quality h))"

definition Quality :: "string \<Rightarrow> hub \<Rightarrow> string" where
  "Quality streamID h = (case runners h streamID of Some (Some (_, q)) \<Rightarrow> q | _ \<Rightarrow> [])"

definition HandleSetQuality :: "string \<Rightarrow> string \<Rightarrow> string \<Rightarrow> hub \<Rightarrow> nat \<times> hub" where
  "HandleSetQuality meth i quality h =
    (if meth \<noteq> ''POST'' then (405, h)
     else if i = [] \<or> quality = [] then (400, h)
     else (case SetQuality i quality h of
         (Some UnknownStream, h) \<Rightarrow> (404, h) | (Some InvalidQuality, h) \<Rightarrow> (400, h) | (None, h) \<Rightarrow> (204, h)))"

datatype video_codec = MimeTypeH264 | MimeTypeH265

definition videoCodecCapability :: "StreamConfig \<Rightarrow> video_codec" where
  "videoCodecCapability s = (if equal_fold (codecName s) ''h265'' then MimeTypeH265 else MimeTypeH264)"

record publicStream =
  pub_id :: string
  pub_name :: string
  pub_quality :: string
  pub_door :: bool

definition publicStreams :: "hub \<Rightarrow> publicStream list" where
  "publicStreams h = map (\<lambda>s. \<lparr>pub_id = sid s, pub_name = sname s, pub_quality = Quality (sid s) h, pub_door = door s\<rparr>)
     (streams h)"

section \<open>Sessions\<close>

text \<open>\<open>drainRTCP\<close> over its reads: how many it makes before one fails.\<close>

fun drainRTCP :: "bool list \<Rightarrow> nat" where
  "drainRTCP [] = 0"
| "drainRTCP (read_ok # rs) = (if read_ok then Suc (drainRTCP rs) else 1)"

definition newSessionID :: "string \<Rightarrow> string" where
  "newSessionID random12 = hex_encode random12"

definition close_pc :: "nat \<Rightarrow> hub \<Rightarrow> hub" where
  "close_pc pc h = h\<lparr>open_pcs := open_pcs h - {pc}\<rparr>"

definition dropSession :: "string \<Rightarrow> nat \<Rightarrow> hub \<Rightarrow> hub" where
  "dropSession s pc h = close_pc pc (if sessions h s = Some pc then h\<lparr>sessions := (sessions h)(s := None)\<rparr> else h)"

text \<open>
  Creating the connection, and then adding the tracks, making and applying the offer: a failure of the
  latter closes it.
\<close>

definition HandleOffer ::
  "string \<Rightarrow> bool \<Rightarrow> bool \<Rightarrow> string \<Rightarrow> hub \<Rightarrow> (nat \<times> (string \<times> publicStream list) option) \<times> hub" where
  "HandleOffer meth created negotiated random12 h =
    (if meth \<noteq> ''POST'' then ((405, None), h)
     else if \<not> created then ((500, None), h)
     else (let pc = next_pc h; h = h\<lparr>open_pcs := insert pc (open_pcs h), next_pc := Suc pc\<rparr> in
       if \<not> negotiated then ((500, None), close_pc pc h)
       else (let s = newSessionID random12;
                 h = h\<lparr>sessions := (sessions h)(s \<mapsto> pc), known := insert (s, pc) (known h), armed := insert (s, pc) (armed h)\<rparr>
         in ((200, Some (s, publicStreams h)), h))))"

text \<open>\<open>body\<close>: the session named by the decoded body; \<open>accepted\<close>: pion took the answer.\<close>

definition HandleAnswer :: "string \<Rightarrow> string option \<Rightarrow> bool \<Rightarrow> hub \<Rightarrow> nat \<times> hub" where
  "HandleAnswer meth body accepted h =
    (if meth \<noteq> ''POST'' then (405, h)
     else (case body of
         None \<Rightarrow> (400, h)
       | Some s \<Rightarrow> (case sessions h s of
           None \<Rightarrow> (404, h)
         | Some pc \<Rightarrow> if \<not> accepted then (400, h) else (204, h\<lparr>answered := insert pc (answered h)\<rparr>))))"

datatype pc_state = PcConnected | PcDisconnected | PcFailed | PcClosed

definition OnConnectionStateChange :: "string \<Rightarrow> nat \<Rightarrow> pc_state \<Rightarrow> hub \<Rightarrow> hub" where
  "OnConnectionStateChange s pc st h = (if st \<noteq> PcFailed \<and> st \<noteq> PcClosed then h else dropSession s pc h)"

text \<open>The reaper, in the two steps another goroutine can come between.\<close>

definition reaper_looks :: "string \<Rightarrow> nat \<Rightarrow> hub \<Rightarrow> hub" where
  "reaper_looks s pc h = (if pc \<in> answered h then h\<lparr>armed := armed h - {(s, pc)}\<rparr>
     else h\<lparr>armed := armed h - {(s, pc)}, reaping := insert (s, pc) (reaping h)\<rparr>)"

definition reaper_drops :: "string \<Rightarrow> nat \<Rightarrow> hub \<Rightarrow> hub" where
  "reaper_drops s pc h = dropSession s pc (h\<lparr>reaping := reaping h - {(s, pc)}\<rparr>)"

section \<open>Reachable hubs\<close>

inductive signal_reach :: "StreamConfig list \<Rightarrow> hub \<Rightarrow> bool" for ss where
  start: "NewHub tracks_ok ss = Some h \<Longrightarrow> signal_reach ss h"
| quality: "signal_reach ss h \<Longrightarrow> signal_reach ss (snd (SetQuality i q h))"
| offer: "signal_reach ss h \<Longrightarrow> signal_reach ss (snd (HandleOffer meth created negotiated random12 h))"
| answer: "signal_reach ss h \<Longrightarrow> signal_reach ss (snd (HandleAnswer meth body accepted h))"
| state_change: "signal_reach ss h \<Longrightarrow> (s, pc) \<in> known h \<Longrightarrow> signal_reach ss (OnConnectionStateChange s pc st h)"
| reaper_fires: "signal_reach ss h \<Longrightarrow> (s, pc) \<in> armed h \<Longrightarrow> signal_reach ss (reaper_looks s pc h)"
| reaper_ends: "signal_reach ss h \<Longrightarrow> (s, pc) \<in> reaping h \<Longrightarrow> signal_reach ss (reaper_drops s pc h)"

text \<open>Every runner has its reader, at its quality, and no other reader exists.\<close>

definition readers_ok :: "hub \<Rightarrow> bool" where
  "readers_ok h \<longleftrightarrow>
     (\<forall>i s t. readers h i = Some (s, t) \<longleftrightarrow> (\<exists>q. runners h s = Some (Some (i, q)) \<and> t = subtypeFor q))
     \<and> (\<forall>s i q. runners h s = Some (Some (i, q)) \<longrightarrow> i < next_reader h \<and> q \<in> {qualitySD, qualityHD})"

definition sessions_ok :: "hub \<Rightarrow> bool" where
  "sessions_ok h \<longleftrightarrow>
     (\<forall>s pc. sessions h s = Some pc \<longrightarrow> pc \<in> open_pcs h \<and> (s, pc) \<in> known h)
     \<and> (\<forall>pc \<in> open_pcs h. pc < next_pc h \<and> (pc \<in> answered h \<or> (\<exists>s. (s, pc) \<in> armed h \<union> reaping h)))
     \<and> (\<forall>s pc. (s, pc) \<in> known h \<longrightarrow> pc < next_pc h \<and> (\<forall>s'. (s', pc) \<in> known h \<longrightarrow> s' = s))
     \<and> armed h \<union> reaping h \<subseteq> known h"

lemma startReader_fields [simp]:
  "streams (startReader i q h) = streams h" "sessions (startReader i q h) = sessions h"
  "open_pcs (startReader i q h) = open_pcs h" "answered (startReader i q h) = answered h"
  "armed (startReader i q h) = armed h" "reaping (startReader i q h) = reaping h" "next_pc (startReader i q h) = next_pc h"
  "known (startReader i q h) = known h"
  by (simp_all add: startReader_def Let_def split: option.split)

lemma replaced_reader_ok:
  assumes ok: "readers_ok h" and q: "q \<in> {qualitySD, qualityHD}"
    and rs: "\<And>k s t. rs k = Some (s, t) \<longleftrightarrow> readers h k = Some (s, t) \<and> s \<noteq> i"
  shows "readers_ok (h\<lparr>runners := (runners h)(i \<mapsto> Some (next_reader h, q)),
    readers := rs(next_reader h \<mapsto> (i, subtypeFor q)), next_reader := Suc (next_reader h)\<rparr>)"
proof -
  have old: "readers h k = Some (s, t) \<longleftrightarrow> (\<exists>q. runners h s = Some (Some (k, q)) \<and> t = subtypeFor q)" for k s t
    using ok by (simp add: readers_ok_def)
  have lt: "runners h s = Some (Some (k, q)) \<Longrightarrow> k < next_reader h \<and> q \<in> {qualitySD, qualityHD}" for s k q
    using ok unfolding readers_ok_def by blast
  have "(rs(next_reader h \<mapsto> (i, subtypeFor q))) k = Some (s, t)
      \<longleftrightarrow> (\<exists>q'. ((runners h)(i \<mapsto> Some (next_reader h, q))) s = Some (Some (k, q')) \<and> t = subtypeFor q')" for k s t
  proof (cases "s = i")
    case True
    then show ?thesis using rs by auto
  next
    case False
    then show ?thesis using rs old lt by (cases "k = next_reader h") fastforce+
  qed
  then show ?thesis using lt q unfolding readers_ok_def by (auto simp: less_Suc_eq)
qed

lemma startReader_ok:
  assumes "readers_ok h" "q \<in> {qualitySD, qualityHD}"
  shows "readers_ok (startReader i q h)"
proof (cases "runners h i")
  case None
  with assms show ?thesis by (simp add: startReader_def)
next
  case r: (Some cur)
  have old: "readers h k = Some (s, t) \<longleftrightarrow> (\<exists>q. runners h s = Some (Some (k, q)) \<and> t = subtypeFor q)" for k s t
    using assms(1) by (simp add: readers_ok_def)
  show ?thesis
  proof (cases cur)
    case None
    with r have "readers h k = Some (s, t) \<longleftrightarrow> readers h k = Some (s, t) \<and> s \<noteq> i" for k s t
      using old by auto
    from replaced_reader_ok [OF assms this] r None show ?thesis by (simp add: startReader_def Let_def)
  next
    case (Some jp)
    obtain j p where jp: "jp = (j, p)" by fastforce
    have j: "readers h j = Some (i, subtypeFor p)" using r Some jp old by blast
    have "((readers h)(j := None)) k = Some (s, t) \<longleftrightarrow> readers h k = Some (s, t) \<and> s \<noteq> i" for k s t
    proof (cases "k = j")
      case True
      then show ?thesis using j by simp
    next
      case False
      have "readers h k = Some (s, t) \<Longrightarrow> s \<noteq> i" using r Some jp old [of k s t] False by auto
      with False show ?thesis by auto
    qed
    from replaced_reader_ok [OF assms, of "(readers h)(j := None)" i] this r Some jp assms(1) show ?thesis
      by (simp add: startReader_def Let_def del: fun_upd_apply)
  qed
qed

lemma startReader_runs:
  assumes "i \<in> dom (runners h)"
  shows "\<exists>j. runners (startReader i q h) i = Some (Some (j, q))"
proof -
  from assms obtain cur where "runners h i = Some cur" by blast
  then show ?thesis by (cases cur) (auto simp: startReader_def Let_def)
qed

lemma startReader_others:
  "k \<noteq> i \<Longrightarrow> runners (startReader i q h) k = runners h k"
  by (simp add: startReader_def Let_def split: option.split)

lemma startReader_dom:
  assumes "i \<in> dom (runners h)"
  shows "dom (runners (startReader i q h)) = dom (runners h)"
proof -
  have "k \<in> dom (runners (startReader i q h)) \<longleftrightarrow> k \<in> dom (runners h)" for k
  proof (cases "k = i")
    case True
    then show ?thesis using assms startReader_runs [OF assms, of q] by auto
  next
    case False
    then show ?thesis using startReader_others [OF False] by (simp add: domIff)
  qed
  then show ?thesis by blast
qed

definition all_run :: "hub \<Rightarrow> bool" where
  "all_run h \<longleftrightarrow> (\<forall>s. runners h s \<noteq> Some None)"

lemma startReader_all_run:
  assumes "\<And>k. k \<noteq> i \<Longrightarrow> runners h k \<noteq> Some None" "i \<in> dom (runners h)"
  shows "all_run (startReader i q h)"
  unfolding all_run_def
proof
  fix k
  show "runners (startReader i q h) k \<noteq> Some None"
  proof (cases "k = i")
    case True
    then show ?thesis using startReader_runs [OF assms(2), of q] by auto
  next
    case False
    then show ?thesis using startReader_others [OF False] assms(1) by simp
  qed
qed

definition sessionless :: "hub \<Rightarrow> bool" where
  "sessionless h \<longleftrightarrow> sessions h = Map.empty \<and> open_pcs h = {} \<and> known h = {} \<and> armed h = {} \<and> reaping h = {}"

lemma add_streams_ok:
  assumes "readers_ok h" "all_run h" "sessionless h" "distinct (map sid ss)" "sid ` set ss \<inter> dom (runners h) = {}"
  shows "readers_ok (fold add_stream ss h) \<and> dom (runners (fold add_stream ss h)) = sid ` set ss \<union> dom (runners h)
    \<and> all_run (fold add_stream ss h) \<and> sessionless (fold add_stream ss h)
    \<and> streams (fold add_stream ss h) = streams h"
  using assms
proof (induction ss arbitrary: h)
  case (Cons s ss)
  let ?b = "h\<lparr>runners := (runners h)(sid s \<mapsto> None)\<rparr>"
  let ?h = "add_stream s h"
  have new: "runners h (sid s) = None" using Cons.prems(5) by (auto simp: dom_def)
  have "readers_ok ?b"
    using Cons.prems(1) new unfolding readers_ok_def by simp
  then have ok: "readers_ok ?h" unfolding add_stream_def by (rule startReader_ok) simp
  have run: "all_run ?h" unfolding add_stream_def
    by (rule startReader_all_run) (use Cons.prems(2) in \<open>simp_all add: all_run_def\<close>)
  have dom: "dom (runners ?h) = insert (sid s) (dom (runners h))"
    unfolding add_stream_def by (subst startReader_dom) auto
  have less: "sessionless ?h" using Cons.prems(3) by (simp add: sessionless_def add_stream_def)
  have "distinct (map sid ss)" using Cons.prems(4) by simp
  moreover have "sid ` set ss \<inter> dom (runners ?h) = {}" using Cons.prems(4,5) dom by auto
  moreover have "streams ?h = streams h" by (simp add: add_stream_def)
  ultimately show ?case using Cons.IH [OF ok run less] dom by simp
qed simp

definition hub_inv :: "StreamConfig list \<Rightarrow> hub \<Rightarrow> bool" where
  "hub_inv ss h \<longleftrightarrow> readers_ok h \<and> all_run h \<and> sessions_ok h \<and> streams h = ss \<and> dom (runners h) = sid ` set ss"

lemma hub_inv_cong:
  assumes "hub_inv ss h" "readers h' = readers h" "runners h' = runners h" "next_reader h' = next_reader h"
    "streams h' = streams h" "sessions_ok h'"
  shows "hub_inv ss h'"
  using assms by (simp add: hub_inv_def readers_ok_def all_run_def)

lemma dropSession_fields [simp]:
  "readers (dropSession s pc h) = readers h" "runners (dropSession s pc h) = runners h"
  "next_reader (dropSession s pc h) = next_reader h" "streams (dropSession s pc h) = streams h"
  "open_pcs (dropSession s pc h) = open_pcs h - {pc}" "known (dropSession s pc h) = known h"
  "armed (dropSession s pc h) = armed h" "reaping (dropSession s pc h) = reaping h"
  "answered (dropSession s pc h) = answered h" "next_pc (dropSession s pc h) = next_pc h"
  by (simp_all add: dropSession_def close_pc_def)

lemma dropSession_sessions:
  "sessions (dropSession s pc h) k = (if k = s \<and> sessions h s = Some pc then None else sessions h k)"
  by (simp add: dropSession_def close_pc_def)

lemma sessions_okI:
  assumes "\<And>s pc. sessions h s = Some pc \<Longrightarrow> pc \<in> open_pcs h \<and> (s, pc) \<in> known h"
    "\<And>pc. pc \<in> open_pcs h \<Longrightarrow> pc < next_pc h \<and> (pc \<in> answered h \<or> (\<exists>s. (s, pc) \<in> armed h \<union> reaping h))"
    "\<And>s pc. (s, pc) \<in> known h \<Longrightarrow> pc < next_pc h"
    "\<And>s s' pc. (s, pc) \<in> known h \<Longrightarrow> (s', pc) \<in> known h \<Longrightarrow> s' = s"
    "armed h \<union> reaping h \<subseteq> known h"
  shows "sessions_ok h"
  using assms unfolding sessions_ok_def by (intro conjI allI ballI impI) blast+

lemma sessions_okD:
  assumes "sessions_ok h"
  shows "sessions h s = Some pc \<Longrightarrow> pc \<in> open_pcs h" "sessions h s = Some pc \<Longrightarrow> (s, pc) \<in> known h"
    "pc \<in> open_pcs h \<Longrightarrow> pc < next_pc h"
    "pc \<in> open_pcs h \<Longrightarrow> pc \<in> answered h \<or> (\<exists>s. (s, pc) \<in> armed h \<union> reaping h)"
    "(s, pc) \<in> known h \<Longrightarrow> pc < next_pc h"
    "(s, pc) \<in> known h \<Longrightarrow> (s', pc) \<in> known h \<Longrightarrow> s' = s"
    "armed h \<union> reaping h \<subseteq> known h"
  using assms unfolding sessions_ok_def by simp_all

text \<open>A reaper that drops its own connection may forget it.\<close>

lemma sessions_ok_drop:
  assumes ok: "sessions_ok h" and k: "(s, pc) \<in> known h" and r: "R = reaping h \<or> R = reaping h - {(s, pc)}"
  shows "sessions_ok (dropSession s pc (h\<lparr>reaping := R\<rparr>))"
proof (rule sessions_okI)
  let ?h = "dropSession s pc (h\<lparr>reaping := R\<rparr>)"
  fix s' p assume e: "sessions ?h s' = Some p"
  have e2: "sessions h s' = Some p" using e by (simp add: dropSession_sessions split: if_splits)
  have "p \<noteq> pc"
  proof
    assume p: "p = pc"
    have "s' = s" using sessions_okD(6) [OF ok k] sessions_okD(2) [OF ok e2] p by simp
    with e e2 p show False by (simp add: dropSession_sessions)
  qed
  with sessions_okD(1,2) [OF ok e2] show "p \<in> open_pcs ?h \<and> (s', p) \<in> known ?h" by simp
next
  let ?h = "dropSession s pc (h\<lparr>reaping := R\<rparr>)"
  fix p assume "p \<in> open_pcs ?h"
  then have p: "p \<in> open_pcs h" "p \<noteq> pc" by simp_all
  have "(s', p) \<in> reaping h \<Longrightarrow> (s', p) \<in> R" for s' using r p(2) by auto
  with sessions_okD(3,4) [OF ok p(1)]
  show "p < next_pc ?h \<and> (p \<in> answered ?h \<or> (\<exists>s. (s, p) \<in> armed ?h \<union> reaping ?h))" by auto
next
  let ?h = "dropSession s pc (h\<lparr>reaping := R\<rparr>)"
  show "armed ?h \<union> reaping ?h \<subseteq> known ?h" using sessions_okD(7) [OF ok] r by auto
qed (use sessions_okD(5,6) [OF ok] in simp_all)

lemma hub_inv_quality:
  assumes "hub_inv ss h" "q \<in> {qualitySD, qualityHD}" "i \<in> dom (runners h)"
  shows "hub_inv ss (startReader i q h)"
proof -
  have "readers_ok (startReader i q h)" using assms by (intro startReader_ok) (simp_all add: hub_inv_def)
  moreover have "all_run (startReader i q h)"
    by (rule startReader_all_run) (use assms in \<open>simp_all add: hub_inv_def all_run_def\<close>)
  moreover have "sessions_ok (startReader i q h)" using assms(1) by (simp add: hub_inv_def sessions_ok_def)
  ultimately show ?thesis using assms(1) startReader_dom [OF assms(3)] by (simp add: hub_inv_def)
qed

lemma sessions_ok_create:
  assumes ok: "sessions_ok h"
  shows "sessions_ok (h\<lparr>open_pcs := insert (next_pc h) (open_pcs h), next_pc := Suc (next_pc h),
    sessions := (sessions h)(s \<mapsto> next_pc h), known := insert (s, next_pc h) (known h),
    armed := insert (s, next_pc h) (armed h)\<rparr>)" (is "sessions_ok ?h")
proof (rule sessions_okI)
  have new: "(s', next_pc h) \<notin> known h" for s' using sessions_okD(5) [OF ok, of s' "next_pc h"] by auto
  fix s' s'' p assume "(s', p) \<in> known ?h" "(s'', p) \<in> known ?h"
  then have "p = next_pc h \<and> s' = s \<and> s'' = s \<or> p \<noteq> next_pc h \<and> (s', p) \<in> known h \<and> (s'', p) \<in> known h"
    using new by auto
  then show "s'' = s'" using sessions_okD(6) [OF ok, of s' p s''] by auto
next
  fix p assume "p \<in> open_pcs ?h"
  then show "p < next_pc ?h \<and> (p \<in> answered ?h \<or> (\<exists>s. (s, p) \<in> armed ?h \<union> reaping ?h))"
    using sessions_okD(3,4) [OF ok, of p] by (auto simp: less_Suc_eq)
next
  fix s' p assume "sessions ?h s' = Some p"
  then show "p \<in> open_pcs ?h \<and> (s', p) \<in> known ?h"
    using sessions_okD(1,2) [OF ok, of s' p] by (simp split: if_splits)
next
  fix s' p assume "(s', p) \<in> known ?h"
  then show "p < next_pc ?h" using sessions_okD(5) [OF ok, of s' p] by auto
qed (use sessions_okD(7) [OF ok] in auto)

lemma sessions_ok_abandon:
  assumes ok: "sessions_ok h"
  shows "sessions_ok (close_pc (next_pc h) (h\<lparr>open_pcs := insert (next_pc h) (open_pcs h), next_pc := Suc (next_pc h)\<rparr>))"
    (is "sessions_ok ?h")
proof (rule sessions_okI)
  fix s' p assume "sessions ?h s' = Some p"
  then have e: "sessions h s' = Some p" by (simp add: close_pc_def)
  from sessions_okD(1,2) [OF ok e] sessions_okD(3) [OF ok, of p]
  show "p \<in> open_pcs ?h \<and> (s', p) \<in> known ?h" by (simp add: close_pc_def)
next
  fix p assume "p \<in> open_pcs ?h"
  then have "p \<in> open_pcs h" by (auto simp: close_pc_def)
  from sessions_okD(3,4) [OF ok this]
  show "p < next_pc ?h \<and> (p \<in> answered ?h \<or> (\<exists>s. (s, p) \<in> armed ?h \<union> reaping ?h))" by (simp add: close_pc_def)
next
  fix s' p assume "(s', p) \<in> known ?h"
  then show "p < next_pc ?h" using sessions_okD(5) [OF ok, of s' p] by (simp add: close_pc_def)
next
  fix s' s'' p assume "(s', p) \<in> known ?h" "(s'', p) \<in> known ?h"
  then show "s'' = s'" using sessions_okD(6) [OF ok, of s' p s''] by (simp add: close_pc_def)
qed (use sessions_okD(7) [OF ok] in \<open>simp add: close_pc_def\<close>)

lemma sessions_ok_offer: "sessions_ok h \<Longrightarrow> sessions_ok (snd (HandleOffer meth created negotiated random12 h))"
  using sessions_ok_create sessions_ok_abandon by (simp add: HandleOffer_def Let_def)

lemma sessions_ok_answer:
  assumes ok: "sessions_ok h"
  shows "sessions_ok (snd (HandleAnswer meth body accepted h))"
proof -
  have "sessions_ok (h\<lparr>answered := insert pc (answered h)\<rparr>)" for pc
    by (rule sessions_okI; use sessions_okD [OF ok] in simp; blast)
  then show ?thesis using ok by (simp add: HandleAnswer_def split: option.split)
qed

lemma sessions_ok_looks:
  assumes ok: "sessions_ok h" and k: "(s, pc) \<in> armed h"
  shows "sessions_ok (reaper_looks s pc h)"
proof (rule sessions_okI)
  fix p assume "p \<in> open_pcs (reaper_looks s pc h)"
  then have p: "p \<in> open_pcs h" by (simp add: reaper_looks_def split: if_splits)
  show "p < next_pc (reaper_looks s pc h) \<and> (p \<in> answered (reaper_looks s pc h)
    \<or> (\<exists>s'. (s', p) \<in> armed (reaper_looks s pc h) \<union> reaping (reaper_looks s pc h)))"
    using sessions_okD(3,4) [OF ok p] by (auto simp: reaper_looks_def)
next
  show "armed (reaper_looks s pc h) \<union> reaping (reaper_looks s pc h) \<subseteq> known (reaper_looks s pc h)"
    using sessions_okD(7) [OF ok] k by (auto simp: reaper_looks_def)
next
  fix s' s'' p assume "(s', p) \<in> known (reaper_looks s pc h)" "(s'', p) \<in> known (reaper_looks s pc h)"
  then show "s'' = s'" using sessions_okD(6) [OF ok, of s' p s''] by (simp add: reaper_looks_def split: if_splits)
qed (use sessions_okD(1,2,5) [OF ok] in \<open>simp_all add: reaper_looks_def split: if_splits\<close>)

lemma hub_inv_reach:
  assumes "signal_reach ss h" "distinct (map sid ss)"
  shows "hub_inv ss h"
  using assms(1)
proof (induction rule: signal_reach.induct)
  case (start tracks_ok h)
  let ?h = "\<lparr>streams = ss, runners = Map.empty, readers = Map.empty, next_reader = 0,
       sessions = Map.empty, open_pcs = {}, answered = {}, known = {}, armed = {}, reaping = {}, next_pc = 0\<rparr>"
  have "readers_ok ?h" "all_run ?h" "sessionless ?h" by (simp_all add: readers_ok_def all_run_def sessionless_def)
  from add_streams_ok [OF this assms(2)]
  have "readers_ok (fold add_stream ss ?h)" "all_run (fold add_stream ss ?h)" "sessionless (fold add_stream ss ?h)"
    "streams (fold add_stream ss ?h) = ss" "dom (runners (fold add_stream ss ?h)) = sid ` set ss" by simp_all
  moreover have "h = fold add_stream ss ?h" using start by (simp add: NewHub_def split: if_splits)
  ultimately show ?case by (simp add: hub_inv_def sessionless_def sessions_ok_def)
next
  case (quality h i q)
  show ?case
  proof (cases "q \<in> {qualitySD, qualityHD} \<and> i \<in> sid ` set (streams h)")
    case True
    then have "i \<in> dom (runners h)" using quality.IH by (simp add: hub_inv_def)
    with True hub_inv_quality [OF quality.IH] show ?thesis by (auto simp: SetQuality_def)
  next
    case False
    then have "snd (SetQuality i q h) = h" by (auto simp: SetQuality_def)
    then show ?thesis using quality.IH by simp
  qed
next
  case (offer h meth created negotiated random12)
  then show ?case
    by (intro hub_inv_cong [OF offer.IH] sessions_ok_offer)
      (simp_all add: HandleOffer_def close_pc_def Let_def hub_inv_def)
next
  case (answer h meth body accepted)
  then have "sessions_ok (snd (HandleAnswer meth body accepted h))"
    by (intro sessions_ok_answer) (simp add: hub_inv_def)
  then show ?case
    by (intro hub_inv_cong [OF answer.IH]) (simp_all add: HandleAnswer_def split: option.split)
next
  case (state_change h s pc st)
  have "sessions_ok (dropSession s pc (h\<lparr>reaping := reaping h\<rparr>))"
    by (rule sessions_ok_drop) (use state_change in \<open>simp_all add: hub_inv_def\<close>)
  then have "hub_inv ss (dropSession s pc h)"
    by (intro hub_inv_cong [OF state_change.IH]) simp_all
  then show ?case using state_change.IH by (simp add: OnConnectionStateChange_def)
next
  case (reaper_fires h s pc)
  have "sessions_ok (reaper_looks s pc h)"
    by (rule sessions_ok_looks) (use reaper_fires in \<open>simp_all add: hub_inv_def\<close>)
  then show ?case by (intro hub_inv_cong [OF reaper_fires.IH]) (simp_all add: reaper_looks_def)
next
  case (reaper_ends h s pc)
  have "sessions_ok (reaper_drops s pc h)" unfolding reaper_drops_def
    by (rule sessions_ok_drop) (use reaper_ends in \<open>auto simp: hub_inv_def sessions_ok_def\<close>)
  then show ?case by (intro hub_inv_cong [OF reaper_ends.IH]) (simp_all add: reaper_drops_def)
qed

section \<open>Properties\<close>

definition sample_stream :: StreamConfig where
  "sample_stream = \<lparr>sid = ''vto'', sname = ''Gate'', host = ''10.0.0.2'', user = [], pass = [], door = True,
    rtspPathTemplate = [], codecName = [], sipExt = [], sipPass = [], rtspURLOverride = [], doorURLOverride = []\<rparr>"

text \<open>The hub of one stream once started, switched to the sub stream, and asked for an offer.\<close>

definition sample_started :: hub where
  "sample_started = \<lparr>streams = [sample_stream], runners = [''vto'' \<mapsto> Some (0, qualityHD)],
    readers = [0 \<mapsto> (''vto'', 0)], next_reader = 1, sessions = Map.empty, open_pcs = {}, answered = {}, known = {},
    armed = {}, reaping = {}, next_pc = 0\<rparr>"

definition sample_switched :: hub where
  "sample_switched = snd (SetQuality ''vto'' qualitySD sample_started)"

definition sample_offered :: hub where
  "sample_offered = snd (HandleOffer ''POST'' True True ''r'' sample_switched)"

lemma sample_reach: "signal_reach [sample_stream] sample_switched" "signal_reach [sample_stream] sample_offered"
proof -
  have "NewHub (\<lambda>_. True) [sample_stream] = Some sample_started"
    by (simp add: NewHub_def add_stream_def startReader_def subtypeFor_def sample_stream_def sample_started_def)
  then have "signal_reach [sample_stream] sample_started" by (rule signal_reach.start)
  then show s: "signal_reach [sample_stream] sample_switched" unfolding sample_switched_def by (rule signal_reach.quality)
  then show "signal_reach [sample_stream] sample_offered" unfolding sample_offered_def by (rule signal_reach.offer)
qed

lemma sample_quality: "Quality ''vto'' sample_switched = qualitySD"
  by (simp add: sample_switched_def sample_started_def SetQuality_def startReader_def Quality_def sample_stream_def
      qualitySD_def qualityHD_def)

lemma sample_open: "open_pcs sample_offered = {0}" "answered sample_offered = {}"
  by (simp_all add: sample_offered_def HandleOffer_def Let_def sample_switched_def SetQuality_def sample_started_def)

text \<open>
  However offers, quality switches and reapers interleave, every stream has exactly one reader, and it
  pulls the subtype of the quality the page is told.
\<close>

text \<open>
  C14: However offers, quality switches, callbacks and reapers interleave, every configured stream
  has exactly one running RTSP reader, and it pulls the subtype of the quality the page is told.
\<close>

theorem one_reader_per_stream:
  assumes "signal_reach ss h" "distinct (map sid ss)" "s \<in> set ss"
  shows "\<exists>!i. readers h i = Some (sid s, subtypeFor (Quality (sid s) h)) \<and> (\<forall>k t. readers h k = Some (sid s, t) \<longrightarrow> k = i)"
proof -
  have inv: "hub_inv ss h" by (rule hub_inv_reach [OF assms(1,2)])
  then have "sid s \<in> dom (runners h)" "runners h (sid s) \<noteq> Some None" using assms(3) by (simp_all add: hub_inv_def all_run_def)
  then obtain i q where r: "runners h (sid s) = Some (Some (i, q))" by auto
  have "readers h k = Some (sid s, t) \<longleftrightarrow> k = i \<and> t = subtypeFor q" for k t
    using inv r by (auto simp: hub_inv_def readers_ok_def)
  moreover have "Quality (sid s) h = q" using r by (simp add: Quality_def)
  ultimately show ?thesis by auto
qed

theorem one_reader_per_stream_witness:
  "\<exists>!i. readers sample_switched i = Some (''vto'', 1) \<and> (\<forall>k t. readers sample_switched k = Some (''vto'', t) \<longrightarrow> k = i)"
  using one_reader_per_stream [OF sample_reach(1), of sample_stream] sample_quality
  by (simp add: sample_stream_def subtypeFor_def qualitySD_def qualityHD_def)

text \<open>
  A session leads to an open connection, and an open connection that is not answered has a reaper that
  will look at it or is about to drop it: no browser that walks away keeps one open.
\<close>

text \<open>
  C37: In every reachable state a session leads to an open connection, and an open connection that
  was not answered still has a reaper that will look at it or is about to drop it: no browser that
  walks away keeps one open.
\<close>

theorem unanswered_sessions_are_reaped:
  assumes "signal_reach ss h" "distinct (map sid ss)"
  shows "ran (sessions h) \<subseteq> open_pcs h \<and> open_pcs h \<subseteq> answered h \<union> snd ` (armed h \<union> reaping h)"
proof -
  have "sessions_ok h" using hub_inv_reach [OF assms] by (simp add: hub_inv_def)
  then show ?thesis using sessions_okD(1,4) [of h] by (force simp: ran_def)
qed

theorem unanswered_sessions_are_reaped_witness: "0 \<in> snd ` (armed sample_offered \<union> reaping sample_offered)"
  using unanswered_sessions_are_reaped [OF sample_reach(2)] sample_open by simp

end
