(* ===== verification/WhatsApp.thy ===== *)
theory WhatsApp
  imports Bell
begin

text \<open>
  \<open>whatsapp.go\<close>: the recipients, the pairing state and the sends of the doorbell notifier.  whatsmeow's
  clients are numbered; what they answer and which events they deliver is the environment's.
\<close>

section \<open>State\<close>

record JID =
  User :: string
  Server :: string

record WhatsAppConfig =
  wa_session :: string
  wa_recipients :: "string list"
  wa_intro :: string

text \<open>A Repair in progress: it unlinks the client it read, or connects the one it made.\<close>

datatype repair_stage = Unlinking nat | Connecting nat

text \<open>
  \<open>store_id\<close> is whatsmeow's \<open>Store.ID\<close> of every client, \<open>watchers\<close> the clients whose \<open>watchQR\<close> goroutine
  runs, \<open>repairs\<close> the Repair calls in progress.  \<open>paired_by\<close> is the client whose pairing made \<open>ready\<close>
  true, which the code does not keep.
\<close>

record whatsapp =
  rawRecipients :: "string list"
  recipients :: "JID list"
  introMessage :: string
  ready :: bool
  wclient :: nat
  qrCode :: string
  qrPNG :: string
  qrAt :: instant
  store_id :: "nat \<rightharpoonup> string"
  next_client :: nat
  watchers :: "nat set"
  repairs :: "nat \<rightharpoonup> repair_stage"
  paired_by :: nat

section \<open>Construction\<close>

definition defaultUserServer :: string where
  "defaultUserServer = ''s.whatsapp.net''"

text \<open>\<open>strings.Map\<close> drops every rune that is not a digit; no byte of a longer rune is one.\<close>

definition parseRecipient :: "string \<Rightarrow> JID option" where
  "parseRecipient raw = (let digits = filter is_digit raw in
     if digits = [] then None else Some \<lparr>User = digits, Server = defaultUserServer\<rparr>)"

fun parse_recipients :: "string list \<Rightarrow> string + JID list" where
  "parse_recipients [] = Inr []"
| "parse_recipients (r # rs) = (case parseRecipient r of
      None \<Rightarrow> Inl r
    | Some j \<Rightarrow> (case parse_recipients rs of Inl e \<Rightarrow> Inl e | Inr js \<Rightarrow> Inr (j # js)))"

datatype wa_error = SessionRequired | NoRecipients | BadRecipient string | SessionDB | QrChannel | ConnectFailed

text \<open>
  The parameters are whether the database opened and was upgraded, the device it holds, and whether the
  QR channel was granted and the connection made; \<open>default_intro\<close> is the Arabic announcement.
\<close>

definition NewWhatsAppClient ::
  "string \<Rightarrow> bool \<Rightarrow> string option \<Rightarrow> bool \<Rightarrow> bool \<Rightarrow> WhatsAppConfig \<Rightarrow> wa_error + whatsapp" where
  "NewWhatsAppClient default_intro db_ok device qr_ok connected cfg =
    (if wa_session cfg = [] then Inl SessionRequired
     else if wa_recipients cfg = [] then Inl NoRecipients
     else (case parse_recipients (wa_recipients cfg) of
         Inl r \<Rightarrow> Inl (BadRecipient r)
       | Inr js \<Rightarrow>
           if \<not> db_ok then Inl SessionDB
           else (let w = \<lparr>rawRecipients = wa_recipients cfg, recipients = js,
               introMessage = (if wa_intro cfg = [] then default_intro else wa_intro cfg), ready = False, wclient = 0,
               qrCode = [], qrPNG = [], qrAt = zero_instant, store_id = (\<lambda>c. if c = 0 then device else None),
               next_client = 1, watchers = {}, repairs = Map.empty, paired_by = 0\<rparr>
             in if device = None then
                  (if \<not> qr_ok then Inl QrChannel else if \<not> connected then Inl ConnectFailed
                   else Inr (w\<lparr>watchers := {0}\<rparr>))
                else if \<not> connected then Inl ConnectFailed
                else Inr (w\<lparr>ready := True\<rparr>))))"

section \<open>Pairing\<close>

text \<open>\<open>render\<close> is \<open>renderQRPNG\<close>: empty when the QR library refuses the text.\<close>

definition setQR :: "(string \<Rightarrow> string) \<Rightarrow> instant \<Rightarrow> string \<Rightarrow> whatsapp \<Rightarrow> whatsapp" where
  "setQR render now code w = w\<lparr>qrCode := code, qrAt := now, qrPNG := render code\<rparr>"

definition clearQR :: "whatsapp \<Rightarrow> whatsapp" where
  "clearQR w = w\<lparr>qrCode := [], qrPNG := [], qrAt := zero_instant\<rparr>"

datatype qr_event = QrCode string | QrSuccess | QrTimeout | QrOther string

text \<open>
  One event of the QR channel of client \<open>c\<close>, and whether \<open>watchQR\<close> starts \<open>sendIntro\<close>.  \<open>QrSuccess\<close> and
  \<open>QrTimeout\<close> end the goroutine.
\<close>

definition watchQR :: "(string \<Rightarrow> string) \<Rightarrow> instant \<Rightarrow> nat \<Rightarrow> qr_event \<Rightarrow> whatsapp \<Rightarrow> bool \<times> whatsapp" where
  "watchQR render now c evt w = (case evt of
      QrCode code \<Rightarrow> (False, setQR render now code w)
    | QrSuccess \<Rightarrow> (True, (clearQR w)\<lparr>ready := True, watchers := watchers w - {c}, paired_by := c\<rparr>)
    | QrTimeout \<Rightarrow> (False, (clearQR w)\<lparr>watchers := watchers w - {c}\<rparr>)
    | QrOther _ \<Rightarrow> (False, w))"

text \<open>The channel is closed: the loop over it ends.\<close>

definition watcher_ends :: "nat \<Rightarrow> whatsapp \<Rightarrow> whatsapp" where
  "watcher_ends c w = w\<lparr>watchers := watchers w - {c}\<rparr>"

text \<open>
  \<open>Repair\<close> in the steps other goroutines come between: it reads the client, logs it out or disconnects
  it, forgets the pairing and makes a new client, connects that, and swaps it in.
\<close>

datatype wa_call = Logout nat | Disconnect nat | GetQRChannel nat | Connect nat
  | UploadImage nat string | SendText nat JID string | SendImageMessage nat JID string string

definition unlink_calls :: "bool \<Rightarrow> nat \<Rightarrow> whatsapp \<Rightarrow> wa_call list" where
  "unlink_calls logout_ok c w = (if store_id w c \<noteq> None
     then (if logout_ok then [Logout c] else [Logout c, Disconnect c]) else [Disconnect c])"

definition repair_begin :: "nat \<Rightarrow> whatsapp \<Rightarrow> whatsapp" where
  "repair_begin k w = w\<lparr>repairs := (repairs w)(k \<mapsto> Unlinking (wclient w))\<rparr>"

definition repair_unlinked :: "nat \<Rightarrow> whatsapp \<Rightarrow> whatsapp" where
  "repair_unlinked k w = (let w = clearQR (w\<lparr>ready := False\<rparr>); c = next_client w
     in w\<lparr>next_client := Suc c, store_id := (store_id w)(c := None), repairs := (repairs w)(k \<mapsto> Connecting c)\<rparr>)"

definition repair_failed :: "nat \<Rightarrow> whatsapp \<Rightarrow> whatsapp" where
  "repair_failed k w = w\<lparr>repairs := (repairs w)(k := None)\<rparr>"

definition repair_swap :: "nat \<Rightarrow> nat \<Rightarrow> whatsapp \<Rightarrow> whatsapp" where
  "repair_swap k c w = w\<lparr>wclient := c, watchers := insert c (watchers w), repairs := (repairs w)(k := None)\<rparr>"

text \<open>A Repair nothing comes between.\<close>

definition Repair :: "bool \<Rightarrow> bool \<Rightarrow> bool \<Rightarrow> nat \<Rightarrow> whatsapp \<Rightarrow> wa_error option \<times> wa_call list \<times> whatsapp" where
  "Repair logout_ok qr_ok connected k w =
    (let c = wclient w; calls = unlink_calls logout_ok c w; n = next_client w;
         w = repair_unlinked k (repair_begin k w)
     in if \<not> qr_ok then (Some QrChannel, calls @ [GetQRChannel n], repair_failed k w)
        else if \<not> connected then (Some ConnectFailed, calls @ [GetQRChannel n, Connect n], repair_failed k w)
        else (None, calls @ [GetQRChannel n, Connect n], repair_swap k n w))"

text \<open>\<open>watchLogout\<close>'s handler, which every client gets: it starts a Repair.\<close>

definition on_logged_out :: "nat \<Rightarrow> whatsapp \<Rightarrow> whatsapp" where
  "on_logged_out k w = repair_begin k (clearQR (w\<lparr>ready := False\<rparr>))"

definition Close_wa :: "whatsapp \<Rightarrow> wa_call list" where
  "Close_wa w = [Disconnect (wclient w)]"

section \<open>The pages\<close>

record WhatsAppStatus =
  st_configured :: bool
  st_paired :: bool
  st_jid :: string
  st_recipients :: "string list"
  st_hasQR :: bool
  st_qrAt :: instant

definition Status_wa :: "whatsapp \<Rightarrow> WhatsAppStatus" where
  "Status_wa w = \<lparr>st_configured = True, st_paired = ready w,
     st_jid = (case store_id w (wclient w) of None \<Rightarrow> [] | Some j \<Rightarrow> j),
     st_recipients = rawRecipients w, st_hasQR = (length (qrPNG w) > 0), st_qrAt = qrAt w\<rparr>"

definition HandleQR_wa :: "whatsapp \<Rightarrow> nat \<times> string" where
  "HandleQR_wa w = (if length (qrPNG w) = 0 then (404, []) else (200, qrPNG w))"

definition HandleUnpair ::
  "string \<Rightarrow> bool \<Rightarrow> bool \<Rightarrow> bool \<Rightarrow> nat \<Rightarrow> whatsapp \<Rightarrow> nat \<times> wa_call list \<times> whatsapp" where
  "HandleUnpair meth logout_ok qr_ok connected k w =
    (if meth \<noteq> ''POST'' then (405, [], w)
     else (case Repair logout_ok qr_ok connected k w of
         (Some _, calls, w) \<Rightarrow> (500, calls, w)
       | (None, calls, w) \<Rightarrow> (204, calls, w)))"

section \<open>Sending\<close>

text \<open>
  \<open>waitClientReady\<close>: the first look, and then the ticks until the client is up or the context ends;
  \<open>None\<close> while neither has happened.
\<close>

datatype ready_tick = CtxDone | Tick bool

fun wait_ticks :: "ready_tick list \<Rightarrow> bool option" where
  "wait_ticks [] = None"
| "wait_ticks (CtxDone # ts) = Some False"
| "wait_ticks (Tick up # ts) = (if up then Some True else wait_ticks ts)"

definition waitClientReady :: "bool \<Rightarrow> ready_tick list \<Rightarrow> bool option" where
  "waitClientReady up ts = (if up then Some True else wait_ticks ts)"

text \<open>
  \<open>waitAppStateSync\<close> over what its \<open>select\<close> can pick; without a fallback there is no timer channel.
\<close>

datatype sync_pick = SyncComplete | FallbackFired | SyncCtxDone

fun waitAppStateSync :: "duration \<Rightarrow> sync_pick list \<Rightarrow> bool option" where
  "waitAppStateSync fallback [] = None"
| "waitAppStateSync fallback (SyncComplete # ps) = Some True"
| "waitAppStateSync fallback (FallbackFired # ps) = (if fallback > 0 then Some False else waitAppStateSync fallback ps)"
| "waitAppStateSync fallback (SyncCtxDone # ps) = Some False"

lemma sync_wait_ends:
  "SyncCtxDone \<in> set ps \<or> fallback > 0 \<and> FallbackFired \<in> set ps \<Longrightarrow> waitAppStateSync fallback ps \<noteq> None"
  by (induction fallback ps rule: waitAppStateSync.induct) auto

text \<open>
  \<open>sendIntro\<close>, once the wait is over: the outcome of \<open>waitAppStateSync\<close> is only logged, and so is a
  failing send.
\<close>

definition sendIntro :: "bool \<Rightarrow> whatsapp \<Rightarrow> wa_call list" where
  "sendIntro up w = (if introMessage w = [] then [] else if \<not> up then []
     else map (\<lambda>j. SendText (wclient w) j (introMessage w)) (recipients w))"

datatype send_error = NotPaired | EmptyImage | UploadFailed | SendFailed string

fun send_all :: "(nat \<Rightarrow> string option) \<Rightarrow> nat \<Rightarrow> JID list \<Rightarrow> string list" where
  "send_all send i [] = []"
| "send_all send i (j # js) = (case send i of
      None \<Rightarrow> send_all send (Suc i) js
    | Some e \<Rightarrow> (User j @ '': '' @ e) # send_all send (Suc i) js)"

text \<open>\<open>upload\<close>: the reference whatsmeow gives the image; \<open>send i\<close>: the error of the \<open>i\<close>-th send.\<close>

definition SendImage ::
  "string option \<Rightarrow> (nat \<Rightarrow> string option) \<Rightarrow> string \<Rightarrow> string \<Rightarrow> whatsapp \<Rightarrow> send_error option \<times> wa_call list" where
  "SendImage upload send jpeg caption w =
    (if \<not> ready w then (Some NotPaired, [])
     else if jpeg = [] then (Some EmptyImage, [])
     else (case upload of
         None \<Rightarrow> (Some UploadFailed, [UploadImage (wclient w) jpeg])
       | Some ref \<Rightarrow>
           (let calls = UploadImage (wclient w) jpeg # map (\<lambda>j. SendImageMessage (wclient w) j ref caption) (recipients w);
                errs = send_all send 0 (recipients w)
            in if errs \<noteq> [] then (Some (SendFailed (join ''; '' errs)), calls) else (None, calls))))"

section \<open>Runs\<close>

text \<open>
  Everything that happens to the notifier: events of the QR channels with a watcher, changes of the
  stored identities, and the steps of Repair calls.  \<open>alone\<close> restricts the runs to those in which a
  Repair starts only when no other is in progress and no pairing is being watched.
\<close>

definition quiet :: "whatsapp \<Rightarrow> bool" where
  "quiet w \<longleftrightarrow> watchers w = {} \<and> repairs w = Map.empty"

inductive wa_reach :: "bool \<Rightarrow> (string \<Rightarrow> string) \<Rightarrow> WhatsAppConfig \<Rightarrow> whatsapp \<Rightarrow> bool" for alone render cfg where
  start: "NewWhatsAppClient intro db_ok device qr_ok connected cfg = Inr w \<Longrightarrow> wa_reach alone render cfg w"
| qr: "wa_reach alone render cfg w \<Longrightarrow> c \<in> watchers w \<Longrightarrow> wa_reach alone render cfg (snd (watchQR render now c evt w))"
| closed: "wa_reach alone render cfg w \<Longrightarrow> wa_reach alone render cfg (watcher_ends c w)"
| identity: "wa_reach alone render cfg w \<Longrightarrow> wa_reach alone render cfg (w\<lparr>store_id := ids\<rparr>)"
| logged_out: "wa_reach alone render cfg w \<Longrightarrow> repairs w k = None \<Longrightarrow> (alone \<Longrightarrow> quiet w)
    \<Longrightarrow> wa_reach alone render cfg (on_logged_out k w)"
| repair: "wa_reach alone render cfg w \<Longrightarrow> repairs w k = None \<Longrightarrow> (alone \<Longrightarrow> quiet w)
    \<Longrightarrow> wa_reach alone render cfg (repair_begin k w)"
| unlinked: "wa_reach alone render cfg w \<Longrightarrow> repairs w k = Some (Unlinking c) \<Longrightarrow> wa_reach alone render cfg (repair_unlinked k w)"
| refused: "wa_reach alone render cfg w \<Longrightarrow> repairs w k = Some (Connecting c) \<Longrightarrow> wa_reach alone render cfg (repair_failed k w)"
| swapped: "wa_reach alone render cfg w \<Longrightarrow> repairs w k = Some (Connecting c) \<Longrightarrow> wa_reach alone render cfg (repair_swap k c w)"

section \<open>Recipients\<close>

lemma parse_recipients_ok:
  "parse_recipients rs = Inr js \<Longrightarrow> map User js = map (filter is_digit) rs \<and> (\<forall>j \<in> set js. User j \<noteq> [])"
  by (induction rs arbitrary: js) (auto simp: parseRecipient_def Let_def split: option.splits sum.splits if_splits)

lemma client_recipients:
  assumes "NewWhatsAppClient intro db_ok device qr_ok connected cfg = Inr w"
  shows "map User (recipients w) = map (filter is_digit) (wa_recipients cfg) \<and> (\<forall>j \<in> set (recipients w). User j \<noteq> [])"
  using assms parse_recipients_ok [of "wa_recipients cfg"]
  by (cases "parse_recipients (wa_recipients cfg)") (auto simp: NewWhatsAppClient_def Let_def split: if_splits)

lemma step_recipients [simp]:
  "recipients (snd (watchQR render now c evt w)) = recipients w" "recipients (watcher_ends c w) = recipients w"
  "recipients (on_logged_out k w) = recipients w" "recipients (repair_begin k w) = recipients w"
  "recipients (repair_unlinked k w) = recipients w" "recipients (repair_failed k w) = recipients w"
  "recipients (repair_swap k c w) = recipients w"
  by (simp_all add: watchQR_def setQR_def clearQR_def watcher_ends_def on_logged_out_def repair_begin_def
      repair_unlinked_def repair_failed_def repair_swap_def Let_def split: qr_event.split)

lemma reach_recipients:
  assumes "wa_reach alone render cfg w"
  shows "map User (recipients w) = map (filter is_digit) (wa_recipients cfg) \<and> (\<forall>j \<in> set (recipients w). User j \<noteq> [])"
  using assms
proof (induction rule: wa_reach.induct)
  case (start intro db_ok device qr_ok connected w)
  then show ?case by (rule client_recipients)
qed simp_all

lemma send_all_Nil: "send_all send i js = [] \<longleftrightarrow> (\<forall>n < length js. send (i + n) = None)"
proof (induction js arbitrary: i)
  case (Cons j js)
  show ?case
  proof (cases "send i")
    case None
    have "(\<forall>n < length js. send (Suc i + n) = None) \<longleftrightarrow> (\<forall>n < length (j # js). send (i + n) = None)"
    proof
      assume a: "\<forall>n < length js. send (Suc i + n) = None"
      show "\<forall>n < length (j # js). send (i + n) = None"
      proof (intro allI impI)
        fix n assume "n < length (j # js)"
        then show "send (i + n) = None" using a None by (cases n) simp_all
      qed
    next
      assume "\<forall>n < length (j # js). send (i + n) = None"
      then show "\<forall>n < length js. send (Suc i + n) = None" by (metis Suc_less_eq add_Suc_shift length_Cons)
    qed
    with None Cons.IH show ?thesis by simp
  next
    case (Some e)
    then show ?thesis by (auto intro: exI [of _ 0])
  qed
qed simp

section \<open>The pairing invariant\<close>

definition pairing_ok :: "whatsapp \<Rightarrow> bool" where
  "pairing_ok w \<longleftrightarrow> (ready w \<longrightarrow> qrPNG w = [] \<and> paired_by w = wclient w \<and> watchers w = {})
     \<and> watchers w \<subseteq> {wclient w}
     \<and> (\<forall>k. repairs w k \<noteq> None \<longrightarrow> watchers w = {} \<and> (\<forall>i. repairs w i \<noteq> None \<longrightarrow> i = k))
     \<and> (\<forall>k c. repairs w k = Some (Connecting c) \<longrightarrow> \<not> ready w)"

lemmas wa_steps = watchQR_def setQR_def clearQR_def watcher_ends_def on_logged_out_def repair_begin_def
  repair_unlinked_def repair_failed_def repair_swap_def Let_def

lemma pairing_ok_watch:
  assumes "pairing_ok w" "c \<in> watchers w"
  shows "pairing_ok (snd (watchQR render now c evt w))"
proof -
  have "watchers w = {c}" "wclient w = c" "\<not> ready w" "\<And>k. repairs w k = None"
    using assms unfolding pairing_ok_def by blast+
  then show ?thesis by (cases evt) (simp_all add: pairing_ok_def wa_steps)
qed

lemma pairing_ok_begin:
  assumes "pairing_ok w" "quiet w"
  shows "pairing_ok (repair_begin k w)" "pairing_ok (on_logged_out k w)"
  using assms by (simp_all add: pairing_ok_def quiet_def wa_steps)

lemma pairing_okI:
  assumes "watchers w = {}" "\<not> ready w" "\<And>i. repairs w i \<noteq> None \<Longrightarrow> i = k"
  shows "pairing_ok w"
proof -
  have "i = j" if "repairs w i \<noteq> None" "repairs w j \<noteq> None" for i j
    using assms(3) [OF that(1)] assms(3) [OF that(2)] by simp
  then show ?thesis using assms(1,2) unfolding pairing_ok_def by simp
qed

lemma only_repair:
  assumes "pairing_ok w" "repairs w k = Some st"
  shows "watchers w = {}" "i \<noteq> k \<Longrightarrow> repairs w i = None"
proof -
  have "repairs w k \<noteq> None" using assms(2) by simp
  with assms(1) have "watchers w = {} \<and> (\<forall>i. repairs w i \<noteq> None \<longrightarrow> i = k)" unfolding pairing_ok_def by blast
  then show "watchers w = {}" "i \<noteq> k \<Longrightarrow> repairs w i = None" by blast+
qed

lemma pairing_ok_repair:
  assumes "pairing_ok w" "repairs w k = Some st"
  shows "pairing_ok (repair_unlinked k w)" "pairing_ok (repair_failed k w)"
    "st = Connecting c \<Longrightarrow> pairing_ok (repair_swap k c w)"
proof -
  note only = only_repair [OF assms]
  have free: "repairs w i \<noteq> None \<Longrightarrow> i = k" for i using only(2) [of i] by (cases "i = k") simp_all
  show "pairing_ok (repair_unlinked k w)"
  proof (rule pairing_okI)
    show "repairs (repair_unlinked k w) i \<noteq> None \<Longrightarrow> i = k" for i
      using free [of i] by (cases "i = k") (simp_all add: wa_steps)
  qed (use only(1) in \<open>simp_all add: wa_steps\<close>)
  have gone: "((repairs w)(k := None)) = Map.empty" using only(2) by (auto simp: fun_eq_iff)
  show "pairing_ok (repair_failed k w)" using assms(1) only(1) gone by (simp add: pairing_ok_def wa_steps)
  show "pairing_ok (repair_swap k c w)" if "st = Connecting c"
  proof -
    have "\<not> ready w" using assms that unfolding pairing_ok_def by blast
    then show ?thesis using only(1) gone by (simp add: pairing_ok_def wa_steps)
  qed
qed

lemma pairing_ok_reach:
  assumes "wa_reach True render cfg w"
  shows "pairing_ok w"
  using assms
proof (induction rule: wa_reach.induct)
  case (start intro db_ok device qr_ok connected w)
  then show ?case
    by (auto simp: NewWhatsAppClient_def pairing_ok_def Let_def split: if_splits sum.splits)
next
  case (closed w c)
  then show ?case by (auto simp: pairing_ok_def watcher_ends_def)
next
  case (identity w ids)
  then show ?case by (simp add: pairing_ok_def)
qed (use pairing_ok_watch pairing_ok_begin pairing_ok_repair in simp_all)

section \<open>Properties\<close>

text \<open>
  Whatever happened to the notifier, an image is uploaded at most once and goes to the digits of every
  configured number, once and in order, when the notifier is paired, the image is not empty and the
  upload succeeds; else to none.  A failing send stops no other, and success means all succeeded.
\<close>

text \<open>
  C38: Whatever happened to the notifier, an image goes to the digits of every configured number,
  once and in order, when the notifier is paired, the image is not empty and the upload succeeds,
  and else to none; a failing send stops no other, and success means that all succeeded.
\<close>

theorem image_goes_to_every_number:
  assumes "wa_reach alone render cfg w" "SendImage upload send jpeg caption w = (e, calls)"
  shows "[User j. SendImageMessage c j ref cap \<leftarrow> calls]
       = (if ready w \<and> jpeg \<noteq> [] \<and> upload \<noteq> None then map (filter is_digit) (wa_recipients cfg) else [])
    \<and> (e = None \<longleftrightarrow> ready w \<and> jpeg \<noteq> [] \<and> upload \<noteq> None \<and> (\<forall>n < length (wa_recipients cfg). send n = None))"
proof -
  have r: "map User (recipients w) = map (filter is_digit) (wa_recipients cfg)"
    using reach_recipients [OF assms(1)] ..
  then have len: "length (recipients w) = length (wa_recipients cfg)" by (metis length_map)
  have sent: "[User j. SendImageMessage c j ref cap \<leftarrow> map (\<lambda>j. SendImageMessage a j b caption) js] = map User js" for a b js
    by (induction js) simp_all
  note nil = send_all_Nil [of send 0 "recipients w", unfolded len]
  show ?thesis
  proof (cases "ready w \<and> jpeg \<noteq> [] \<and> upload \<noteq> None")
    case False
    with assms(2) show ?thesis by (cases upload) (auto simp: SendImage_def split: if_splits)
  next
    case True
    then obtain u where u: "upload = Some u" by blast
    let ?calls = "UploadImage (wclient w) jpeg # map (\<lambda>j. SendImageMessage (wclient w) j u caption) (recipients w)"
    have "calls = ?calls" "e = None \<longleftrightarrow> send_all send 0 (recipients w) = []"
      using assms(2) True u by (auto simp: SendImage_def Let_def split: if_splits)
    then show ?thesis using True sent [of "wclient w" u "recipients w"] r nil by simp
  qed
qed

text \<open>
  When Repairs and pairings do not overlap, a notifier that says it is paired sends with the client that
  was paired, and shows no QR code.
\<close>

text \<open>
  C39: When Repairs and pairings do not overlap, a notifier that says it is paired sends with the
  client that was paired, and its QR page is 404.
\<close>

theorem paired_page_shows_no_code:
  assumes "wa_reach True render cfg w" "st_paired (Status_wa w)"
  shows "HandleQR_wa w = (404, []) \<and> \<not> st_hasQR (Status_wa w) \<and> paired_by w = wclient w"
  using pairing_ok_reach [OF assms(1)] assms(2) by (simp add: pairing_ok_def Status_wa_def HandleQR_wa_def)

text \<open>
  Nothing keeps two Repairs apart: from every idle notifier, two that overlap can leave it claiming to be
  paired while it sends with another, unpaired client and still serves a pairing code.
\<close>

lemma overlapping_repairs_pair_the_wrong_client:
  assumes "wa_reach False render cfg w" "quiet w" "render code \<noteq> []"
  shows "\<exists>w'. wa_reach False render cfg w' \<and> st_paired (Status_wa w') \<and> paired_by w' \<noteq> wclient w'
    \<and> HandleQR_wa w' = (200, render code)"
proof -
  let ?n = "next_client w"
  let ?b = "repair_unlinked 1 (repair_unlinked 0 (repair_begin 1 (repair_begin 0 w)))"
  let ?d = "repair_swap 1 (Suc ?n) (repair_swap 0 ?n ?b)"
  let ?e = "snd (watchQR render 0 ?n QrSuccess ?d)"
  let ?f = "snd (watchQR render 0 (Suc ?n) (QrCode code) ?e)"
  have idle: "repairs w = Map.empty" using assms(2) by (simp add: quiet_def)
  have "wa_reach False render cfg (repair_begin 0 w)" using assms(1) idle by (intro wa_reach.repair) simp_all
  then have "wa_reach False render cfg (repair_begin 1 (repair_begin 0 w))"
    by (rule wa_reach.repair) (simp_all add: idle repair_begin_def)
  then have "wa_reach False render cfg (repair_unlinked 0 (repair_begin 1 (repair_begin 0 w)))"
    by (rule wa_reach.unlinked) (simp add: repair_begin_def)
  then have "wa_reach False render cfg ?b"
    by (rule wa_reach.unlinked) (simp add: wa_steps)
  then have "wa_reach False render cfg (repair_swap 0 ?n ?b)"
    by (rule wa_reach.swapped) (simp add: wa_steps)
  then have "wa_reach False render cfg ?d" by (rule wa_reach.swapped) (simp add: wa_steps)
  then have "wa_reach False render cfg ?e" by (rule wa_reach.qr) (simp add: wa_steps)
  then have "wa_reach False render cfg ?f" by (rule wa_reach.qr) (simp add: wa_steps)
  moreover have "st_paired (Status_wa ?f) \<and> paired_by ?f \<noteq> wclient ?f \<and> HandleQR_wa ?f = (200, render code)"
    using assms(3) by (simp add: wa_steps Status_wa_def HandleQR_wa_def)
  ultimately show ?thesis by blast
qed

section \<open>Instances\<close>

definition family :: WhatsAppConfig where
  "family = \<lparr>wa_session = ''wa.db'', wa_recipients = [''+1 555'', ''972-5''], wa_intro = []\<rparr>"

definition resumed :: whatsapp where
  "resumed = \<lparr>rawRecipients = [''+1 555'', ''972-5''],
    recipients = [\<lparr>User = ''1555'', Server = defaultUserServer\<rparr>, \<lparr>User = ''9725'', Server = defaultUserServer\<rparr>],
    introMessage = ''hi'', ready = True, wclient = 0, qrCode = [], qrPNG = [], qrAt = zero_instant,
    store_id = [0 \<mapsto> ''me''], next_client = 1, watchers = {}, repairs = Map.empty, paired_by = 0\<rparr>"

lemma resumed_reach: "wa_reach alone render family resumed"
proof -
  have "NewWhatsAppClient ''hi'' True (Some ''me'') True True family = Inr resumed"
    by (simp add: NewWhatsAppClient_def family_def resumed_def parseRecipient_def is_digit_def Let_def)
      (simp add: fun_eq_iff)
  then show ?thesis by (rule wa_reach.start)
qed

theorem image_goes_to_every_number_witness:
  "[User j. SendImageMessage c j ref cap \<leftarrow> snd (SendImage (Some ''url'') (\<lambda>_. None) ''jpeg'' ''Ring'' resumed)] = [''1555'', ''9725'']"
proof -
  obtain e calls where s: "SendImage (Some ''url'') (\<lambda>_. None) ''jpeg'' ''Ring'' resumed = (e, calls)" by fastforce
  have "filter is_digit ''+1 555'' = ''1555''" "filter is_digit ''972-5'' = ''9725''" by code_simp+
  with image_goes_to_every_number [OF resumed_reach s] s show ?thesis by (simp add: resumed_def family_def)
qed

theorem paired_page_shows_no_code_witness: "HandleQR_wa resumed = (404, [])"
  using paired_page_shows_no_code [OF resumed_reach] by (simp add: Status_wa_def resumed_def)

lemma overlapping_repairs_pair_the_wrong_client_witness:
  "\<exists>w. wa_reach False (\<lambda>t. ''png'' @ t) family w \<and> st_paired (Status_wa w) \<and> HandleQR_wa w = (200, ''png'' @ ''2@x'')"
proof -
  have "quiet resumed" by (simp add: quiet_def resumed_def)
  from overlapping_repairs_pair_the_wrong_client [OF resumed_reach this, of "\<lambda>t. ''png'' @ t" "''2@x''"]
  show ?thesis by auto
qed

end
