(* ===== verification/Wiring.thy ===== *)
theory Wiring
  imports StreamApi Doors Centsys
begin

text \<open>
  \<open>main.go\<close>'s composition of guest access: the two buttons, the muxes of \<open>guestadmin.go\<close> and
  \<open>streamapi.go\<close>, the audit loop of \<open>guestwiring.go\<close>, which surfaces are built, and the public one as
  a whole over the store its two halves share.
\<close>

section \<open>The buttons\<close>

text \<open>\<open>guestDoorActions\<close>; \<open>streams\<close> is the door client's map.\<close>

definition OpenGate ::
  "'w broker \<Rightarrow> (centsysCreds \<Rightarrow> string \<Rightarrow> bool) \<Rightarrow> civil_time \<Rightarrow> centsys_ctl option \<Rightarrow> 'w \<Rightarrow> bool \<times> 'w" where
  "OpenGate broker connected t ctl w = (case ctl of
      None \<Rightarrow> (False, w)
    | Some c \<Rightarrow> (case Open_gate broker connected t c w of (e, io) \<Rightarrow> (e = None, bworld io)))"

definition OpenOutdoor ::
  "(string \<Rightarrow> string) \<Rightarrow> string \<Rightarrow> (string \<Rightarrow> bool) \<Rightarrow> 'w http_send \<Rightarrow> (string \<rightharpoonup> StreamConfig) \<Rightarrow> 'w \<Rightarrow> bool \<times> 'w" where
  "OpenOutdoor md5 bytes url_ok send streams w =
    (case Doors.Open md5 bytes url_ok send streams ''vto2'' w of (e, w) \<Rightarrow> (e = None, w))"

section \<open>Muxes\<close>

text \<open>
  A \<open>GET\<close> pattern also takes \<open>HEAD\<close>; a wildcard takes one segment that is not empty, and \<open>{file...}\<close>
  the rest of the path.  Paths hold no percent escapes.
\<close>

definition gets :: "http_request \<Rightarrow> bool" where
  "gets r \<longleftrightarrow> Method r \<in> {''GET'', ''HEAD''}"

definition not_found :: http_response where
  "not_found = respond 404 (Text ''404 page not found'')"

definition not_allowed :: http_response where
  "not_allowed = respond 405 (Text ''Method Not Allowed'')"

definition admin_routes ::
  "(string \<Rightarrow> string) \<Rightarrow> (string \<Rightarrow> string option) \<Rightarrow> string \<Rightarrow> api_env \<Rightarrow> http_request
     \<Rightarrow> 'w api_state \<Rightarrow> http_response \<times> 'w api_state" where
  "admin_routes h qr funnelBase env r st =
    (if \<not> canonical r then (redirect_to (cleanPath (Path r)), st)
     else (case split_on CHR ''/'' (Path r) of
         [[], a, b] \<Rightarrow>
           if a = ''admin'' \<and> b = ''guests'' then
             (if Method r = ''POST'' then admin_create h qr funnelBase env r st
              else if gets r then admin_list st else (not_allowed, st))
           else if a = ''admin'' \<and> b = ''audit'' then (if gets r then listAudit env r st else (not_allowed, st))
           else (not_found, st)
       | [[], a, b, i] \<Rightarrow>
           if a = ''admin'' \<and> b = ''guests'' \<and> i \<noteq> [] then
             (if Method r = ''DELETE'' then admin_revoke env i st else (not_allowed, st))
           else (not_found, st)
       | _ \<Rightarrow> (not_found, st)))"

datatype cam_route = CamSession string | CamHls string

definition cam_route_of :: "string \<Rightarrow> cam_route option" where
  "cam_route_of path = (case split_on CHR ''/'' path of
      [] # a # b # camera # c # rest \<Rightarrow>
        if a = ''guest'' \<and> b = ''cam'' \<and> camera \<noteq> [] then
          (if c = ''session'' \<and> rest = [] then Some (CamSession camera)
           else if c = ''hls'' \<and> rest \<noteq> [] then Some (CamHls camera) else None)
        else None
    | _ \<Rightarrow> None)"

datatype reply = Page http_response | Media hls_reply

definition stream_routes ::
  "(string \<Rightarrow> string) \<Rightarrow> (string \<Rightarrow> string \<Rightarrow> string) \<Rightarrow> string \<Rightarrow> player \<Rightarrow> instant
     \<Rightarrow> query \<Rightarrow> api_env \<Rightarrow> http_request \<Rightarrow> stream_api \<Rightarrow> reply \<times> stream_api" where
  "stream_routes h hmac secret pl now q env r st =
    (case cam_route_of (Path r) of
       None \<Rightarrow> (Page not_found, st)
     | Some (CamSession camera) \<Rightarrow>
         if Method r \<noteq> ''POST'' then (Page not_allowed, st)
         else (case session h hmac secret now env camera r st of (resp, st) \<Rightarrow> (Page resp, st))
     | Some (CamHls camera) \<Rightarrow>
         if \<not> gets r then (Page not_allowed, st)
         else (case hls hmac secret pl now camera (Path r) q (hub st) of
             (resp, hb) \<Rightarrow> (Media resp, st\<lparr>hub := hb\<rparr>)))"

section \<open>The audit loop\<close>

text \<open>One entry per tick: the clock, and whether the database takes the statement.\<close>

definition pruneAuditDaily :: "(instant \<times> bool) list \<Rightarrow> audit_store \<Rightarrow> audit_store" where
  "pruneAuditDaily ticks s = fold (\<lambda>(now, ok) s. snd (Prune ok (now - auditRetention) s)) ticks s"

section \<open>Start-up\<close>

text \<open>
  Everything a guest request works on.  The two APIs share the store and the log; a stream API adds its
  throttle and the hub.
\<close>

record 'w site =
  site_store :: guest_store
  site_audit :: audit_store
  site_world :: 'w
  site_stream :: "((string \<rightharpoonup> instant) \<times> streamHub) option"

text \<open>
  The \<open>switch\<close> of \<open>main\<close>: the site, its demo code, and whether the owner's API is mounted on the tailnet
  and the Funnel runs.  \<open>open_store\<close> and \<open>open_audit\<close> are the files behind the paths.
\<close>

record 'w guest_parts =
  parts_site :: "'w site"
  parts_demo :: string
  parts_base :: string
  parts_funnel :: bool

definition guest_startup ::
  "(string \<Rightarrow> guest_store option) \<Rightarrow> (string \<Rightarrow> audit_store) \<Rightarrow> bool \<Rightarrow> bool \<Rightarrow> 'w \<Rightarrow> GuestConfig option
     \<Rightarrow> 'w guest_parts option" where
  "guest_startup open_store open_audit ts funnel_ok w cfg = (case cfg of
      None \<Rightarrow> None
    | Some g \<Rightarrow>
        if \<not> ts then None
        else (case open_store (storePath g) of
            None \<Rightarrow> None
          | Some st \<Rightarrow>
              (let au = open_audit (auditPath g);
                   stream = (if gcameras g = [] then None
                     else map_option (\<lambda>a. (lastLoggedAt a, hub a))
                       (NewStreamAPI st (NewStreamHub (set (map fst (gcameras g)))) (streamSecret g) au))
               in Some \<lparr>parts_site = \<lparr>site_store = st, site_audit = au, site_world = w, site_stream = stream\<rparr>,
                    parts_demo = demoCode g, parts_base = publicBase g, parts_funnel = funnel_ok\<rparr>)))"

text \<open>
  \<open>startTailscale\<close>: which of its steps succeed, and what is left open with its result.
\<close>

datatype ts_resource = TsServer | TsUDP | TsTLS

datatype ts_error = TsStart | TsUp | TsNoIPv4 | TsListenUDP | TsListenTLS

definition startTailscale :: "bool \<Rightarrow> bool \<Rightarrow> bool \<Rightarrow> bool \<Rightarrow> bool \<Rightarrow> ts_error option \<times> ts_resource set" where
  "startTailscale started up ip4 udp tls =
    (if \<not> started then (Some TsStart, {})
     else (let s = {TsServer} in
       if \<not> up then (Some TsUp, s - {TsServer})
       else if \<not> ip4 then (Some TsNoIPv4, s - {TsServer})
       else if \<not> udp then (Some TsListenUDP, s - {TsServer})
       else (let s = insert TsUDP s in
         if \<not> tls then (Some TsListenTLS, s - {TsUDP} - {TsServer})
         else (None, insert TsTLS s))))"

lemma failed_start_leaves_nothing_open:
  "case startTailscale started up ip4 udp tls of
     (None, s) \<Rightarrow> s = {TsServer, TsUDP, TsTLS} | (Some _, s) \<Rightarrow> s = {}"
  by (auto simp: startTailscale_def Let_def)

text \<open>
  The patterns \<open>main\<close> registers on the base mux, by which optional parts are configured.  Registering one
  twice would panic, and the page asks for every status endpoint whatever is configured.
\<close>

definition base_patterns :: "bool \<Rightarrow> bool \<Rightarrow> bool \<Rightarrow> bool \<Rightarrow> string list" where
  "base_patterns gree centsys homekit whatsapp =
    [''/'', ''/webrtc/offer'', ''/webrtc/answer'', ''/stream/quality'', ''/door/open'', ''/events'', ''/snapshot'', ''/rings'']
    @ (if gree then [''/gree/status'', ''/gree/set''] else [''/gree/status''])
    @ (if centsys then [''/centsys/status'', ''/centsys/send'', ''/centsys/login''] else [''/centsys/status''])
    @ (if homekit then [''/homekit/status'', ''/homekit/qr.png''] else [''/homekit/status''])
    @ (if whatsapp then [''/wa/status'', ''/wa/qr.png'', ''/wa/unpair''] else [''/wa/status''])"

lemma base_mux_registers_once:
  "distinct (base_patterns gree centsys homekit whatsapp)
   \<and> {''/gree/status'', ''/centsys/status'', ''/homekit/status'', ''/wa/status''} \<subseteq> set (base_patterns gree centsys homekit whatsapp)"
  by (cases gree; cases centsys; cases homekit; cases whatsapp) (simp_all add: base_patterns_def)

section \<open>The public surface\<close>

definition on_api :: "('w api_state \<Rightarrow> http_response \<times> 'w api_state) \<Rightarrow> 'w site \<Rightarrow> reply \<times> 'w site" where
  "on_api f s = (case f \<lparr>store = site_store s, audit = site_audit s, world = site_world s\<rparr> of
     (resp, st) \<Rightarrow> (Page resp, s\<lparr>site_store := store st, site_audit := audit st, site_world := world st\<rparr>))"

definition on_stream :: "(stream_api \<Rightarrow> reply \<times> stream_api) \<Rightarrow> 'w site \<Rightarrow> reply \<times> 'w site" where
  "on_stream f s = (case site_stream s of
      None \<Rightarrow> (Page not_found, s)
    | Some (seen, hb) \<Rightarrow>
        (case f \<lparr>sstore = site_store s, saudit = site_audit s, lastLoggedAt = seen, hub = hb\<rparr> of
           (resp, st) \<Rightarrow> (resp, s\<lparr>site_store := sstore st, site_audit := saudit st,
              site_stream := Some (lastLoggedAt st, hub st)\<rparr>)))"

text \<open>What the environment fixes for one request beyond \<open>api_env\<close>: the clock, the query and the muxer.\<close>

record cam_env =
  ce_now :: instant
  ce_query :: query
  ce_player :: player

definition funnel ::
  "(string \<Rightarrow> string) \<Rightarrow> (string \<Rightarrow> string \<Rightarrow> string) \<Rightarrow> string \<Rightarrow> string \<Rightarrow> ('w \<Rightarrow> bool \<times> 'w) \<Rightarrow> ('w \<Rightarrow> bool \<times> 'w)
     \<Rightarrow> api_env \<Rightarrow> cam_env \<Rightarrow> http_request \<Rightarrow> 'w site \<Rightarrow> reply \<times> 'w site" where
  "funnel h hmac secret DemoCode openGate openOutdoor env ce r s =
    buildGuestFunnel
      (\<lambda>r. on_api (guest_routes h DemoCode openGate openOutdoor env r))
      (if site_stream s = None then None
       else Some (\<lambda>r. on_stream (stream_routes h hmac secret (ce_player ce) (ce_now ce) (ce_query ce) env r)))
      (\<lambda>p s. (Page (redirect_to p), s)) r s"

text \<open>Requests one after the other, each with its environment.\<close>

definition funnel_run ::
  "(string \<Rightarrow> string) \<Rightarrow> (string \<Rightarrow> string \<Rightarrow> string) \<Rightarrow> string \<Rightarrow> string \<Rightarrow> ('w \<Rightarrow> bool \<times> 'w) \<Rightarrow> ('w \<Rightarrow> bool \<times> 'w)
     \<Rightarrow> (api_env \<times> cam_env \<times> http_request) list \<Rightarrow> 'w site \<Rightarrow> 'w site" where
  "funnel_run h hmac secret DemoCode openGate openOutdoor rs s =
    fold (\<lambda>(env, ce, r) s. snd (funnel h hmac secret DemoCode openGate openOutdoor env ce r s)) rs s"

section \<open>What a request may do to the list of guests\<close>

text \<open>The guests an owner made, or all of them when no demo code is configured.\<close>

definition owned :: "string \<Rightarrow> guest_store \<Rightarrow> (string \<times> string \<times> instant) list" where
  "owned DemoCode s = map (\<lambda>g. (ID g, Label g, Created g)) (filter (\<lambda>g. DemoCode = [] \<or> \<not> Demo g) (guests s))"

lemma update_first_owned:
  assumes "\<And>r. ID (f r) = ID r \<and> Label (f r) = Label r \<and> Created (f r) = Created r \<and> Demo (f r) = Demo r"
  shows "map (\<lambda>g. (ID g, Label g, Created g)) (filter (\<lambda>g. d \<or> \<not> Demo g) (update_first p f rs))
       = map (\<lambda>g. (ID g, Label g, Created g)) (filter (\<lambda>g. d \<or> \<not> Demo g) rs)"
  by (induction rs) (use assms in auto)

lemma owned_save [simp]: "owned d (snd (save ok s)) = owned d s"
  by (simp add: owned_def save_def)

lemma owned_Authenticate [simp]: "owned d (snd (Authenticate h now ok t s)) = owned d s"
  by (simp add: Authenticate_def owned_def save_def Let_def update_first_owned split: option.split)

lemma owned_Revoke [simp]: "owned d (snd (Revoke ok i s)) = owned d s"
  by (simp add: Revoke_def owned_def save_def Let_def update_first_owned split: option.split)

lemma owned_Enroll [simp]: "owned d (snd (Enroll h n1 n2 rt ok c s)) = owned d s"
  by (simp add: Enroll_def owned_def save_def Let_def update_first_owned enrolled_record_def split: option.split)

lemma owned_EnrollDemo: "d \<noteq> [] \<Longrightarrow> owned d (snd (EnrollDemo h now ri rt ok l s)) = owned d s"
  by (simp add: EnrollDemo_def owned_def save_def Let_def split: option.split)

lemma owned_enroll: "owned d (store (snd (enroll h d env r st))) = owned d (store st)"
proof (cases "JsonField r")
  case None
  then show ?thesis by (simp add: enroll_def)
next
  case (Some c)
  define x where "x = (if d \<noteq> [] \<and> c = d
    then EnrollDemo h (e_now env) (e_rand1 env) (e_rand2 env) (e_saved env) demoGuestLabel (store st)
    else Enroll h (e_now env) (e_now2 env) (e_rand1 env) (e_saved env) c (store st))"
  have x: "owned d (snd x) = owned d (store st)" by (simp add: x_def owned_EnrollDemo)
  obtain res s where rs: "x = (res, s)" by fastforce
  have "store (snd (enroll h d env r st)) = s"
    using Some rs by (simp add: enroll_def Let_def flip: x_def split: sum.split prod.split)
  with x rs show ?thesis by simp
qed

lemma owned_requireToken: "owned d (store (snd (requireToken h a od env r st))) = owned d (store st)"
proof -
  obtain t b where tb: "GuestApi.bearer r = (t, b)" by fastforce
  obtain who s where au: "Authenticate h (e_now env) (e_saved env) t (store st) = (who, s)" by fastforce
  have "owned d s = owned d (store st)"
    using owned_Authenticate [of d h "e_now env" "e_saved env" t "store st"] au by simp
  moreover have "store (snd (requireToken h a od env r st)) = s"
    by (simp add: requireToken_def tb au Let_def split: prod.split option.split bool.split)
  ultimately show ?thesis by simp
qed

lemma owned_forget: "owned d (store (snd (forget h env r st))) = owned d (store st)"
proof -
  obtain t b where tb: "GuestApi.bearer r = (t, b)" by fastforce
  obtain who s where au: "Authenticate h (e_now env) (e_saved env) t (store st) = (who, s)" by fastforce
  have s: "owned d s = owned d (store st)"
    using owned_Authenticate [of d h "e_now env" "e_saved env" t "store st"] au by simp
  have "store (snd (forget h env r st)) = (case (b, who) of
      (True, Some g) \<Rightarrow> snd (Revoke (e_revsaved env) (ID g) s) | _ \<Rightarrow> s)"
    by (simp add: forget_def tb au Let_def split: prod.split option.split bool.split)
  then show ?thesis using s by (simp split: option.split bool.split)
qed

lemma owned_guest_routes: "owned d (store (snd (guest_routes h d og oo env r st))) = owned d (store st)"
  by (simp add: guest_routes_def owned_enroll owned_requireToken owned_forget split: option.split guest_route.split)

lemma owned_session: "owned d (sstore (snd (session h hmac secret now env cam r st))) = owned d (sstore st)"
proof -
  obtain t b where tb: "GuestApi.bearer r = (t, b)" by fastforce
  obtain who s where au: "Authenticate h (e_now env) (e_saved env) t (sstore st) = (who, s)" by fastforce
  have "owned d s = owned d (sstore st)"
    using owned_Authenticate [of d h "e_now env" "e_saved env" t "sstore st"] au by simp
  moreover have "sstore (snd (session h hmac secret now env cam r st)) = s"
    by (simp add: session_def tb au Let_def record_cam_def split: prod.split option.split bool.split)
  ultimately show ?thesis by simp
qed

lemma owned_stream_routes: "owned d (sstore (snd (stream_routes h hmac secret up now q env r st))) = owned d (sstore st)"
  using owned_session [of d h hmac secret now env _ r st]
  by (simp add: stream_routes_def split: option.split cam_route.split prod.split) (metis snd_conv)

lemma owned_on_api:
  assumes "\<And>st. owned d (store (snd (f st))) = owned d (store st)"
  shows "owned d (site_store (snd (on_api f s))) = owned d (site_store s)"
  using assms [of "\<lparr>store = site_store s, audit = site_audit s, world = site_world s\<rparr>"]
  by (simp add: on_api_def case_prod_unfold)

lemma owned_on_stream:
  assumes "\<And>st. owned d (sstore (snd (f st))) = owned d (sstore st)"
  shows "owned d (site_store (snd (on_stream f s))) = owned d (site_store s)"
proof (cases "site_stream s")
  case None
  then show ?thesis by (simp add: on_stream_def)
next
  case (Some x)
  obtain seen hb where x: "x = (seen, hb)" by fastforce
  from assms [of "\<lparr>sstore = site_store s, saudit = site_audit s, lastLoggedAt = seen, hub = hb\<rparr>"] Some x
  show ?thesis by (simp add: on_stream_def case_prod_unfold)
qed

lemma owned_funnel: "owned d (site_store (snd (funnel h hmac secret d og oo env ce r s))) = owned d (site_store s)"
  by (simp add: funnel_def buildGuestFunnel_def owned_on_api owned_on_stream owned_guest_routes owned_stream_routes)

section \<open>The type of a reply\<close>

text \<open>
  Which document a request may be answered with: a document with a secret or with the owner's lists has
  one route, an empty body belongs to a 204, and a text to a redirect or an error.
\<close>

fun document_of :: "api_body \<Rightarrow> http_request \<Rightarrow> bool" where
  "document_of (EnrollBody t l c d) r \<longleftrightarrow> Method r = ''POST'' \<and> Path r = ''/guest/enroll''"
| "document_of (SessionBody u e) r \<longleftrightarrow> Method r = ''POST''
     \<and> (\<exists>camera. cam_route_of (Path r) = Some (CamSession camera) \<and> prefix (''/guest/cam/'' @ camera @ ''/hls/index.m3u8?s='') u)"
| "document_of (InviteBody i l c u q) r \<longleftrightarrow> Method r = ''POST'' \<and> Path r = ''/admin/guests''"
| "document_of (GuestsBody gs) r \<longleftrightarrow> gets r \<and> Path r = ''/admin/guests''"
| "document_of (AuditBody es) r \<longleftrightarrow> gets r \<and> Path r = ''/admin/audit''"
| "document_of NoBody r \<longleftrightarrow> Method r = ''POST'' \<and> Path r \<in> {''/guest/gate/open'', ''/guest/outdoor/open'', ''/guest/forget''}
     \<or> Method r = ''DELETE'' \<and> prefix ''/admin/guests/'' (Path r)"
| "document_of (Text t) r \<longleftrightarrow> True"

fun status_of :: "api_body \<Rightarrow> nat set" where
  "status_of (Text t) = {307, 400, 401, 403, 404, 405, 500, 502}"
| "status_of NoBody = {204}"
| "status_of _ = {200}"

definition well_typed :: "http_request \<Rightarrow> http_response \<Rightarrow> bool" where
  "well_typed r p \<longleftrightarrow> document_of (Payload p) r \<and> Status p \<in> status_of (Payload p)"

fun owners_document :: "api_body \<Rightarrow> bool" where
  "owners_document (InviteBody i l c u q) = True"
| "owners_document (GuestsBody gs) = True"
| "owners_document (AuditBody es) = True"
| "owners_document _ = False"

definition typed_reply :: "http_request \<Rightarrow> reply \<Rightarrow> bool" where
  "typed_reply r x \<longleftrightarrow> (case x of Page p \<Rightarrow> well_typed r p \<and> \<not> owners_document (Payload p)
     | Media m \<Rightarrow> gets r \<and> (\<exists>camera. cam_route_of (Path r) = Some (CamHls camera)))"

lemma well_typed_text [simp]: "well_typed r (respond c (Text t)) \<longleftrightarrow> c \<in> {307, 400, 401, 403, 404, 405, 500, 502}"
  by (simp add: well_typed_def)

lemma enroll_reply:
  "(\<exists>t. Payload (fst (enroll h d env r st)) = Text t \<and> Status (fst (enroll h d env r st)) \<in> {400, 500})
   \<or> (\<exists>t l c dm. fst (enroll h d env r st) = respond 200 (EnrollBody t l c dm))"
  by (auto simp: enroll_def Let_def split: option.split sum.split prod.split)

lemma requireToken_reply:
  "fst (requireToken h a od env r st) = respond 204 NoBody
   \<or> (\<exists>c t. fst (requireToken h a od env r st) = respond c (Text t) \<and> c \<in> {401, 403, 502})"
  by (auto simp: requireToken_def Let_def split: option.split bool.split prod.split)

lemma forget_reply:
  "fst (forget h env r st) = respond 204 NoBody
   \<or> (\<exists>c t. fst (forget h env r st) = respond c (Text t) \<and> c \<in> {401, 500})"
  by (auto simp: forget_def Let_def split: option.split bool.split prod.split)

lemma guest_route_path:
  "guest_route_of p = Some rt \<Longrightarrow> p = (case rt of REnroll \<Rightarrow> ''/guest/enroll'' | RGate \<Rightarrow> ''/guest/gate/open''
     | ROutdoor \<Rightarrow> ''/guest/outdoor/open'' | RForget \<Rightarrow> ''/guest/forget'')"
  by (auto simp: guest_route_of_def split: if_splits)

lemma guest_routes_typed: "typed_reply r (Page (fst (guest_routes h d og oo env r st)))"
proof (cases "guest_route_of (Path r)")
  case (Some rt)
  have "typed_reply r (Page (fst (enroll h d env r st)))" if "rt = REnroll" "Method r = ''POST''"
    using enroll_reply [of h d env r st] guest_route_path [OF Some] that
    by (auto simp: typed_reply_def well_typed_def)
  moreover have "typed_reply r (Page (fst (requireToken h a od env r st)))" if "rt \<in> {RGate, ROutdoor}" "Method r = ''POST''" for a od
    using requireToken_reply [of h a od env r st] guest_route_path [OF Some] that
    by (auto simp: typed_reply_def well_typed_def)
  moreover have "typed_reply r (Page (fst (forget h env r st)))" if "rt = RForget" "Method r = ''POST''"
    using forget_reply [of h env r st] guest_route_path [OF Some] that
    by (auto simp: typed_reply_def well_typed_def)
  ultimately show ?thesis using Some
    by (cases rt) (simp_all add: guest_routes_def typed_reply_def redirect_to_def)
qed (simp add: guest_routes_def typed_reply_def redirect_to_def)

lemma session_reply_typed:
  "(\<exists>c t. fst (session h hmac secret now env camera r st) = respond c (Text t) \<and> c \<in> {401, 404})
   \<or> (\<exists>u e. fst (session h hmac secret now env camera r st) = respond 200 (SessionBody u e)
        \<and> prefix (''/guest/cam/'' @ camera @ ''/hls/index.m3u8?s='') u)"
proof -
  obtain t b where tb: "GuestApi.bearer r = (t, b)" by fastforce
  obtain who s where au: "Authenticate h (e_now env) (e_saved env) t (sstore st) = (who, s)" by fastforce
  obtain k hb where hd: "Handler camera (hub st) = (k, hb)" by fastforce
  show ?thesis
    by (cases b; cases who; cases k) (simp_all add: session_def tb au hd case_prod_unfold Let_def del: append_Cons)
qed

lemma stream_routes_typed: "typed_reply r (fst (stream_routes h hmac secret pl now q env r st))"
proof (cases "cam_route_of (Path r)")
  case (Some rt)
  show ?thesis
  proof (cases rt)
    case (CamSession camera)
    then show ?thesis using Some session_reply_typed [of h hmac secret now env camera r st]
      by (auto simp: stream_routes_def typed_reply_def well_typed_def not_allowed_def case_prod_unfold simp del: append_Cons)
  qed (use Some in \<open>simp add: stream_routes_def typed_reply_def not_allowed_def case_prod_unfold\<close>)
qed (simp add: stream_routes_def typed_reply_def not_found_def)

lemma funnel_typed: "typed_reply r (fst (funnel h hmac secret d og oo env ce r s))"
proof -
  have api: "typed_reply r (fst (on_api (guest_routes h d og oo env r) s))"
    using guest_routes_typed [of r h d og oo env] by (simp add: on_api_def case_prod_unfold)
  have cam: "typed_reply r (fst (on_stream (stream_routes h hmac secret pl now q env r) s))" for pl now q
    using stream_routes_typed [of r h hmac secret pl now q env]
    by (simp add: on_stream_def typed_reply_def not_found_def case_prod_unfold split: option.split)
  have "typed_reply r (Page (redirect_to p))" for p by (simp add: typed_reply_def redirect_to_def)
  with api cam show ?thesis by (simp add: funnel_def buildGuestFunnel_def)
qed

lemma admin_create_reply:
  "(\<exists>c t. fst (admin_create h qr base env r st) = respond c (Text t) \<and> c \<in> {400, 500})
   \<or> (\<exists>i l c u q. fst (admin_create h qr base env r st) = respond 200 (InviteBody i l c u q))"
  by (auto simp: admin_create_def Let_def split: option.split sum.split prod.split)

lemma listAudit_reply:
  "fst (listAudit env r st) = respond 500 (Text ''internal error'') \<or> (\<exists>es. fst (listAudit env r st) = respond 200 (AuditBody es))"
  by (auto simp: listAudit_def Let_def split: option.split)

lemma admin_revoke_reply:
  "fst (admin_revoke env i st) = respond 204 NoBody
   \<or> (\<exists>c t. fst (admin_revoke env i st) = respond c (Text t) \<and> c \<in> {404, 500})"
  by (auto simp: admin_revoke_def split: option.split prod.split guest_error.split)

lemma two_segments: "split_on CHR ''/'' p = [[], a, b] \<Longrightarrow> p = ''/'' @ a @ ''/'' @ b"
  using join_split_on [of "CHR ''/''" p] by simp

lemma three_segments: "split_on CHR ''/'' p = [[], a, b, i] \<Longrightarrow> p = ''/'' @ a @ ''/'' @ b @ ''/'' @ i"
  using join_split_on [of "CHR ''/''" p] by simp

lemma admin_routes_typed: "well_typed r (fst (admin_routes h qr base env r st))"
proof -
  have create: "well_typed r (fst (admin_create h qr base env r st))" if "Path r = ''/admin/guests''" "Method r = ''POST''"
    using admin_create_reply [of h qr base env r st] that by (auto simp: well_typed_def)
  have audit: "well_typed r (fst (listAudit env r st))" if "Path r = ''/admin/audit''" "gets r"
    using listAudit_reply [of env r st] that by (auto simp: well_typed_def)
  have revoke: "well_typed r (fst (admin_revoke env i st))" if "Path r = ''/admin/guests/'' @ i" "Method r = ''DELETE''" for i
    using admin_revoke_reply [of env i st] that by (auto simp: well_typed_def)
  have lists: "well_typed r (fst (admin_list st))" if "Path r = ''/admin/guests''" "gets r"
    using that by (simp add: admin_list_def well_typed_def)
  show ?thesis
    unfolding admin_routes_def
    by (auto simp: redirect_to_def not_found_def not_allowed_def intro!: create audit revoke lists
        dest!: two_segments three_segments split: list.split)
qed

section \<open>Properties\<close>

text \<open>
  C5: No sequence of requests to the public surface, in any environment, adds, removes or renames a
  guest the owner made; without a demo code it adds no guest at all.
\<close>

theorem internet_adds_no_guest:
  "owned DemoCode (site_store (funnel_run h hmac secret DemoCode openGate openOutdoor rs s)) = owned DemoCode (site_store s)"
  unfolding funnel_run_def by (induction rs arbitrary: s) (simp_all add: owned_funnel split: prod.split)


end
