(* ===== verification/Process.thy ===== *)
theory Process
  imports Wiring Sip Hub WhatsApp HomeKit Gree EventAttach
begin

text \<open>
  \<open>main\<close> as a whole: which parts it constructs from the configuration and in which order, what it opens
  and which goroutines it starts, the failures that end it, and how it shuts down.  A run is the trace of
  these actions with the parts it ends up with; every outcome of the outside world is a field of \<open>boot\<close>.
\<close>

section \<open>The whole configuration\<close>

text \<open>The fields of \<open>Config\<close> that \<open>loadConfig\<close> decodes and leaves alone.\<close>

record full_config = Config +
  fc_sip :: SIPConfig
  fc_whatsapp :: "WhatsAppConfig option"
  fc_gree_name :: string
  fc_gree_port :: int
  fc_centsys :: "CentsysConfig option"
  fc_homekit :: "HomeKitConfig option"
  fc_timezone :: string
  fc_bell_db :: string

definition gree_config :: "full_config \<Rightarrow> GreeConfig option" where
  "gree_config c = map_option (\<lambda>(h, m). \<lparr>gHost = h, gMAC = m, gPort = fc_gree_port c, gName = fc_gree_name c\<rparr>) (greeCfg c)"

section \<open>Actions\<close>

datatype resource = Tailnet | WhatsAppDB | BellDB

datatype routine = SipRun | EventsRun | GreeRun | CentsysRun | AuditLoop | HomeKitRun | PlainHTTP | TailnetHTTP | FunnelHTTP

datatype fatal = FConfig config_error | FNoCentsys | FLogin | FTailscale ts_error | FHub | FWhatsApp wa_error
  | FTimezone | FSip sip_error | FHomeKit hk_error | FServer

text \<open>\<open>Acquire\<close> is an opened resource whose \<open>Close\<close> is deferred; \<open>Exit\<close> is \<open>log.Fatalf\<close>.\<close>

datatype act = Acquire resource | Go routine | Shutdown routine | CloseHub | CancelContext | WaitGroup
  | Dispose resource | Exit fatal

datatype ending = Fatal fatal | LoggedIn

type_synonym 'a run = "act list \<times> (ending + 'a)"

text \<open>A step after another: the actions follow, an ending stays.\<close>

fun next_step :: "'a run \<Rightarrow> ('a \<Rightarrow> 'b run) \<Rightarrow> 'b run" where
  "next_step (tr, Inl e) k = (tr, Inl e)"
| "next_step (tr, Inr x) k = (tr @ fst (k x), snd (k x))"

definition die :: "fatal \<Rightarrow> 'a run" where
  "die f = ([Exit f], Inl (Fatal f))"

definition did :: "act list \<Rightarrow> 'a \<Rightarrow> 'a run" where
  "did tr x = (tr, Inr x)"

section \<open>The outside world\<close>

record 'w boot =
  bt_file :: "full_config option option"          \<comment> \<open>as \<open>loadConfig\<close> takes it\<close>
  bt_login_flag :: bool
  bt_login :: bool                                \<comment> \<open>\<open>centsysLogin\<close> succeeds\<close>
  bt_tailscale_flag :: bool
  bt_tailscale :: "bool \<times> bool \<times> bool \<times> bool \<times> bool"
  bt_tracks :: "StreamConfig \<Rightarrow> bool"
  bt_gate_file :: "centsysSession option"
  bt_pair :: "string \<Rightarrow> string \<Rightarrow> bool"
  bt_intro :: string
  bt_wa :: "bool \<times> string option \<times> bool \<times> bool"   \<comment> \<open>database, device, QR channel, connection\<close>
  bt_zone :: bool
  bt_bell :: "(bool \<times> bool \<times> bell_row list)"
  bt_newest :: "bell_row list \<Rightarrow> bell_row list"
  bt_bell_read :: bool
  bt_ifaces :: "iface list option"
  bt_sip :: bool
  bt_homekit :: hk_env
  bt_guest_store :: "string \<Rightarrow> guest_store option"
  bt_guest_audit :: "string \<Rightarrow> audit_store"
  bt_funnel :: bool
  bt_world :: 'w

section \<open>Starting\<close>

text \<open>What \<open>main\<close> has when its servers run.\<close>

record 'w running =
  rn_config :: full_config
  rn_tailnet :: bool
  rn_hub :: hub
  rn_doors :: "string \<rightharpoonup> StreamConfig"
  rn_gree :: "gree_ctl option"
  rn_centsys :: "centsys_ctl option"
  rn_whatsapp :: "whatsapp option"
  rn_bell :: bell_bus
  rn_sip :: "sip_server option"
  rn_homekit :: hk_start
  rn_patterns :: "string list"
  rn_guest :: "'w guest_parts option"

definition start_load :: "'w boot \<Rightarrow> full_config run" where
  "start_load b = (case loadConfig (bt_file b) of Inl e \<Rightarrow> die (FConfig e) | Inr c \<Rightarrow> did [] c)"

definition start_login :: "'w boot \<Rightarrow> full_config \<Rightarrow> unit run" where
  "start_login b c = (if \<not> bt_login_flag b then did [] ()
     else if fc_centsys c = None then die FNoCentsys
     else if \<not> bt_login b then die FLogin else ([], Inl LoggedIn))"

definition start_tailscale :: "'w boot \<Rightarrow> bool run" where
  "start_tailscale b = (if \<not> bt_tailscale_flag b then did [] False
     else (case bt_tailscale b of (started, up, ip4, udp, tls) \<Rightarrow>
       (case fst (startTailscale started up ip4 udp tls) of
          Some e \<Rightarrow> die (FTailscale e) | None \<Rightarrow> did [Acquire Tailnet] True)))"

definition start_hub :: "'w boot \<Rightarrow> full_config \<Rightarrow> hub run" where
  "start_hub b c = (case NewHub (bt_tracks b) (cstreams c) of None \<Rightarrow> die FHub | Some h \<Rightarrow> did [] h)"

definition start_whatsapp :: "'w boot \<Rightarrow> full_config \<Rightarrow> whatsapp option run" where
  "start_whatsapp b c = (case fc_whatsapp c of
      None \<Rightarrow> did [] None
    | Some wc \<Rightarrow> (case bt_wa b of (db, device, qr, linked) \<Rightarrow>
        (case NewWhatsAppClient (bt_intro b) db device qr linked wc of
           Inl e \<Rightarrow> die (FWhatsApp e) | Inr w \<Rightarrow> did [Acquire WhatsAppDB] (Some w))))"

definition start_timezone :: "'w boot \<Rightarrow> full_config \<Rightarrow> unit run" where
  "start_timezone b c = (if fc_timezone c \<noteq> [] \<and> \<not> bt_zone b then die FTimezone else did [] ())"

definition start_bell :: "'w boot \<Rightarrow> full_config \<Rightarrow> bell_bus run" where
  "start_bell b c =
    (let st = (case bt_bell b of (opened, schema, db) \<Rightarrow> OpenBellStore (fc_bell_db c) opened schema db)
     in did (if st = None then [] else [Acquire BellDB]) (NewBellBus (bt_newest b) (bt_bell_read b) (cstreams c) st))"

definition start_sip :: "'w boot \<Rightarrow> full_config \<Rightarrow> sip_server option run" where
  "start_sip b c = (case NewSIPServer (bt_ifaces b) (bt_sip b) (fc_sip c) (cstreams c) of
      Inl e \<Rightarrow> die (FSip e) | Inr None \<Rightarrow> did [] None | Inr (Some s) \<Rightarrow> did [Go SipRun] (Some s))"

definition start_homekit :: "'w boot \<Rightarrow> full_config \<Rightarrow> gree_ctl option \<Rightarrow> centsys_ctl option \<Rightarrow> hk_start run" where
  "start_homekit b c gree gate =
    (let hk = newHomeKit (bt_homekit b) (fc_homekit c) (cstreams c) (map_option ctl_name gree)
                (map_option (\<lambda>g. gate_name (ccfg g)) gate) True
     in case hk of HkFatal e \<Rightarrow> die (FHomeKit e) | _ \<Rightarrow> did [] hk)"

definition start_guest :: "'w boot \<Rightarrow> full_config \<Rightarrow> bool \<Rightarrow> 'w guest_parts option run" where
  "start_guest b c ts =
    (let g = guest_startup (bt_guest_store b) (bt_guest_audit b) ts (bt_funnel b) (bt_world b) (guestCfg c)
     in did (case g of Some p \<Rightarrow> if site_audit (parts_site p) \<noteq> None then [Go AuditLoop] else [] | None \<Rightarrow> []) g)"

definition is_running :: "hk_start \<Rightarrow> bool" where
  "is_running hk = (case hk of HkRunning _ \<Rightarrow> True | _ \<Rightarrow> False)"

definition funnel_up :: "'w guest_parts option \<Rightarrow> bool" where
  "funnel_up g = (case g of Some p \<Rightarrow> parts_funnel p | None \<Rightarrow> False)"

definition start_serve :: "bool \<Rightarrow> hk_start \<Rightarrow> 'w guest_parts option \<Rightarrow> unit run" where
  "start_serve ts hk g = did ((if is_running hk then [Go HomeKitRun] else []) @ [Go PlainHTTP]
     @ (if ts then [Go TailnetHTTP] else []) @ (if funnel_up g then [Go FunnelHTTP] else [])) ()"

text \<open>The end of \<open>newHomeKit\<close>: a running manager observes both controllers.\<close>

definition attach_homekit :: "hk_start \<Rightarrow> gree_ctl option \<Rightarrow> centsys_ctl option \<Rightarrow> gree_ctl option \<times> centsys_ctl option" where
  "attach_homekit hk gree gate = (if is_running hk then (map_option (OnUpdate_gree 0) gree, map_option OnUpdate gate)
     else (gree, gate))"

definition main_start :: "'w boot \<Rightarrow> 'w running run" where
  "main_start b =
    next_step (start_load b) (\<lambda>c.
    next_step (start_login b c) (\<lambda>_.
    next_step (start_tailscale b) (\<lambda>ts.
    next_step (start_hub b c) (\<lambda>h.
    (let gree = map_option NewGreeController (gree_config c);
         gate = map_option (NewCentsysController (bt_gate_file b) (bt_pair b)) (fc_centsys c) in
    next_step (start_whatsapp b c) (\<lambda>wa.
    next_step (start_timezone b c) (\<lambda>_.
    next_step (start_bell b c) (\<lambda>bell.
    next_step (start_sip b c) (\<lambda>sip.
    next_step (did [Go EventsRun] ()) (\<lambda>_.
    next_step (start_homekit b c gree gate) (\<lambda>hk.
    next_step (did ((if gree = None then [] else [Go GreeRun]) @ (if gate = None then [] else [Go CentsysRun])) ()) (\<lambda>_.
    next_step (start_guest b c ts) (\<lambda>g.
    next_step (start_serve ts hk g) (\<lambda>_.
      did [] \<lparr>rn_config = c, rn_tailnet = ts, rn_hub = h, rn_doors = NewDoorClient (cstreams c),
        rn_gree = fst (attach_homekit hk gree gate), rn_centsys = snd (attach_homekit hk gree gate), rn_whatsapp = wa, rn_bell = bell, rn_sip = sip, rn_homekit = hk,
        rn_patterns = base_patterns (gree \<noteq> None) (fc_centsys c \<noteq> None) (is_running hk) (wa \<noteq> None),
        rn_guest = g\<rparr>))))))))))))))"

section \<open>Stopping\<close>

datatype stop = Signalled | ServerFailed

text \<open>
  After the \<open>select\<close>: a signal shuts the servers down, closes the stream hub, cancels the context, waits
  for the group and runs what was deferred, last first; a failed server ends the process on the spot.
\<close>

definition main_stop :: "stop \<Rightarrow> 'w running \<Rightarrow> act list" where
  "main_stop e r = (case e of
      ServerFailed \<Rightarrow> [Exit FServer]
    | Signalled \<Rightarrow>
        [Shutdown PlainHTTP, Shutdown TailnetHTTP]
        @ (if funnel_up (rn_guest r) then [Shutdown FunnelHTTP] else [])
        @ (if rn_guest r \<noteq> None \<and> gcameras (the (guestCfg (rn_config r))) \<noteq> [] then [CloseHub] else [])
        @ [CancelContext, WaitGroup]
        @ (if bstore (rn_bell r) \<noteq> None then [Dispose BellDB] else [])
        @ (if rn_whatsapp r \<noteq> None then [Dispose WhatsAppDB] else [])
        @ (if rn_tailnet r then [Dispose Tailnet] else []))"

section \<open>What a trace opened, started and closed\<close>

fun acquired :: "act list \<Rightarrow> resource list" where
  "acquired [] = []"
| "acquired (Acquire x # tr) = x # acquired tr"
| "acquired (_ # tr) = acquired tr"

fun disposed :: "act list \<Rightarrow> resource list" where
  "disposed [] = []"
| "disposed (Dispose x # tr) = x # disposed tr"
| "disposed (_ # tr) = disposed tr"

fun started :: "act list \<Rightarrow> routine list" where
  "started [] = []"
| "started (Go x # tr) = x # started tr"
| "started (_ # tr) = started tr"

lemma acquired_append [simp]: "acquired (xs @ ys) = acquired xs @ acquired ys"
  by (induction xs rule: acquired.induct) auto

lemma disposed_append [simp]: "disposed (xs @ ys) = disposed xs @ disposed ys"
  by (induction xs rule: disposed.induct) auto

lemma started_append [simp]: "started (xs @ ys) = started xs @ started ys"
  by (induction xs rule: started.induct) auto

lemma next_step_InrE:
  assumes "next_step m k = (tr, Inr y)"
  obtains t x t' where "m = (t, Inr x)" "k x = (t', Inr y)" "tr = t @ t'"
proof (cases m)
  case (Pair t e)
  then show ?thesis using assms that by (cases e; cases "k (projr e)") auto
qed

lemma did_Inr: "did t x = (tr, Inr y) \<longleftrightarrow> tr = t \<and> y = x"
  by (auto simp: did_def)

lemma die_Inr [simp]: "die f \<noteq> (tr, Inr y)"
  by (simp add: die_def)

text \<open>What each step that succeeds leaves in the trace.\<close>

lemma start_load_Inr: "start_load b = (tr, Inr c) \<Longrightarrow> tr = [] \<and> loadConfig (bt_file b) = Inr c"
  by (auto simp: start_load_def did_Inr split: sum.splits)

lemma start_login_Inr: "start_login b c = (tr, Inr u) \<Longrightarrow> tr = []"
  by (auto simp: start_login_def did_Inr split: if_splits)

lemma start_tailscale_Inr:
  "start_tailscale b = (tr, Inr ts) \<Longrightarrow> ts = bt_tailscale_flag b \<and> tr = (if ts then [Acquire Tailnet] else [])"
  by (auto simp: start_tailscale_def did_Inr split: if_splits prod.splits option.splits)

lemma start_hub_Inr: "start_hub b c = (tr, Inr h) \<Longrightarrow> tr = [] \<and> NewHub (bt_tracks b) (cstreams c) = Some h"
  by (auto simp: start_hub_def did_Inr split: option.splits)

lemma start_whatsapp_Inr:
  "start_whatsapp b c = (tr, Inr w) \<Longrightarrow> (w = None \<longleftrightarrow> fc_whatsapp c = None) \<and> tr = (if w = None then [] else [Acquire WhatsAppDB])"
  by (auto simp: start_whatsapp_def did_Inr split: option.splits prod.splits sum.splits)

lemma start_timezone_Inr: "start_timezone b c = (tr, Inr u) \<Longrightarrow> tr = []"
  by (auto simp: start_timezone_def did_Inr split: if_splits)

lemma start_bell_Inr:
  "start_bell b c = (tr, Inr bus) \<Longrightarrow> tr = (if bstore bus = None then [] else [Acquire BellDB])"
  by (auto simp: start_bell_def did_Inr NewBellBus_def Let_def)

lemma start_sip_Inr: "start_sip b c = (tr, Inr s) \<Longrightarrow> tr = (if s = None then [] else [Go SipRun])"
  by (auto simp: start_sip_def did_Inr split: sum.splits option.splits)

lemma start_homekit_Inr: "start_homekit b c gree gate = (tr, Inr hk) \<Longrightarrow> tr = []"
  by (auto simp: start_homekit_def Let_def did_Inr split: hk_start.splits)

lemma guest_startup_needs:
  "guest_startup os oa ts f w g = Some p \<Longrightarrow> ts \<and> g \<noteq> None \<and> parts_funnel p = f"
  by (auto simp: guest_startup_def Let_def split: option.splits if_splits)

lemma start_guest_Inr:
  "start_guest b c ts = (tr, Inr g) \<Longrightarrow> (tr = [] \<or> tr = [Go AuditLoop]) \<and> (g = None \<or> ts \<and> guestCfg c \<noteq> None)"
  by (auto simp: start_guest_def Let_def did_Inr split: option.splits if_splits dest!: guest_startup_needs)

lemma start_serve_Inr:
  "start_serve ts hk g = (tr, Inr u) \<Longrightarrow> tr = (if is_running hk then [Go HomeKitRun] else []) @ [Go PlainHTTP]
     @ (if ts then [Go TailnetHTTP] else []) @ (if funnel_up g then [Go FunnelHTTP] else [])"
  by (simp add: start_serve_def did_Inr)

lemmas start_Inr = start_login_Inr start_tailscale_Inr start_hub_Inr start_whatsapp_Inr start_timezone_Inr
  start_bell_Inr start_sip_Inr start_homekit_Inr start_guest_Inr start_serve_Inr

lemma attach_homekit_None [simp]:
  "fst (attach_homekit hk gree gate) = None \<longleftrightarrow> gree = None" "snd (attach_homekit hk gree gate) = None \<longleftrightarrow> gate = None"
  by (simp_all add: attach_homekit_def)

text \<open>A start that succeeds, as one trace.\<close>

lemma main_start_Inr:
  assumes "main_start b = (tr, Inr r)"
  obtains au where "loadConfig (bt_file b) = Inr (rn_config r)"
    "tr = (if rn_tailnet r then [Acquire Tailnet] else [])
      @ (if rn_whatsapp r = None then [] else [Acquire WhatsAppDB])
      @ (if bstore (rn_bell r) = None then [] else [Acquire BellDB])
      @ (if rn_sip r = None then [] else [Go SipRun]) @ [Go EventsRun]
      @ (if rn_gree r = None then [] else [Go GreeRun]) @ (if rn_centsys r = None then [] else [Go CentsysRun])
      @ au @ (if is_running (rn_homekit r) then [Go HomeKitRun] else []) @ [Go PlainHTTP]
      @ (if rn_tailnet r then [Go TailnetHTTP] else []) @ (if funnel_up (rn_guest r) then [Go FunnelHTTP] else [])"
    "au = [] \<or> au = [Go AuditLoop]"
    "rn_guest r = None \<or> rn_tailnet r \<and> guestCfg (rn_config r) \<noteq> None"
    "NewHub (bt_tracks b) (cstreams (rn_config r)) = Some (rn_hub r)"
    "rn_doors r = NewDoorClient (cstreams (rn_config r))"
  using assms unfolding main_start_def Let_def
  by (elim next_step_InrE) (auto simp: did_Inr dest!: start_load_Inr start_Inr)

text \<open>The controllers poll only after HomeKit observes them.\<close>

lemma main_start_attaches:
  assumes "main_start b = (tr, Inr r)"
  obtains gree gate where "rn_gree r = fst (attach_homekit (rn_homekit r) gree gate)"
    "rn_centsys r = snd (attach_homekit (rn_homekit r) gree gate)"
  using assms unfolding main_start_def Let_def by (elim next_step_InrE) (simp add: did_Inr)

lemma homekit_observes_both_controllers:
  assumes "main_start b = (tr, Inr r)" "is_running (rn_homekit r)"
  shows "pred_option listening (rn_centsys r) \<and> pred_option (\<lambda>g. observers g \<noteq> []) (rn_gree r)"
proof (rule main_start_attaches [OF assms(1)])
  fix gree gate
  assume "rn_gree r = fst (attach_homekit (rn_homekit r) gree gate)" "rn_centsys r = snd (attach_homekit (rn_homekit r) gree gate)"
  then show ?thesis using assms(2)
    by (cases gree; cases gate) (simp_all add: attach_homekit_def OnUpdate_def OnUpdate_gree_def)
qed

section \<open>What a start that fails leaves behind\<close>

text \<open>Nothing is released, and a failure is the last thing that happens.\<close>

definition abrupt :: "'a run \<Rightarrow> bool" where
  "abrupt m \<longleftrightarrow> disposed (fst m) = []
     \<and> (case snd m of Inl (Fatal f) \<Rightarrow> fst m \<noteq> [] \<and> last (fst m) = Exit f | _ \<Rightarrow> True)"

lemma abrupt_next:
  assumes "abrupt m" "\<And>x. abrupt (k x)"
  shows "abrupt (next_step m k)"
proof (cases m)
  case (Pair t e)
  show ?thesis
  proof (cases e)
    case (Inr x)
    then show ?thesis using assms(1) assms(2) [of x] Pair by (auto simp: abrupt_def split: sum.splits ending.splits)
  qed (use assms(1) Pair in \<open>simp add: abrupt_def split: ending.splits\<close>)
qed

lemma abrupt_steps:
  "disposed tr = [] \<Longrightarrow> abrupt (did tr x)" "abrupt (die f)" "abrupt ([], Inl LoggedIn)"
  by (simp_all add: abrupt_def did_def die_def)

lemma abrupt_starts:
  "abrupt (start_load b)" "abrupt (start_login b c)" "abrupt (start_tailscale b)" "abrupt (start_hub b c)"
  "abrupt (start_whatsapp b c)" "abrupt (start_timezone b c)" "abrupt (start_bell b c)" "abrupt (start_sip b c)"
  "abrupt (start_homekit b c gree gate)" "abrupt (start_guest b c ts)" "abrupt (start_serve ts hk g)"
  by (simp_all add: start_load_def start_login_def start_tailscale_def start_hub_def start_whatsapp_def
      start_timezone_def start_bell_def start_sip_def start_homekit_def start_guest_def start_serve_def Let_def
      abrupt_steps split: sum.split option.split prod.split hk_start.split if_split)

lemma fatal_start_releases_nothing:
  assumes "main_start b = (tr, Inl (Fatal f))"
  shows "disposed tr = [] \<and> tr \<noteq> [] \<and> last tr = Exit f"
proof -
  have "abrupt (main_start b)" unfolding main_start_def Let_def by (intro abrupt_next abrupt_starts abrupt_steps) simp_all
  with assms show ?thesis by (simp add: abrupt_def)
qed

lemma failed_server_releases_nothing: "main_stop ServerFailed r = [Exit FServer]"
  by (simp add: main_stop_def)

section \<open>Properties\<close>

lemma optional_subseq: "subseq (if p then [x] else []) [x]" "subseq (if p then [] else [x]) [x]"
  by simp_all

lemma in_optional:
  "x \<in> set (if p then [y] else []) \<longleftrightarrow> p \<and> x = y" "x \<in> set (if p then [] else [y]) \<longleftrightarrow> \<not> p \<and> x = y"
  by auto

lemma subseq_distinct: "subseq xs ys \<Longrightarrow> distinct ys \<Longrightarrow> distinct xs"
  by (induction rule: list_emb.induct) (auto dest: list_emb_set)

definition shut :: "act list \<Rightarrow> routine set" where
  "shut tr = {x. Shutdown x \<in> set tr}"


section \<open>Witness\<close>

definition one_boot :: "nat boot" where
  "one_boot = \<lparr>
     bt_file = Some (Some \<lparr>listen = '':8080'', greeCfg = None, guestCfg = None, cstreams = [one_stream],
       fc_sip = \<lparr>cfgBind = [], cfgContactHost = [], cfgContactPort = 0\<rparr>, fc_whatsapp = None, fc_gree_name = [],
       fc_gree_port = 0, fc_centsys = None, fc_homekit = None, fc_timezone = [], fc_bell_db = ''rings.db''\<rparr>),
     bt_login_flag = False, bt_login = False, bt_tailscale_flag = True, bt_tailscale = (True, True, True, True, True),
     bt_tracks = (\<lambda>_. True), bt_gate_file = None, bt_pair = (\<lambda>_ _. True), bt_intro = [],
     bt_wa = (True, None, True, True), bt_zone = True, bt_bell = (True, True, []), bt_newest = (\<lambda>rs. rs),
     bt_bell_read = True, bt_ifaces = None, bt_sip = True,
     bt_homekit = \<lparr>he_invalid = (\<lambda>_. False), he_duration = (\<lambda>_. None), he_sha256 = (\<lambda>s. s), he_qr = (\<lambda>s. s),
       he_mkdir = (\<lambda>_. True), he_set = (\<lambda>_. True), he_delete = (\<lambda>_. True), he_server = (\<lambda>_. True),
       he_pairings = (\<lambda>_. None), he_category = (\<lambda>_. 0)\<rparr>,
     bt_guest_store = (\<lambda>_. None), bt_guest_audit = (\<lambda>_. None), bt_funnel = True, bt_world = 0\<rparr>"

lemma one_boot_starts:
  "\<exists>r. main_start one_boot = ([Acquire Tailnet, Acquire BellDB, Go EventsRun, Go PlainHTTP, Go TailnetHTTP], Inr r)"
proof -
  have "NewHub (\<lambda>_. True) [one_stream] \<noteq> None" by (simp add: NewHub_def)
  then obtain h where h: "NewHub (\<lambda>_. True) [one_stream] = Some h" by blast
  have s: "start_load one_boot = did [] (the (the (bt_file one_boot)))"
    by (simp add: start_load_def one_boot_def loadConfig_def one_stream_def)
  have ext: "sipExt one_stream = []" by (simp add: one_stream_def)
  show ?thesis unfolding main_start_def s
    by (simp add: did_def Let_def start_login_def start_tailscale_def startTailscale_def start_hub_def h start_whatsapp_def
        start_timezone_def start_bell_def start_sip_def start_homekit_def start_guest_def start_serve_def
        one_boot_def gree_config_def OpenBellStore_def NewSIPServer_def ext newHomeKit_def
        guest_startup_def is_running_def funnel_up_def)
qed


end
