(* ===== verification/GuestGate.thy ===== *)
theory GuestGate
  imports Wiring CentsysSpec
begin

text \<open>
  A guest's press of the gate button from the public surface to the motor: the Funnel's mux, the guest
  handler, \<open>guestDoorActions\<close> and the trigger protocol of the gate controller, against a gate that follows
  the protocol and whose state counts its activations.
\<close>

section \<open>From the mux to the button\<close>

definition gate_press :: "(string \<Rightarrow> string) \<Rightarrow> http_request \<Rightarrow> guest_store \<Rightarrow> bool" where
  "gate_press h r s \<longleftrightarrow> canonical r \<and> Method r = ''POST'' \<and> Path r = ''/guest/gate/open''
     \<and> (\<exists>i l. live_bearer h s r = Some (i, l, False))"

lemma OpenGate_honest:
  assumes "creds c = Some cr" "connected cr (centsysClientID (crPhone cr) '':cam'')" "length ch = 4"
  shows "OpenGate (gate_broker cr want pre ch) connected t (Some c) n = (True, Suc n)"
  using honest_gate_activates [of c cr connected ch want pre t n] assms by (auto simp: OpenGate_def)

lemma on_stream_world: "site_world (snd (on_stream f s)) = site_world s"
  by (simp add: on_stream_def case_prod_unfold split: option.split)

lemma typed_204: "typed_reply r (Page p) \<Longrightarrow> Status p = 204 \<Longrightarrow> p = respond 204 NoBody"
  by (cases p; cases "Payload p") (auto simp: typed_reply_def well_typed_def)

lemma guest_routes_gate:
  assumes "\<And>n. openGate n = (True, act n)" "\<And>w. snd (openOutdoor w) = w"
    and run: "guest_routes h DemoCode openGate openOutdoor env r st = (resp, st')"
  shows "if gate_press h r (store st) then resp = respond 204 NoBody \<and> world st' = act (world st)
    else world st' = world st"
proof -
  note door = door_moves [OF run]
  show ?thesis
  proof (cases "gate_press h r (store st)")
    case True
    then have "entitled_door h openGate openOutdoor r (store st) = Some openGate"
      by (auto simp: gate_press_def entitled_door_def)
    with door assms(1) have "world st' = act (world st)" "Status resp = 204" by simp_all
    moreover have "typed_reply r (Page resp)"
      using guest_routes_typed [of r h DemoCode openGate openOutdoor env st] run by simp
    ultimately show ?thesis using True typed_204 by simp
  next
    case False
    then have "entitled_door h openGate openOutdoor r (store st) \<in> {None, Some openOutdoor}"
      by (auto simp: gate_press_def entitled_door_def split: option.split bool.split)
    with door assms(2) have "world st' = world st" by auto
    with False show ?thesis by simp
  qed
qed

lemma funnel_gate:
  assumes "\<And>n. openGate n = (True, act n)" "\<And>w. snd (openOutdoor w) = w"
    and run: "funnel h hmac secret DemoCode openGate openOutdoor env ce r s = (reply, s')"
  shows "if gate_press h r (site_store s) then reply = Page (respond 204 NoBody) \<and> site_world s' = act (site_world s)
    else site_world s' = site_world s"
proof -
  let ?st = "\<lparr>store = site_store s, audit = site_audit s, world = site_world s\<rparr>"
  obtain resp st' where g: "guest_routes h DemoCode openGate openOutdoor env r ?st = (resp, st')" by fastforce
  have api: "on_api (guest_routes h DemoCode openGate openOutdoor env r) s
      = (Page resp, s\<lparr>site_store := store st', site_audit := audit st', site_world := world st'\<rparr>)"
    by (simp add: on_api_def g)
  have press: "canonical r \<and> \<not> prefix ''/guest/cam/'' (Path r) \<and> Path r \<noteq> ''/guest/cam''" if "gate_press h r (site_store s)"
    using that by (simp add: gate_press_def)
  show ?thesis
  proof (cases "canonical r \<and> (site_stream s = None \<or> \<not> prefix ''/guest/cam/'' (Path r) \<and> Path r \<noteq> ''/guest/cam'')")
    case True
    then have "(reply, s') = on_api (guest_routes h DemoCode openGate openOutdoor env r) s"
      unfolding run [symmetric] funnel_def buildGuestFunnel_def by (cases "site_stream s = None") simp_all
    with guest_routes_gate [OF assms(1,2) g] show ?thesis by (simp add: api)
  next
    case False
    then have no: "\<not> gate_press h r (site_store s)" using press by blast
    have "site_world s' = site_world s"
    proof (cases "canonical r \<and> prefix ''/guest/cam/'' (Path r)")
      case True
      let ?f = "stream_routes h hmac secret (ce_player ce) (ce_now ce) (ce_query ce) env r"
      from True have "on_stream ?f s = (reply, s')"
        using False run unfolding funnel_def buildGuestFunnel_def by (cases "site_stream s = None") simp_all
      then show ?thesis using on_stream_world [of ?f s] by simp
    next
      case ncam: False
      then have "s' = s" using False run unfolding funnel_def buildGuestFunnel_def
        by (cases "canonical r"; cases "site_stream s = None") simp_all
      then show ?thesis by simp
    qed
    with no show ?thesis by simp
  qed
qed

section \<open>Properties\<close>

text \<open>
  C2: From the internet to the motor: with a gate that follows its protocol, a press of the gate
  button by a live guest on the public surface is answered 204 and activates the gate exactly once,
  and every other request to the public surface, in any state, leaves it alone.
\<close>

theorem guest_press_opens_the_gate_once:
  assumes "creds ctl = Some cr" "connected cr (centsysClientID (crPhone cr) '':cam'')" "length ch = 4"
    and "\<And>n. snd (openOutdoor n) = n"
    and "funnel h hmac secret DemoCode (OpenGate (gate_broker cr want pre ch) connected t (Some ctl)) openOutdoor env ce r s
      = (reply, s')"
  shows "if gate_press h r (site_store s) then reply = Page (respond 204 NoBody) \<and> site_world s' = Suc (site_world s)
    else site_world s' = site_world s"
  by (rule funnel_gate [OF OpenGate_honest [of ctl cr connected ch want pre t, OF assms(1-3)] assms(4,5)])

section \<open>Witness\<close>

theorem guest_press_opens_the_gate_once_witness:
  "\<exists>reply s'. funnel demo_hash toy_mac ''k'' [] (OpenGate (gate_broker sample_creds 3 [1, 1] [5, 6, 7, 8]) (\<lambda>_ _. True)
       sample_time (Some sample_gate)) (\<lambda>n. (True, n)) sample_env
       \<lparr>ce_now = 0, ce_query = [], ce_player = loaded\<rparr>
       (ask ''/guest/gate/open'' (''Bearer '' @ ''tok-ann'') None)
       \<lparr>site_store = two_guests, site_audit = None, site_world = 0, site_stream = None\<rparr> = (reply, s')
     \<and> reply = Page (respond 204 NoBody) \<and> site_world s' = 1"
proof -
  let ?r = "ask ''/guest/gate/open'' (''Bearer '' @ ''tok-ann'') None"
  let ?s = "\<lparr>site_store = two_guests, site_audit = None, site_world = 0 :: nat, site_stream = None\<rparr>"
  obtain reply s' where run: "funnel demo_hash toy_mac ''k'' [] (OpenGate (gate_broker sample_creds 3 [1, 1] [5, 6, 7, 8])
      (\<lambda>_ _. True) sample_time (Some sample_gate)) (\<lambda>n. (True, n)) sample_env
      \<lparr>ce_now = 0, ce_query = [], ce_player = loaded\<rparr> ?r ?s = (reply, s')" by fastforce
  have "live_bearer demo_hash two_guests ?r = Some (''01'', ''Ann'', False)"
    by (rule trans [OF live_bearer_of ann_has_access]) (simp only: ask_sel)
  then have press: "gate_press demo_hash ?r (site_store ?s)"
    unfolding gate_press_def by (simp only: ask_sel site.select_convs canonical_def gate_path_clean) simp
  have "creds sample_gate = Some sample_creds" by (simp add: sample_gate_def)
  from guest_press_opens_the_gate_once [OF this _ _ _ run] press show ?thesis using run by simp
qed

end
