(* ===== verification/Spec2Isabelle.thy ===== *)
theory Spec2Isabelle
  imports GuestStore AuditStore GuestApi StreamSign StreamHub StreamApi Digest Config Doors Bell
    EventAttach Transcode Srtp RtspSpec Sip CentsysSpec GreeSpec HkClimate HkLock HkGate HkBridge HkCamera
    HomeKit Hub WhatsApp Wiring Process GuestGate
begin

text \<open>
  A verification library for camonitor, a Go server that joins door stations and cameras, a motorised
  gate and an air conditioner to a web page, to HomeKit, to WhatsApp and to guests on the internet.

  \<^bold>\<open>The program.\<close>  A configuration lists streams; those marked as doors have a lock relay.  For every
  stream \<open>hub.go\<close> keeps one RTSP reader (\<open>rtsp.go\<close>, with \<open>transcode.go\<close> for audio) that feeds a WebRTC
  track, and the signalling sessions of browsers.  A ring comes from a door's event stream
  (\<open>eventattach.go\<close>) or as a SIP call (\<open>sip.go\<close>); \<open>bell.go\<close> debounces it, fetches a snapshot
  (\<open>snapshot.go\<close>), records it (\<open>bellstore.go\<close>) and hands it to the pages, to HomeKit (\<open>hkcamera.go\<close>)
  and to WhatsApp (\<open>whatsapp.go\<close>).  \<open>door.go\<close> opens doors, \<open>centsys.go\<close> the gate over MQTT, \<open>gree.go\<close>
  drives the air conditioner over UDP; \<open>homekit.go\<close> and the \<open>hk*.go\<close> files present all of it to the Home
  app.  Guests enrol with one-time codes (\<open>gueststore.go\<close>, \<open>guestapi.go\<close>), open the two doors they are
  given and watch cameras through signed URLs (\<open>streamsign.go\<close>, \<open>streamapi.go\<close>, \<open>streamhub.go\<close>); an audit log
  (\<open>auditstore.go\<close>) records them and only the tailnet reaches the owner's API (\<open>guestadmin.go\<close>,
  \<open>guestwiring.go\<close>, \<open>main.go\<close>).

  \<^bold>\<open>How it is modelled.\<close>  A Go string or byte slice is a \<open>string\<close>, a time a nanosecond count, a map a
  HOL map or, where order or duplicates matter, a list.  A handler or method is one function from the
  state to its result and the new state, with every early return as a branch; errors are values of a sum
  or option type.  Integers are words where the code relies on their width.  Whatever runs under one
  mutex is one step; where goroutines, timers and callbacks interleave there is a step relation
  (\<open>hub_step\<close>, \<open>lock_step\<close>, \<open>sip_run_step\<close>, \<open>signal_reach\<close>, \<open>session_reach\<close>, \<open>wa_reach\<close>, \<open>client_reach\<close>) and the properties
  hold in every reachable state.  Fields that record what Go keeps in closures or in the runtime (open
  sockets, running goroutines, armed timers, messages sent) are named where the record is declared.

  \<^bold>\<open>What is a parameter.\<close>  Hashes and ciphers, random bytes, clocks, the file system, SQL, sockets, HTTP
  transports, JSON, TLV8 and X.509 decoders, and the libraries pion, gortsplib, gohlslib, sipgo, hap,
  whatsmeow and tsnet are arguments of the definitions that use them, or choices of a step.  A law one of
  them must obey is a premise of the theorem that needs it (an HMAC without a collision on the two
  messages at hand, a block cipher whose decryption inverts its encryption).

  \<^bold>\<open>The theories.\<close>
  \<^item> \<open>Prelude\<close>, \<open>GoLib\<close>, \<open>GoCodec\<close>, \<open>Wire\<close>: shared types and lemmas, and what the program uses of Go's
    \<open>strings\<close>, \<open>strconv\<close>, \<open>hex\<close>, \<open>base64\<close>, \<open>net/url\<close> and \<open>bufio\<close>, each codec with its round trip.
  \<^item> \<open>Config\<close>: \<open>loadConfig\<close> and the URLs of a stream; what a loaded configuration guarantees.
  \<^item> \<open>GuestStore\<close>, \<open>AuditStore\<close>, \<open>GuestApi\<close>: guest records, log and HTTP handlers.  The abstract state is
    which token opens what (\<open>access\<close>); the locale \<open>guest_access\<close> is what the handlers rely on.
  \<^item> \<open>StreamSign\<close>, \<open>StreamHub\<close>, \<open>StreamApi\<close>, \<open>Throttle\<close>: signed URLs, shared pulls with their timers, the
    playlist rewriter; \<open>Throttle\<close> is the rate limit that the session log and the doorbell share.
  \<^item> \<open>Wiring\<close>: the guest buttons, the muxes, the start-up of the tailnet node and of guest access, and the
    public surface over one store, with the type of every reply.  \<open>GuestGate\<close>: a guest's press, from the
    public surface to the gate's motor.  \<open>Process\<close>: \<open>main\<close>'s start and stop as a trace of actions.
  \<^item> \<open>Digest\<close>, \<open>Doors\<close>, \<open>EventAttach\<close>, \<open>Sip\<close>: HTTP digest and its clients, all instances of the locale
    \<open>challenge_client\<close>: one request without credentials, and at most one answer to a challenge.
  \<^item> \<open>Bell\<close>: debounce, history, persistence and subscribers of rings.
  \<^item> \<open>Rtsp\<close>, \<open>RtspSpec\<close>, \<open>Transcode\<close>, \<open>Srtp\<close>: the camera's protocol and its media.
  \<^item> \<open>Hub\<close>: readers and browser sessions.
  \<^item> \<open>CentsysPackets\<close>, \<open>Centsys\<close>, \<open>CentsysSpec\<close>: the gate's packets, its controller and what it promises.
  \<^item> \<open>Gree\<close>, \<open>GreeSpec\<close>, \<open>HkClimate\<close>: the air conditioner, and its HomeKit tile over the locale
    \<open>gree_device\<close>.
  \<^item> \<open>HkLock\<close>, \<open>HkGate\<close>, \<open>HkBridge\<close>, \<open>HkCamera\<close>, \<open>HomeKit\<close>: the other tiles, cameras and the pairing pages.
  \<^item> \<open>WhatsApp\<close>: recipients, pairing and sends.
  \<^item> This theory: the way of a ring through the components.

  \<^bold>\<open>What the lemmas show.\<close>  Safety: doors move only for live guests, revocation and single use of codes are
  final, the public surface makes no guests, the gate is only ever triggered.  Invariants: one pull per
  watched camera, one reader per stream, one relock timer per lock, one socket per HomeKit stream, no
  forgotten browser session.  Termination: the event loop ends with its connection.  Types: a
  public reply is of the kind its path says.  Liveness: a live guest's press opens the gate, once.  Order:
  every server the program starts it shuts down, and what it opened it releases in reverse.  Round trips: every wire
  format is read back as it was written.
  Refinements: the gate tile against the telemetry it was sent, the signed playlist against its URIs.
  Bounds: frame times, companding error, debounce.  Errors: what a refused configuration, login or
  pairing leaves behind.  Where the code does not do what it says, a lemma exhibits it.

  \<^bold>\<open>Bounds.\<close>  Loops recurse on the input they consume (\<open>measure length\<close>), and a loop that waits for
  events recurses on the list of the events it is given.  \<open>consume\<close> counts the context checks of the event
  loop, which is its only bound: one more than the bytes of the connection is always enough.  An endless loop (the
  reconnect loops, registration, polling, pruning) is its body over a list of rounds.

  \<^bold>\<open>Not modelled.\<close>  The web page (static files); flag parsing, logging and the tuning of HTTP servers; contexts
  and deadlines except where their expiry is an outcome; the set-up of the MQTT and TLS connections; float
  rounding in the last bit of a temperature.
\<close>

section \<open>A ring\<close>

text \<open>
  \<open>main.go\<close> gives the bell the door stations' snapshots and the notifier's \<open>SendImage\<close>.  One trigger of
  a door's bell: \<open>Fire\<close>, and when it is accepted \<open>handle\<close> with both; the bus, the door station's world and
  the calls to WhatsApp.
\<close>

definition ring_bell ::
  "(string \<Rightarrow> string) \<Rightarrow> string \<Rightarrow> (string \<Rightarrow> bool) \<Rightarrow> 'w http_send \<Rightarrow> (bell_row list \<Rightarrow> bell_row list)
     \<Rightarrow> (string \<Rightarrow> instant \<Rightarrow> string) \<Rightarrow> bool \<Rightarrow> bool \<Rightarrow> string option \<Rightarrow> (nat \<Rightarrow> string option) \<Rightarrow> whatsapp
     \<Rightarrow> instant \<Rightarrow> string \<Rightarrow> bell_bus \<times> 'w \<Rightarrow> (bell_bus \<times> 'w) \<times> wa_call list" where
  "ring_bell md5 bytes url_ok net newest caption saved pruned uploaded sends wa now i bw =
    (case bw of (b, w) \<Rightarrow> (case Bell.Fire now i b of
        (None, b) \<Rightarrow> ((b, w), [])
      | (Some (s, t), b) \<Rightarrow> (case Doors.FetchSnapshot md5 bytes url_ok net s w of (snap, w) \<Rightarrow>
          let b' = Bell.handle newest True caption \<lparr>re_snap = snap, re_saved = saved, re_pruned = pruned\<rparr> s t b
          in ((b', w), concat (map (\<lambda>(jpeg, c). snd (WhatsApp.SendImage uploaded sends jpeg c wa))
                (drop (length (sentWA b)) (sentWA b')))))))"

section \<open>What \<open>handle\<close> changes\<close>

lemma handle_parts:
  assumes "Bell.handle newest True caption \<lparr>re_snap = Some jpeg, re_saved = saved, re_pruned = pruned\<rparr> s t b = b'"
    and "e = fst (ring_entry (Suc (nextSeq b)) \<lparr>re_snap = Some jpeg, re_saved = saved, re_pruned = pruned\<rparr> s t)"
  shows "bstreams b' = bstreams b" "lastFire b' = lastFire b"
    "sentWA b' = sentWA b @ (if jpeg = [] then [] else [(jpeg, caption (ev_name e) t)])"
    "subs b' = (\<lambda>ch. map_option (Bell.offer e) (subs b ch))"
proof -
  have a: "\<And>h b. bstreams (appendHistory h b) = bstreams b" "\<And>h b. lastFire (appendHistory h b) = lastFire b"
    "\<And>h b. sentWA (appendHistory h b) = sentWA b" "\<And>h b. subs (appendHistory h b) = subs b"
    by (simp_all add: appendHistory_def Let_def)
  show "bstreams b' = bstreams b" "lastFire b' = lastFire b"
    "sentWA b' = sentWA b @ (if jpeg = [] then [] else [(jpeg, caption (ev_name e) t)])"
    "subs b' = (\<lambda>ch. map_option (Bell.offer e) (subs b ch))"
    unfolding assms(1) [symmetric] assms(2)
    by (simp_all add: handle_def makeEventID_def broadcast_def Let_def a ring_entry_def event_id_def split: prod.split)
qed

text \<open>What the bus keeps: its map is keyed by stream id, and neither history nor queues outgrow their bounds.\<close>

definition bus_ok :: "bell_bus \<Rightarrow> bool" where
  "bus_ok b \<longleftrightarrow> (\<forall>i s. bstreams b i = Some s \<longrightarrow> sid s = i) \<and> length (history b) \<le> historyCap
     \<and> (\<forall>ch q. subs b ch = Some q \<longrightarrow> length q \<le> subBuffer)"

lemma offer_ok: "length q \<le> subBuffer \<Longrightarrow> last (Bell.offer ev q) = ev \<and> length (Bell.offer ev q) \<le> subBuffer"
  by (auto simp: Bell.offer_def subBuffer_def Let_def)

lemma keyed_fold:
  assumes "\<And>i s. m i = Some s \<Longrightarrow> sid s = i"
  shows "fold (\<lambda>s m. m(sid s \<mapsto> s)) ss m i = Some s \<Longrightarrow> sid s = i"
  using assms
proof (induction ss arbitrary: m)
  case (Cons a ss)
  show ?case
  proof (rule Cons.IH)
    show "fold (\<lambda>s m. m(sid s \<mapsto> s)) ss (m(sid a \<mapsto> a)) i = Some s"
      using Cons.prems(1) by (simp del: fun_upd_apply)
    show "(m(sid a \<mapsto> a)) j = Some t \<Longrightarrow> sid t = j" for j t
      using Cons.prems(2) by (cases "j = sid a") simp_all
  qed
qed simp

lemma bus_ok_new: "bus_ok (NewBellBus newest ok ss st)"
proof -
  have "length es \<le> historyCap" if "LoadRecent newest ok (int historyCap) st = Some es" for es
    using that by (cases st) (simp_all add: LoadRecent_def historyCap_def split: if_splits, force)
  then have "length (history (NewBellBus newest ok ss st)) \<le> historyCap"
    by (simp add: NewBellBus_def Let_def split: option.split)
  moreover have "bstreams (NewBellBus newest ok ss st) i = Some s \<Longrightarrow> sid s = i" for i s
    using keyed_fold [of Map.empty ss i s] by (simp add: NewBellBus_def Let_def)
  moreover have "subs (NewBellBus newest ok ss st) = Map.empty" by (simp add: NewBellBus_def Let_def)
  ultimately show ?thesis unfolding bus_ok_def by simp
qed

lemma bus_ok_Subscribe: "bus_ok b \<Longrightarrow> bus_ok (Bell.Subscribe ch b)"
  by (simp add: bus_ok_def Bell.Subscribe_def subBuffer_def)

lemma bus_ok_handle:
  assumes "bus_ok b"
  shows "bus_ok (Bell.handle newest True caption \<lparr>re_snap = Some jpeg, re_saved = saved, re_pruned = pruned\<rparr> s t b)"
proof -
  note parts = handle_parts [OF refl refl]
  have "length (history b) \<le> historyCap" using assms by (simp add: bus_ok_def)
  then have "length (history (Bell.handle newest True caption \<lparr>re_snap = Some jpeg, re_saved = saved, re_pruned = pruned\<rparr> s t b))
      \<le> historyCap"
    by (simp add: handle_history(1) last_n_def)
  then show ?thesis
    using assms offer_ok unfolding bus_ok_def parts by fastforce
qed

lemma sent_messages:
  assumes "jpeg \<noteq> []" "ready wa"
  shows "[(User j, im, c). SendImageMessage _ j im c \<leftarrow> snd (WhatsApp.SendImage (Some ref) sends jpeg cap wa)]
    = map (\<lambda>u. (u, ref, cap)) (map User (recipients wa))"
proof -
  have "[(User j, im, c). SendImageMessage _ j im c \<leftarrow> map (\<lambda>j. SendImageMessage a j x y) js] = map (\<lambda>u. (u, x, y)) (map User js)"
    for a x y js
    by (induction js) simp_all
  from this [of "wclient wa" ref cap "recipients wa"] assms show ?thesis by (simp add: SendImage_def Let_def)
qed

lemma Fire_accepted:
  assumes "bstreams b i = Some s" "fst (debounce now i (lastFire b))"
  shows "Bell.Fire now i b = (Some (s, now), b\<lparr>lastFire := (lastFire b)(i \<mapsto> now)\<rparr>)"
  using assms by (auto simp: Bell.Fire_def debounce_def Let_def split: if_splits prod.splits)

lemma Fire_suppressed:
  assumes "lastFire b i = Some prev" "time_sub now prev < bellDebounce"
  shows "Bell.Fire now i b = (None, b)"
  using assms by (simp add: Bell.Fire_def debounce_def Let_def split: option.split)

lemma newest_is_last: "last_n historyCap (xs @ [x]) \<noteq> [] \<and> last (last_n historyCap (xs @ [x])) = x"
  by (simp add: last_n_def historyCap_def)

section \<open>Properties\<close>



lemma one_door_snapshot: "Doors.FetchSnapshot rev ''12345678'' (\<lambda>_. True) vto_send one_stream 0 = (Some ''JPEG'', 2)"
  by (simp add: Doors.FetchSnapshot_def vto_send_def vto_parses request_uri_def buildDigestResponse_def Let_def
      readSnapshotBody_def maxSnapshotBytes_def)


end
